(* ===== verification/C_Prelude.thy ===== *)
theory C_Prelude
  imports Main
begin

text \<open>
  What every component of the development shares: how a fault of the C program
  (a null dereference, a write past a buffer, a call of \<^verbatim>\<open>exit\<close>) becomes a value, how
  faulting computations are sequenced, and how arrays are read and written with
  the bounds that C does not check made explicit.
\<close>

section \<open>Faults and results\<close>

text \<open>
  A C function either returns or does one of the following.  Undefined behaviour is
  a value here, so that the theorems can say where it happens and where it cannot; nothing is
  claimed of what the program does after it.  \<open>Exit n\<close> is the library call \<^verbatim>\<open>exit(n)\<close>, and
  \<open>Blocked\<close> a call that waits for ever for a peer that stays silent.
\<close>

datatype fault =
    NullDeref
  | BadPointer
  | BufferOverflow
  | OverRead
  | OutOfBounds
  | DivByZero
  | UseAfterFree
  | Uninitialised
  | Blocked
  | Exit int

type_synonym 'a res = "fault + 'a"

definition rbind :: "'a res \<Rightarrow> ('a \<Rightarrow> 'b res) \<Rightarrow> 'b res" where
  "rbind m f = (case m of Inl e \<Rightarrow> Inl e | Inr x \<Rightarrow> f x)"

definition guard :: "bool \<Rightarrow> fault \<Rightarrow> unit res" where
  "guard b e = (if b then Inr () else Inl e)"

definition nonnull :: "'a option \<Rightarrow> 'a res" where
  "nonnull p = (case p of None \<Rightarrow> Inl NullDeref | Some x \<Rightarrow> Inr x)"

named_theorems res_simps "evaluation of faulting computations"

lemma rbind_Inl [simp]: "rbind (Inl e) f = Inl e"
  by (simp add: rbind_def)

lemma rbind_Inr [simp]: "rbind (Inr x) f = f x"
  by (simp add: rbind_def)

lemma rbind_eq_Inr: "rbind m f = Inr y \<longleftrightarrow> (\<exists>x. m = Inr x \<and> f x = Inr y)"
  by (cases m) auto

lemma rbind_eq_Inl: "rbind m f = Inl e \<longleftrightarrow> m = Inl e \<or> (\<exists>x. m = Inr x \<and> f x = Inl e)"
  by (cases m) auto

lemma rbind_assoc [res_simps]: "rbind (rbind m f) g = rbind m (\<lambda>x. rbind (f x) g)"
  by (cases m) auto

lemma rbind_if: "rbind (if b then Inr x else Inl e) f = (if b then f x else Inl e)"
  by simp

lemma guard_True [simp]: "b \<Longrightarrow> guard b e = Inr ()"
  by (simp add: guard_def)

lemma guard_False [simp]: "\<not> b \<Longrightarrow> guard b e = Inl e"
  by (simp add: guard_def)

lemma guard_eq_Inr [simp]: "guard b e = Inr u \<longleftrightarrow> b"
  by (simp add: guard_def)

lemma nonnull_simps [simp]: "nonnull None = Inl NullDeref" "nonnull (Some x) = Inr x"
  by (simp_all add: nonnull_def)

lemma nonnull_eq_Inr: "nonnull p = Inr x \<longleftrightarrow> p = Some x"
  by (cases p) auto

text \<open>
  Code with a loop that may not end has type \<open>'a res option\<close>: \<open>None\<close> is "does not
  return".
\<close>

definition cbind :: "'a res option \<Rightarrow> ('a \<Rightarrow> 'b res option) \<Rightarrow> 'b res option" where
  "cbind m f =
     (case m of None \<Rightarrow> None | Some (Inl e) \<Rightarrow> Some (Inl e) | Some (Inr x) \<Rightarrow> f x)"

lemma cbind_simps [simp]:
  "cbind None f = None" "cbind (Some (Inl e)) f = Some (Inl e)" "cbind (Some (Inr x)) f = f x"
  by (simp_all add: cbind_def)

lemma cbind_alt: "cbind m f = Option.bind m (\<lambda>r. case r of Inl e \<Rightarrow> Some (Inl e) | Inr x \<Rightarrow> f x)"
  by (simp add: cbind_def split: option.splits)

text \<open>So loops written with \<open>cbind\<close> are accepted as partial functions.\<close>

lemma cbind_mono [partial_function_mono]:
  assumes "mono_option B" "\<And>y. mono_option (\<lambda>f. C y f)"
  shows "mono_option (\<lambda>f. cbind (B f) (\<lambda>y. C y f))"
  unfolding cbind_alt
proof (intro bind_mono assms(1))
  fix r :: "fault + 'c"
  show "mono_option (\<lambda>f. case r of Inl e \<Rightarrow> Some (Inl e) | Inr x \<Rightarrow> C x f)"
    by (cases r) (simp_all add: assms(2) option.const_mono)
qed

lemma cbind_eq_Inr:
  "cbind m f = Some (Inr y) \<longleftrightarrow> (\<exists>x. m = Some (Inr x) \<and> f x = Some (Inr y))"
  by (auto simp: cbind_def split: option.splits sum.splits)

lemma cbind_Some_rbind: "cbind (Some m) (\<lambda>x. Some (f x)) = Some (rbind m f)"
  by (cases m) auto

section \<open>Arrays\<close>

text \<open>
  A C array of known extent is a list.  Reading or writing outside of it is the
  fault \<open>OutOfBounds\<close>.
\<close>

definition array_get :: "'a list \<Rightarrow> nat \<Rightarrow> 'a res" where
  "array_get xs i = (if i < length xs then Inr (xs ! i) else Inl OutOfBounds)"

definition array_set :: "'a list \<Rightarrow> nat \<Rightarrow> 'a \<Rightarrow> 'a list res" where
  "array_set xs i x = (if i < length xs then Inr (xs[i := x]) else Inl OutOfBounds)"

lemma array_get_in [simp]: "i < length xs \<Longrightarrow> array_get xs i = Inr (xs ! i)"
  by (simp add: array_get_def)

lemma array_get_out [simp]: "length xs \<le> i \<Longrightarrow> array_get xs i = Inl OutOfBounds"
  by (simp add: array_get_def)

lemma array_get_eq_Inr: "array_get xs i = Inr x \<longleftrightarrow> i < length xs \<and> xs ! i = x"
  by (auto simp: array_get_def)

lemma array_set_in [simp]: "i < length xs \<Longrightarrow> array_set xs i x = Inr (xs[i := x])"
  by (simp add: array_set_def)

lemma array_set_out [simp]: "length xs \<le> i \<Longrightarrow> array_set xs i x = Inl OutOfBounds"
  by (simp add: array_set_def)

lemma array_set_eq_Inr: "array_set xs i x = Inr ys \<longleftrightarrow> i < length xs \<and> ys = xs[i := x]"
  by (auto simp: array_set_def)

section \<open>Loops over a list of steps\<close>

text \<open>
  A counted C loop whose body can fault: the steps run in order and the first
  fault ends the run.
\<close>

fun run_steps :: "('i \<Rightarrow> 's \<Rightarrow> 's res) \<Rightarrow> 'i list \<Rightarrow> 's \<Rightarrow> 's res" where
  "run_steps body [] s = Inr s"
| "run_steps body (i # is) s = rbind (body i s) (run_steps body is)"

lemma run_steps_append:
  "run_steps body (xs @ ys) s = rbind (run_steps body xs s) (run_steps body ys)"
proof (induction xs arbitrary: s)
  case (Cons x xs)
  then have "run_steps body (xs @ ys) = (\<lambda>s. rbind (run_steps body xs s) (run_steps body ys))"
    by auto
  then show ?case by (simp add: res_simps)
qed simp

lemma run_steps_invariant:
  assumes "run_steps body xs s = Inr s'" and "P s"
    and "\<And>i s s'. i \<in> set xs \<Longrightarrow> body i s = Inr s' \<Longrightarrow> P s \<Longrightarrow> P s'"
  shows "P s'"
  using assms
proof (induction xs arbitrary: s)
  case (Cons x xs)
  then obtain t where "body x s = Inr t" "run_steps body xs t = Inr s'"
    by (auto simp: rbind_eq_Inr)
  with Cons show ?case by (metis list.set_intros(1,2))
qed simp

lemma run_steps_total:
  assumes "P s" and "\<And>i s. i \<in> set xs \<Longrightarrow> P s \<Longrightarrow> \<exists>s'. body i s = Inr s' \<and> P s'"
  shows "\<exists>s'. run_steps body xs s = Inr s' \<and> P s'"
  using assms
proof (induction xs arbitrary: s)
  case (Cons x xs)
  from Cons.prems obtain t where "body x s = Inr t" "P t" by (metis list.set_intros(1))
  moreover from Cons.prems \<open>P t\<close> have "\<exists>s'. run_steps body xs t = Inr s' \<and> P s'"
    by (intro Cons.IH) auto
  ultimately show ?case by auto
qed simp

text \<open>The same for steps that may not return.\<close>

fun crun_steps :: "('i \<Rightarrow> 's \<Rightarrow> 's res option) \<Rightarrow> 'i list \<Rightarrow> 's \<Rightarrow> 's res option" where
  "crun_steps body [] s = Some (Inr s)"
| "crun_steps body (i # is) s = cbind (body i s) (crun_steps body is)"

lemma crun_steps_invariant:
  assumes "crun_steps body xs s = Some (Inr s')" and "P s"
    and "\<And>i s s'. i \<in> set xs \<Longrightarrow> body i s = Some (Inr s') \<Longrightarrow> P s \<Longrightarrow> P s'"
  shows "P s'"
  using assms
proof (induction xs arbitrary: s)
  case (Cons x xs)
  then obtain t where "body x s = Some (Inr t)" "crun_steps body xs t = Some (Inr s')"
    by (auto simp: cbind_eq_Inr)
  with Cons show ?case by (metis list.set_intros(1,2))
qed simp

text \<open>What each step adds to a list of the state adds up in the order of the steps.\<close>

lemma crun_steps_trace:
  assumes "crun_steps body xs s = Some (Inr s')" and "I s"
    and "\<And>i s s'. i \<in> set xs \<Longrightarrow> body i s = Some (Inr s') \<Longrightarrow> I s \<Longrightarrow> I s' \<and> tr s' = tr s @ f i"
  shows "I s' \<and> tr s' = tr s @ concat (map f xs)"
  using assms
proof (induction xs arbitrary: s)
  case (Cons x xs)
  then obtain t where t: "body x s = Some (Inr t)" "crun_steps body xs t = Some (Inr s')"
    by (auto simp: cbind_eq_Inr)
  have it: "I t \<and> tr t = tr s @ f x" by (rule Cons.prems(3) [OF _ t(1) Cons.prems(2)]) simp
  have "I s' \<and> tr s' = tr t @ concat (map f xs)"
  proof (rule Cons.IH [OF t(2)])
    show "I t" using it ..
    fix i u u' assume "i \<in> set xs" "body i u = Some (Inr u')" "I u"
    then show "I u' \<and> tr u' = tr u @ f i" by (intro Cons.prems(3)) simp_all
  qed
  with it show ?case by simp
qed simp

lemma run_steps_trace:
  assumes "run_steps body xs s = Inr s'" and "I s"
    and "\<And>i s s'. i \<in> set xs \<Longrightarrow> body i s = Inr s' \<Longrightarrow> I s \<Longrightarrow> I s' \<and> tr s' = tr s @ f i"
  shows "I s' \<and> tr s' = tr s @ concat (map f xs)"
  using assms
proof (induction xs arbitrary: s)
  case (Cons x xs)
  then obtain t where t: "body x s = Inr t" "run_steps body xs t = Inr s'"
    by (auto simp: rbind_eq_Inr)
  have it: "I t \<and> tr t = tr s @ f x" by (rule Cons.prems(3) [OF _ t(1) Cons.prems(2)]) simp
  have "I s' \<and> tr s' = tr t @ concat (map f xs)"
  proof (rule Cons.IH [OF t(2)])
    show "I t" using it ..
    fix i u u' assume "i \<in> set xs" "body i u = Inr u'" "I u"
    then show "I u' \<and> tr u' = tr u @ f i" by (intro Cons.prems(3)) simp_all
  qed
  with it show ?case by simp
qed simp

section \<open>Program arguments\<close>

text \<open>\<^verbatim>\<open>argv[i]\<close> of a list with the program's name first; the pointer after the last is null.\<close>

definition argument :: "char list list \<Rightarrow> nat \<Rightarrow> char list res" where
  "argument argv i =
     (if i < length argv then Inr (argv ! i) else if i = length argv then Inl NullDeref else Inl OutOfBounds)"

end
