(* ===== verification/C_Strings.thy ===== *)
theory C_Strings
  imports C_Prelude
begin

text \<open>
  The part of the C string library the program uses.  A C string is a \<open>string\<close>
  without the NUL character; a character array is a list of characters of the
  array's size, and its string ends at the first NUL.  A null pointer is \<open>None\<close>.
\<close>

section \<open>Character arrays\<close>

abbreviation NUL :: char where
  "NUL \<equiv> CHR 0x00"

definition cstr :: "string \<Rightarrow> bool" where
  "cstr s \<longleftrightarrow> NUL \<notin> set s"

text \<open>The C string held by an array; without a terminator the read leaves the array.\<close>

definition c_string :: "char list \<Rightarrow> string res" where
  "c_string buf =
     (if NUL \<in> set buf then Inr (takeWhile (\<lambda>c. c \<noteq> NUL) buf) else Inl OverRead)"

text \<open>\<^verbatim>\<open>bzero(buf, n)\<close> on an array of at least \<open>n\<close> characters.\<close>

definition bzero :: "nat \<Rightarrow> char list \<Rightarrow> char list" where
  "bzero n buf = replicate (min n (length buf)) NUL @ drop n buf"

text \<open>What a read or receive of \<open>bytes\<close> leaves in the array.\<close>

definition store_bytes :: "char list \<Rightarrow> char list \<Rightarrow> char list" where
  "store_bytes buf bytes = bytes @ drop (length bytes) buf"

text \<open>
  \<^verbatim>\<open>strcpy\<close> and \<^verbatim>\<open>strcat\<close> into an array of \<open>cap\<close> characters, of which the string is
  what matters: the terminator has to fit as well.
\<close>

definition strcpy :: "nat \<Rightarrow> string \<Rightarrow> string res" where
  "strcpy cap s = (if length s < cap then Inr s else Inl BufferOverflow)"

definition strcat :: "nat \<Rightarrow> string \<Rightarrow> string \<Rightarrow> string res" where
  "strcat cap d s = (if length d + length s < cap then Inr (d @ s) else Inl BufferOverflow)"

text \<open>A \<^verbatim>\<open>strcpy\<close> followed by any number of \<^verbatim>\<open>strcat\<close>s, in the order of the code.\<close>

fun strcats :: "nat \<Rightarrow> string \<Rightarrow> string list \<Rightarrow> string res" where
  "strcats cap d [] = Inr d"
| "strcats cap d (s # ss) = rbind (strcat cap d s) (\<lambda>d'. strcats cap d' ss)"

definition build_string :: "nat \<Rightarrow> string \<Rightarrow> string list \<Rightarrow> string res" where
  "build_string cap s ss = rbind (strcpy cap s) (\<lambda>d. strcats cap d ss)"

lemma strcpy_eq_Inr [simp]: "strcpy cap s = Inr t \<longleftrightarrow> length s < cap \<and> t = s"
  by (auto simp: strcpy_def)

lemma strcats_eq:
  "length d < cap \<Longrightarrow>
   strcats cap d ss = (if length d + length (concat ss) < cap then Inr (d @ concat ss)
                       else Inl BufferOverflow)"
  by (induction ss arbitrary: d) (auto simp: strcat_def)

text \<open>Copying piece by piece either gives the concatenation or overflows.\<close>

lemma build_string_eq:
  "build_string cap s ss =
     (if length s + length (concat ss) < cap then Inr (s @ concat ss) else Inl BufferOverflow)"
  by (auto simp: build_string_def strcpy_def strcats_eq)

lemma c_string_terminated [simp]: "cstr s \<Longrightarrow> c_string (s @ NUL # rest) = Inr s"
proof -
  assume "cstr s"
  then have "takeWhile (\<lambda>c. c \<noteq> NUL) (s @ NUL # rest) = s"
    by (induction s) (auto simp: cstr_def)
  then show ?thesis by (simp add: c_string_def)
qed

text \<open>A cleared array one larger than what is read into it always holds a string.\<close>

lemma c_string_cleared:
  "c_string (store_bytes (replicate (Suc n) NUL) (take n bytes)) =
   Inr (takeWhile (\<lambda>c. c \<noteq> NUL) (take n bytes))"
proof -
  have "length (take n bytes) \<le> n" by simp
  then have n: "Suc n - length (take n bytes) = Suc (n - length (take n bytes))"
    by (rule Suc_diff_le)
  have "drop (length (take n bytes)) (replicate (Suc n) NUL) =
      NUL # replicate (n - length (take n bytes)) NUL"
    unfolding drop_replicate n by simp
  then have b: "store_bytes (replicate (Suc n) NUL) (take n bytes) =
      take n bytes @ NUL # replicate (n - length (take n bytes)) NUL"
    by (simp only: store_bytes_def)
  have "takeWhile (\<lambda>c. c \<noteq> NUL) (take n bytes @ NUL # replicate (n - length (take n bytes)) NUL) =
      takeWhile (\<lambda>c. c \<noteq> NUL) (take n bytes)"
    by (auto simp: takeWhile_append intro!: takeWhile_eq_all_conv [THEN iffD2, symmetric])
  then show ?thesis unfolding b by (simp add: c_string_def)
qed

lemma c_string_cstr: "c_string buf = Inr s \<Longrightarrow> cstr s"
  by (auto simp: c_string_def cstr_def dest: set_takeWhileD split: if_splits)

lemma c_string_length: "c_string buf = Inr s \<Longrightarrow> length s < length buf"
proof -
  assume a: "c_string buf = Inr s"
  then have nul: "NUL \<in> set buf" and s: "s = takeWhile (\<lambda>c. c \<noteq> NUL) buf"
    by (auto simp: c_string_def split: if_splits)
  have "s \<noteq> buf"
    using a nul c_string_cstr by (auto simp: cstr_def)
  moreover have "length s \<le> length buf" unfolding s by (rule length_takeWhile_le)
  moreover have "s = take (length s) buf" unfolding s by (rule takeWhile_eq_take)
  ultimately show ?thesis by (metis le_neq_implies_less order_refl take_all)
qed

lemma cstr_append [simp]: "cstr (s @ t) \<longleftrightarrow> cstr s \<and> cstr t"
  by (auto simp: cstr_def)

lemma cstr_Nil [simp]: "cstr []"
  by (simp add: cstr_def)

lemma cstr_Cons [simp]: "cstr (c # s) \<longleftrightarrow> c \<noteq> NUL \<and> cstr s"
  by (auto simp: cstr_def)

section \<open>Searching\<close>

definition strchr :: "string \<Rightarrow> char \<Rightarrow> bool" where
  "strchr s c \<longleftrightarrow> c \<in> set s"

fun is_prefix_of :: "string \<Rightarrow> string \<Rightarrow> bool" where
  "is_prefix_of [] s = True"
| "is_prefix_of (c # cs) [] = False"
| "is_prefix_of (c # cs) (d # ds) = (c = d \<and> is_prefix_of cs ds)"

text \<open>\<^verbatim>\<open>strstr(s, needle) != NULL\<close>\<close>

fun strstr :: "string \<Rightarrow> string \<Rightarrow> bool" where
  "strstr [] needle = (needle = [])"
| "strstr (c # cs) needle = (is_prefix_of needle (c # cs) \<or> strstr cs needle)"

lemma is_prefix_of_append [simp]: "is_prefix_of p (p @ s)"
  by (induction p) auto

lemma is_prefix_of_set: "is_prefix_of p s \<Longrightarrow> set p \<subseteq> set s"
  by (induction p s rule: is_prefix_of.induct) auto

lemma strstr_set: "strstr s needle \<Longrightarrow> set needle \<subseteq> set s"
  by (induction s needle rule: strstr.induct) (use is_prefix_of_set in fastforce)+

section \<open>Tokens\<close>

text \<open>
  \<^verbatim>\<open>strtok\<close> with its hidden state passed explicitly: leading delimiters are skipped,
  the token runs to the next delimiter, and the state is what follows that
  delimiter (the empty string at the end).  No token is a null pointer.
\<close>

definition strtok :: "string \<Rightarrow> string \<Rightarrow> string option \<times> string" where
  "strtok delims s =
     (let s' = dropWhile (\<lambda>c. c \<in> set delims) s in
      if s' = [] then (None, [])
      else let tok = takeWhile (\<lambda>c. c \<notin> set delims) s'
           in (Some tok, drop (Suc (length tok)) s'))"

definition token :: "string \<Rightarrow> string \<Rightarrow> bool" where
  "token delims s \<longleftrightarrow> s \<noteq> [] \<and> set s \<inter> set delims = {}"

lemma token_Nil [simp]: "\<not> token ds []"
  by (simp add: token_def)

lemma takeWhile_token:
  "set s \<inter> set delims = {} \<Longrightarrow> takeWhile (\<lambda>c. c \<notin> set delims) s = s"
  by (induction s) auto

lemma takeWhile_token_delim:
  "set s \<inter> set delims = {} \<Longrightarrow> d \<in> set delims \<Longrightarrow>
   takeWhile (\<lambda>c. c \<notin> set delims) (s @ d # rest) = s"
  by (induction s) auto

lemma dropWhile_token:
  "token delims s \<Longrightarrow> dropWhile (\<lambda>c. c \<in> set delims) (s @ rest) = s @ rest"
  by (cases s) (auto simp: token_def)

lemma strtok_last [simp]: "token delims s \<Longrightarrow> strtok delims s = (Some s, [])"
  using dropWhile_token [of delims s "[]"]
  by (auto simp: strtok_def token_def takeWhile_token Let_def)

lemma strtok_next [simp]:
  "token delims s \<Longrightarrow> d \<in> set delims \<Longrightarrow> strtok delims (s @ d # rest) = (Some s, rest)"
  using dropWhile_token [of delims s "d # rest"]
  by (auto simp: strtok_def token_def takeWhile_token_delim Let_def)

lemma strtok_skip [simp]: "d \<in> set delims \<Longrightarrow> strtok delims (d # s) = strtok delims s"
  by (simp add: strtok_def)

lemma strtok_Nil [simp]: "strtok delims [] = (None, [])"
  by (simp add: strtok_def)

lemma strtok_None: "strtok delims s = (None, r) \<longleftrightarrow> set s \<subseteq> set delims \<and> r = []"
  by (auto simp: strtok_def Let_def dropWhile_eq_Nil_conv)

text \<open>A token and what is left never grow: used for the buffer bounds.\<close>

lemma strtok_length:
  "strtok delims s = (Some t, r) \<Longrightarrow> length t + length r \<le> length s"
proof -
  assume a: "strtok delims s = (Some t, r)"
  define s' where "s' = dropWhile (\<lambda>c. c \<in> set delims) s"
  from a have t: "t = takeWhile (\<lambda>c. c \<notin> set delims) s'" and r: "r = drop (Suc (length t)) s'"
    by (auto simp: strtok_def s'_def Let_def split: if_splits)
  have "length t \<le> length s'" unfolding t by (rule length_takeWhile_le)
  moreover have "length s' \<le> length s" unfolding s'_def by (rule length_dropWhile_le)
  ultimately show ?thesis by (simp add: r)
qed

lemma strtok_rest_length: "strtok delims s = (t, r) \<Longrightarrow> length r \<le> length s"
  using strtok_length [of delims s "the t" r] by (cases t) (auto simp: strtok_None)

lemma strtok_token: "strtok delims s = (Some t, r) \<Longrightarrow> token delims t"
proof -
  assume a: "strtok delims s = (Some t, r)"
  define s' where "s' = dropWhile (\<lambda>c. c \<in> set delims) s"
  from a have ne: "s' \<noteq> []" and t: "t = takeWhile (\<lambda>c. c \<notin> set delims) s'"
    by (auto simp: strtok_def s'_def Let_def split: if_splits)
  from ne have "hd s' \<notin> set delims" unfolding s'_def by (metis hd_dropWhile)
  with ne have "t \<noteq> []" by (cases s') (auto simp: t)
  moreover have "set t \<inter> set delims = {}" by (auto simp: t dest: set_takeWhileD)
  ultimately show ?thesis by (simp add: token_def)
qed

text \<open>
  A reference for repeated \<^verbatim>\<open>strtok\<close>: split at every delimiter and drop the empty
  fields.
\<close>

fun split_at :: "string \<Rightarrow> string \<Rightarrow> string list" where
  "split_at ds [] = [[]]"
| "split_at ds (c # cs) =
     (if c \<in> set ds then [] # split_at ds cs
      else (case split_at ds cs of [] \<Rightarrow> [[c]] | f # fs \<Rightarrow> (c # f) # fs))"

definition str_fields :: "string \<Rightarrow> string \<Rightarrow> string list" where
  "str_fields ds s = filter (\<lambda>f. f \<noteq> []) (split_at ds s)"

lemma split_at_ne [simp]: "split_at ds s \<noteq> []"
  by (induction s) (auto split: list.splits)

lemma split_at_prefix:
  "set t \<inter> set ds = {} \<Longrightarrow>
   split_at ds (t @ r) = (t @ hd (split_at ds r)) # tl (split_at ds r)"
  by (induction t) (auto split: list.splits)

lemma str_fields_Nil [simp]: "str_fields ds [] = []"
  by (simp add: str_fields_def)

lemma str_fields_skip [simp]: "d \<in> set ds \<Longrightarrow> str_fields ds (d # s) = str_fields ds s"
  by (simp add: str_fields_def)

lemma str_fields_token [simp]: "token ds t \<Longrightarrow> str_fields ds t = [t]"
  using split_at_prefix [of t ds "[]"] by (simp add: str_fields_def token_def)

lemma str_fields_token_delim [simp]:
  "token ds t \<Longrightarrow> d \<in> set ds \<Longrightarrow> str_fields ds (t @ d # r) = t # str_fields ds r"
  using split_at_prefix [of t ds "d # r"] by (simp add: str_fields_def token_def)

text \<open>One call of \<^verbatim>\<open>strtok\<close> takes the first field and leaves the others.\<close>

lemma str_fields_strtok:
  "str_fields ds s = (case strtok ds s of (None, r) \<Rightarrow> [] | (Some t, r) \<Rightarrow> t # str_fields ds r)"
proof (induction s)
  case (Cons c cs)
  show ?case
  proof (cases "c \<in> set ds")
    case True
    with Cons show ?thesis by simp
  next
    case False
    let ?t = "takeWhile (\<lambda>c. c \<notin> set ds) (c # cs)"
    let ?r = "dropWhile (\<lambda>c. c \<notin> set ds) (c # cs)"
    have tok: "token ds ?t" using False by (auto simp: token_def dest: set_takeWhileD)
    have s: "c # cs = ?t @ ?r" by (rule takeWhile_dropWhile_id [symmetric])
    show ?thesis
    proof (cases ?r)
      case Nil
      with s tok have "token ds (c # cs)" by simp
      then show ?thesis by simp
    next
      case (Cons d r)
      then have "d \<in> set ds" by (metis hd_dropWhile list.discI list.sel(1))
      with s tok Cons show ?thesis by simp
    qed
  qed
qed simp

text \<open>Hence \<open>n\<close> calls in a row yield the first \<open>n\<close> fields, then null pointers.\<close>

lemma strtok_fields_Nil: "str_fields ds s = [] \<Longrightarrow> strtok ds s = (None, [])"
  using str_fields_strtok [of ds s] strtok_None [of ds s "snd (strtok ds s)"]
  by (cases "strtok ds s") (auto split: option.splits)

lemma strtok_fields_Cons:
  "str_fields ds s = t # ts \<Longrightarrow> \<exists>r. strtok ds s = (Some t, r) \<and> str_fields ds r = ts"
  using str_fields_strtok [of ds s] by (auto split: option.splits prod.splits)

section \<open>Decimal numbers\<close>

definition is_digit :: "char \<Rightarrow> bool" where
  "is_digit c \<longleftrightarrow> 48 \<le> (of_char c :: nat) \<and> (of_char c :: nat) \<le> 57"

definition is_space :: "char \<Rightarrow> bool" where
  "is_space c \<longleftrightarrow> (of_char c :: nat) = 32 \<or> (9 \<le> (of_char c :: nat) \<and> (of_char c :: nat) \<le> 13)"

definition digit_char :: "nat \<Rightarrow> char" where
  "digit_char n = char_of (48 + n)"

definition digit_val :: "char \<Rightarrow> nat" where
  "digit_val c = of_char c - 48"

fun digits_val :: "nat \<Rightarrow> string \<Rightarrow> nat" where
  "digits_val acc [] = acc"
| "digits_val acc (c # cs) = digits_val (10 * acc + digit_val c) cs"

text \<open>
  \<^verbatim>\<open>atoi\<close>: white space, a sign, digits.  The value is the mathematical one; the C
  function is only defined where it fits an \<^verbatim>\<open>int\<close>.
\<close>

definition atoi :: "string \<Rightarrow> int" where
  "atoi s =
     (case dropWhile is_space s of
        [] \<Rightarrow> 0
      | c # r \<Rightarrow>
          if c = CHR ''-'' then - int (digits_val 0 (takeWhile is_digit r))
          else if c = CHR ''+'' then int (digits_val 0 (takeWhile is_digit r))
          else int (digits_val 0 (takeWhile is_digit (c # r))))"

fun dec_nat :: "nat \<Rightarrow> string" where
  "dec_nat n = (if n < 10 then [digit_char n] else dec_nat (n div 10) @ [digit_char (n mod 10)])"

declare dec_nat.simps [simp del]

text \<open>The text \<^verbatim>\<open>sprintf\<close> and \<^verbatim>\<open>printf\<close> write for \<^verbatim>\<open>%d\<close>.\<close>

definition dec_int :: "int \<Rightarrow> string" where
  "dec_int i = (if i < 0 then CHR ''-'' # dec_nat (nat (- i)) else dec_nat (nat i))"

lemma of_char_digit_char [simp]: "n < 10 \<Longrightarrow> (of_char (digit_char n) :: nat) = 48 + n"
  by (simp add: digit_char_def)

lemma is_digit_digit_char [simp]: "n < 10 \<Longrightarrow> is_digit (digit_char n)"
  by (simp add: is_digit_def)

lemma digit_val_digit_char [simp]: "n < 10 \<Longrightarrow> digit_val (digit_char n) = n"
  by (simp add: digit_val_def)

lemma digits_val_append: "digits_val acc (s @ t) = digits_val (digits_val acc s) t"
  by (induction s arbitrary: acc) auto

lemma dec_nat_digits: "c \<in> set (dec_nat n) \<Longrightarrow> is_digit c"
proof (induction n rule: dec_nat.induct)
  case (1 n)
  then show ?case by (subst (asm) (2) dec_nat.simps) (auto split: if_splits)
qed

lemma dec_nat_ne [simp]: "dec_nat n \<noteq> []"
  by (subst dec_nat.simps) simp

lemma digits_val_dec_nat [simp]: "digits_val 0 (dec_nat n) = n"
proof (induction n rule: dec_nat.induct)
  case (1 n)
  then show ?case by (subst dec_nat.simps) (auto simp: digits_val_append)
qed

lemma takeWhile_dec_nat: "\<not> is_digit d \<Longrightarrow> takeWhile is_digit (dec_nat n @ d # r) = dec_nat n"
  by (simp add: takeWhile_append dec_nat_digits)

lemma takeWhile_dec_nat' [simp]: "takeWhile is_digit (dec_nat n) = dec_nat n"
  by (simp add: takeWhile_eq_all_conv dec_nat_digits)

lemma is_digit_plain: "is_digit c \<Longrightarrow> c \<noteq> CHR ''-'' \<and> c \<noteq> CHR ''+'' \<and> \<not> is_space c"
  by (auto simp: is_digit_def is_space_def)

text \<open>Reading back a printed number gives the number.\<close>

lemma atoi_dec_nat: "atoi (dec_nat n) = int n"
proof -
  obtain c r where cr: "dec_nat n = c # r" by (cases "dec_nat n") auto
  then have "is_digit c" using dec_nat_digits [of c n] by simp
  then have "atoi (dec_nat n) = int (digits_val 0 (takeWhile is_digit (dec_nat n)))"
    using is_digit_plain [of c] by (simp add: atoi_def cr)
  then show ?thesis by simp
qed

lemma atoi_dec_int: "atoi (dec_int i) = i"
proof (cases "i < 0")
  case True
  have "\<not> is_space (CHR ''-'')" by (simp add: is_space_def)
  with True show ?thesis by (simp add: dec_int_def atoi_def)
next
  case False
  then show ?thesis by (simp add: dec_int_def atoi_dec_nat)
qed

text \<open>The length of a printed number, for the buffers it is printed into.\<close>

lemma length_dec_nat: "n < 10 ^ k \<Longrightarrow> 0 < k \<Longrightarrow> length (dec_nat n) \<le> k"
proof (induction n arbitrary: k rule: dec_nat.induct)
  case (1 n)
  show ?case
  proof (cases "n < 10")
    case True
    with "1.prems" show ?thesis by (subst dec_nat.simps) simp
  next
    case False
    with "1.prems" obtain j where k: "k = Suc j" "0 < j"
      by (cases k; cases "k - 1") auto
    have "n div 10 < 10 ^ j" using "1.prems" k by (simp add: div_less_iff_less_mult)
    with "1.IH" False k have "length (dec_nat (n div 10)) \<le> j" by simp
    with False k show ?thesis by (subst dec_nat.simps) simp
  qed
qed

lemma dec_int_nonneg: "0 \<le> i \<Longrightarrow> dec_int i = dec_nat (nat i)"
  by (simp add: dec_int_def)

lemma dec_int_port_length:
  assumes "0 \<le> p" "p < 100000"
  shows "length (dec_int p) \<le> 5"
  using length_dec_nat [of "nat p" 5] assms by (simp add: dec_int_nonneg nat_less_iff)

lemma dec_int_set: "c \<in> set (dec_int i) \<Longrightarrow> is_digit c \<or> c = CHR ''-''"
  by (auto simp: dec_int_def dec_nat_digits split: if_splits)

lemma dec_int_ne [simp]: "dec_int i \<noteq> []"
  by (simp add: dec_int_def)

lemma dec_int_cstr [simp]: "cstr (dec_int i)"
  by (auto simp: cstr_def is_digit_def dest: dec_int_set)

lemma dec_nonneg_token:
  assumes "0 \<le> i" and "\<And>c. c \<in> set ds \<Longrightarrow> \<not> is_digit c"
  shows "token ds (dec_int i)"
  using assms by (auto simp: token_def dec_int_nonneg dest: dec_nat_digits)

end
