(* ===== verification/Linked_Lists.thy ===== *)
theory Linked_Lists
  imports C_Prelude
begin

text \<open>
  The singly linked lists of the Darshana alert receiver, on an explicit heap.
  The two node types of the code (\<^verbatim>\<open>struct node\<close> for alerts, \<^verbatim>\<open>struct node_p\<close> for
  paths) have the same shape, so the heap and the shape predicate are shared; the
  operations on them are defined, as in the code, once for each type, and the
  interface \<open>c_list\<close> states what both promise.
\<close>

section \<open>The heap of nodes\<close>

type_synonym addr = nat

record 'a lnode =
  item :: 'a
  nxt :: "addr option"

record 'a store =
  cells :: "addr \<rightharpoonup> 'a lnode"
  fresh :: addr

definition empty_store :: "'a store" where
  "empty_store = \<lparr>cells = Map.empty, fresh = 0\<rparr>"

text \<open>\<^verbatim>\<open>malloc\<close> of a node that is then filled in: a new address, never one in use.\<close>

definition malloc_node :: "'a store \<Rightarrow> 'a lnode \<Rightarrow> 'a store \<times> addr" where
  "malloc_node st nd =
     (st\<lparr>cells := (cells st)(fresh st \<mapsto> nd), fresh := Suc (fresh st)\<rparr>, fresh st)"

definition load :: "'a store \<Rightarrow> addr \<Rightarrow> 'a lnode res" where
  "load st p = (case cells st p of None \<Rightarrow> Inl BadPointer | Some nd \<Rightarrow> Inr nd)"

definition write_node :: "'a store \<Rightarrow> addr \<Rightarrow> 'a lnode \<Rightarrow> 'a store" where
  "write_node st p nd = st\<lparr>cells := (cells st)(p \<mapsto> nd)\<rparr>"

definition wf_store :: "'a store \<Rightarrow> bool" where
  "wf_store st \<longleftrightarrow> (\<forall>p \<in> dom (cells st). p < fresh st)"

text \<open>
  \<^verbatim>\<open>for(x = head; x->next != NULL; x = x->next);\<close>
  The loop need not end on a cyclic heap: \<open>None\<close> is "does not return".
\<close>

partial_function (option) walk_last :: "'a store \<Rightarrow> addr \<Rightarrow> addr res option" where
  "walk_last st x =
     (case cells st x of
        None \<Rightarrow> Some (Inl BadPointer)
      | Some nd \<Rightarrow> (case nxt nd of None \<Rightarrow> Some (Inr x) | Some y \<Rightarrow> walk_last st y))"

text \<open>
  The search loops \<^verbatim>\<open>for(t = start; t != NULL; t = t->next) if (p(t->item)) return t;\<close>
\<close>

partial_function (option) walk_find ::
    "'a store \<Rightarrow> ('a \<Rightarrow> bool) \<Rightarrow> addr option \<Rightarrow> addr option res option" where
  "walk_find st p t =
     (case t of
        None \<Rightarrow> Some (Inr None)
      | Some x \<Rightarrow>
          (case cells st x of
             None \<Rightarrow> Some (Inl BadPointer)
           | Some nd \<Rightarrow> if p (item nd) then Some (Inr (Some x)) else walk_find st p (nxt nd)))"

section \<open>The list a pointer stands for\<close>

text \<open>
  \<open>llist st p axs\<close>: from \<open>p\<close> the heap holds exactly the nodes \<open>axs\<close>, as pairs of
  address and item, ending in a null pointer.
\<close>

primrec llist :: "'a store \<Rightarrow> addr option \<Rightarrow> (addr \<times> 'a) list \<Rightarrow> bool" where
  "llist st p [] \<longleftrightarrow> p = None"
| "llist st p (ax # axs) \<longleftrightarrow>
     p = Some (fst ax) \<and>
     (\<exists>q. cells st (fst ax) = Some \<lparr>item = snd ax, nxt = q\<rparr> \<and> llist st q axs)"

lemma llist_None [simp]: "llist st None axs \<longleftrightarrow> axs = []"
  by (cases axs) auto

lemma llist_Some:
  "llist st (Some a) axs \<longleftrightarrow>
   (\<exists>x q bs. axs = (a, x) # bs \<and> cells st a = Some \<lparr>item = x, nxt = q\<rparr> \<and> llist st q bs)"
  by (cases axs) auto

lemma llist_unique: "llist st p axs \<Longrightarrow> llist st p bxs \<Longrightarrow> axs = bxs"
  by (induction axs arbitrary: p bxs) (auto simp: llist_Some)

lemma llist_suffix:
  "llist st p (axs @ bxs) \<Longrightarrow> \<exists>q. llist st q bxs"
  by (induction axs arbitrary: p) auto

lemma llist_dom: "llist st p axs \<Longrightarrow> fst ` set axs \<subseteq> dom (cells st)"
  by (induction axs arbitrary: p) auto

lemma llist_tail_fresh:
  assumes "cells st a = Some \<lparr>item = x, nxt = q\<rparr>" "llist st q axs"
  shows "a \<notin> fst ` set axs"
proof
  assume "a \<in> fst ` set axs"
  then obtain us y vs where axs: "axs = us @ (a, y) # vs" by (auto dest: split_list)
  then obtain r where "llist st r ((a, y) # vs)" using assms(2) llist_suffix by blast
  then have "llist st q vs" using assms(1) by auto
  then show False using llist_unique [OF assms(2)] axs by fastforce
qed

lemma llist_distinct: "llist st p axs \<Longrightarrow> distinct (map fst axs)"
proof (induction axs arbitrary: p)
  case (Cons ax axs)
  then show ?case using llist_tail_fresh [of st "fst ax" "snd ax"] by fastforce
qed simp

text \<open>Writing outside of the list leaves it alone.\<close>

lemma llist_frame:
  "\<forall>a \<in> fst ` set axs. cells st' a = cells st a \<Longrightarrow> llist st' p axs = llist st p axs"
  by (induction axs arbitrary: p) auto

lemma llist_write_outside:
  "a \<notin> fst ` set axs \<Longrightarrow> llist (write_node st a nd) p axs = llist st p axs"
  by (rule llist_frame) (auto simp: write_node_def)

lemma llist_malloc:
  "wf_store st \<Longrightarrow> llist st p axs \<Longrightarrow> llist (fst (malloc_node st nd)) p axs"
proof -
  assume wf: "wf_store st" and l: "llist st p axs"
  have "fresh st \<notin> fst ` set axs" using llist_dom [OF l] wf by (auto simp: wf_store_def)
  then have "llist (fst (malloc_node st nd)) p axs = llist st p axs"
    by (intro llist_frame) (force simp: malloc_node_def)
  with l show ?thesis by simp
qed

text \<open>Rewriting one node's item in place, through a pointer to it.\<close>

lemma llist_update_item:
  assumes "llist st p (us @ (a, x) # vs)"
  obtains nd where "cells st a = Some nd" "item nd = x"
    "llist (write_node st a (nd\<lparr>item := y\<rparr>)) p (us @ (a, y) # vs)"
proof -
  obtain q where q: "llist st q ((a, x) # vs)" using assms llist_suffix by blast
  then obtain r where r: "cells st a = Some \<lparr>item = x, nxt = r\<rparr>" "llist st r vs" by auto
  let ?st = "write_node st a (\<lparr>item = x, nxt = r\<rparr>\<lparr>item := y\<rparr>)"
  have "a \<notin> fst ` set vs" using r by (rule llist_tail_fresh)
  then have tail: "llist ?st r vs" using r(2) by (simp add: llist_write_outside)
  have "a \<notin> fst ` set us" using llist_distinct [OF assms] by auto
  then have "llist ?st p (us @ (a, y) # vs)" using assms
  proof (induction us arbitrary: p)
    case Nil
    with tail r show ?case by (auto simp: write_node_def)
  next
    case (Cons u us)
    then show ?case by (auto simp: write_node_def)
  qed
  then show ?thesis using that r by fastforce
qed

lemma wf_store_empty [simp]: "wf_store empty_store"
  by (simp add: wf_store_def empty_store_def)

lemma wf_store_malloc [simp]: "wf_store st \<Longrightarrow> wf_store (fst (malloc_node st nd))"
  by (auto simp: wf_store_def malloc_node_def less_Suc_eq)

lemma wf_store_write [simp]:
  "wf_store st \<Longrightarrow> a \<in> dom (cells st) \<Longrightarrow> wf_store (write_node st a nd)"
  by (auto simp: wf_store_def write_node_def)

section \<open>The loops on a proper list return\<close>

lemma walk_last_llist:
  "llist st (Some p) (axs @ [(a, x)]) \<Longrightarrow> walk_last st p = Some (Inr a)"
proof (induction axs arbitrary: p)
  case Nil
  then show ?case by (auto simp: walk_last.simps)
next
  case (Cons ax axs)
  then obtain q where c: "cells st p = Some \<lparr>item = snd ax, nxt = q\<rparr>"
    and q: "llist st q (axs @ [(a, x)])" by auto
  then obtain p' where "q = Some p'" by (cases q) auto
  with Cons.IH q c show ?case by (subst walk_last.simps) auto
qed

lemma walk_find_llist:
  "llist st t axs \<Longrightarrow>
   walk_find st p t = Some (Inr (map_option fst (find (\<lambda>ax. p (snd ax)) axs)))"
proof (induction axs arbitrary: t)
  case Nil
  then show ?case by (simp add: walk_find.simps)
next
  case (Cons ax axs)
  then show ?case by (subst walk_find.simps) auto
qed

text \<open>
  What linking a freshly allocated node behind the last one does: the shared core of
  both versions of \<^verbatim>\<open>insert_end\<close>.
\<close>

lemma llist_link_last:
  assumes wf: "wf_store st" and l: "llist st (Some p) (axs @ [(a, x)])"
    and m: "malloc_node st \<lparr>item = y, nxt = None\<rparr> = (st', b)"
    and nd: "cells st' a = Some nd"
  shows "llist (write_node st' a (nd\<lparr>nxt := Some b\<rparr>)) (Some p) (axs @ [(a, x), (b, y)])"
proof -
  have st': "st' = fst (malloc_node st \<lparr>item = y, nxt = None\<rparr>)" and b: "b = fresh st"
    using m by (auto simp: malloc_node_def)
  have l': "llist st' (Some p) (axs @ [(a, x)])" using llist_malloc [OF wf l] by (simp add: st')
  have "a \<in> dom (cells st)" using llist_dom [OF l] by auto
  then have ab: "a \<noteq> b" using wf by (auto simp: wf_store_def b)
  have cb: "cells st' b = Some \<lparr>item = y, nxt = None\<rparr>" by (simp add: st' b malloc_node_def)
  have "b \<notin> fst ` set axs"
    using llist_dom [OF l] wf by (auto simp: wf_store_def b)
  moreover have "a \<notin> fst ` set axs" using llist_distinct [OF l'] by auto
  ultimately show ?thesis using l' nd
  proof (induction axs arbitrary: p)
    case Nil
    with ab cb show ?case by (auto simp: write_node_def)
  next
    case (Cons ax axs)
    from Cons.prems obtain q where c: "cells st' p = Some \<lparr>item = snd ax, nxt = q\<rparr>"
      and q: "llist st' q (axs @ [(a, x)])" and p: "p = fst ax" by auto
    then obtain p' where "q = Some p'" by (cases q) auto
    with Cons c q p show ?case by (auto simp: write_node_def)
  qed
qed

section \<open>Updating the node that a search finds\<close>

fun update_first :: "('a \<Rightarrow> bool) \<Rightarrow> ('a \<Rightarrow> 'a) \<Rightarrow> 'a list \<Rightarrow> 'a list" where
  "update_first P f [] = []"
| "update_first P f (x # xs) = (if P x then f x # xs else x # update_first P f xs)"

lemma update_first_none [simp]: "\<forall>x \<in> set xs. \<not> P x \<Longrightarrow> update_first P f xs = xs"
  by (induction xs) auto

lemma update_first_split:
  "\<forall>x \<in> set us. \<not> P x \<Longrightarrow> P y \<Longrightarrow> update_first P f (us @ y # vs) = us @ f y # vs"
  by (induction us) auto

lemma length_update_first [simp]: "length (update_first P f xs) = length xs"
  by (induction xs) auto

lemma find_snd_Some:
  assumes "find (\<lambda>ax. P (snd ax)) axs = Some (a, x)"
  obtains us vs where "axs = us @ (a, x) # vs" "P x" "\<forall>y \<in> snd ` set us. \<not> P y"
  using assms
proof (induction axs arbitrary: thesis)
  case (Cons ax axs)
  show ?case
  proof (cases "P (snd ax)")
    case True
    then show ?thesis using Cons.prems(1) [of "[]" axs] Cons.prems(2) by simp
  next
    case False
    with Cons.prems(2) have f: "find (\<lambda>ax. P (snd ax)) axs = Some (a, x)" by simp
    show ?thesis
    proof (rule Cons.IH [OF _ f])
      fix us vs assume "axs = us @ (a, x) # vs" "P x" "\<forall>y \<in> snd ` set us. \<not> P y"
      then show thesis using Cons.prems(1) [of "ax # us" vs] False by simp
    qed
  qed
qed simp

text \<open>Rewriting the node that a search found is \<open>update_first\<close> on the list.\<close>

lemma llist_update_found:
  assumes wf: "wf_store st" and l: "llist st p axs" and f: "walk_find st P p = Some (Inr (Some x))"
  obtains nd bxs where "cells st x = Some nd" "P (item nd)" "item nd \<in> snd ` set axs"
    "wf_store (write_node st x (nd\<lparr>item := g (item nd)\<rparr>))"
    "llist (write_node st x (nd\<lparr>item := g (item nd)\<rparr>)) p bxs"
    "map snd bxs = update_first P g (map snd axs)"
proof -
  from f walk_find_llist [OF l, of P] obtain y where "find (\<lambda>ax. P (snd ax)) axs = Some (x, y)" by auto
  then obtain us vs where axs: "axs = us @ (x, y) # vs" and y: "P y" "\<forall>z \<in> snd ` set us. \<not> P z"
    by (rule find_snd_Some)
  from l axs obtain nd where nd: "cells st x = Some nd" "item nd = y"
    and l': "llist (write_node st x (nd\<lparr>item := g y\<rparr>)) p (us @ (x, g y) # vs)"
    by (metis llist_update_item)
  show thesis
  proof (rule that [OF nd(1)])
    show "llist (write_node st x (nd\<lparr>item := g (item nd)\<rparr>)) p (us @ (x, g y) # vs)" using l' nd(2) by simp
    show "wf_store (write_node st x (nd\<lparr>item := g (item nd)\<rparr>))" using wf nd(1) by (intro wf_store_write) auto
    show "map snd (us @ (x, g y) # vs) = update_first P g (map snd axs)" using axs y by (auto simp: update_first_split)
  qed (use nd y axs in auto)
qed

section \<open>The interface of a list module\<close>

text \<open>
  What the receiver relies on for both list types: a new node is a list of one, and
  \<open>insert_end\<close> returns on every proper list with the item appended.
\<close>

locale c_list =
  fixes new_node :: "'a store \<Rightarrow> 'a \<Rightarrow> 'a store \<times> addr"
    and insert_begin :: "'a store \<Rightarrow> addr option \<Rightarrow> 'a \<Rightarrow> 'a store \<times> addr option"
    and insert_end :: "'a store \<Rightarrow> addr option \<Rightarrow> 'a \<Rightarrow> ('a store \<times> addr option) res option"
  assumes new_node_single:
      "wf_store st \<Longrightarrow>
       \<exists>st' b. new_node st x = (st', b) \<and> wf_store st' \<and> llist st' (Some b) [(b, x)]"
    and insert_begin_prepends:
      "wf_store st \<Longrightarrow> llist st p axs \<Longrightarrow>
       \<exists>st' b. insert_begin st p x = (st', Some b) \<and> wf_store st' \<and> llist st' (Some b) ((b, x) # axs)"
    and insert_end_appends:
      "wf_store st \<Longrightarrow> llist st p axs \<Longrightarrow>
       \<exists>st' p' b. insert_end st p x = Some (Inr (st', p')) \<and> wf_store st' \<and>
                  llist st' p' (axs @ [(b, x)])"
begin

text \<open>Inserting a sequence of items, one after the other.\<close>

fun insert_all :: "'a store \<Rightarrow> addr option \<Rightarrow> 'a list \<Rightarrow> ('a store \<times> addr option) res option" where
  "insert_all st p [] = Some (Inr (st, p))"
| "insert_all st p (x # xs) =
     cbind (insert_end st p x) (\<lambda>(st', p'). insert_all st' p' xs)"

lemma insert_all_appends:
  "wf_store st \<Longrightarrow> llist st p axs \<Longrightarrow>
   \<exists>st' p' bxs. insert_all st p xs = Some (Inr (st', p')) \<and> wf_store st' \<and>
                llist st' p' (axs @ bxs) \<and> map snd bxs = xs"
proof (induction xs arbitrary: st p axs)
  case Nil
  then show ?case by (intro exI [of _ st] exI [of _ p] exI [of _ "[]"]) simp
next
  case (Cons x xs)
  from insert_end_appends [OF Cons.prems, of x] obtain st1 p1 b where
    i: "insert_end st p x = Some (Inr (st1, p1))" and w: "wf_store st1"
    and l: "llist st1 p1 (axs @ [(b, x)])" by blast
  from Cons.IH [OF w l] obtain st2 p2 bxs where
    "insert_all st1 p1 xs = Some (Inr (st2, p2))" "wf_store st2"
    "llist st2 p2 (axs @ (b, x) # bxs)" "map snd bxs = xs" by auto
  with i show ?case by (intro exI [of _ st2] exI [of _ p2] exI [of _ "(b, x) # bxs"]) simp
qed

lemma insert_all_fifo:
  "\<exists>st' p' bxs. insert_all empty_store None xs = Some (Inr (st', p')) \<and>
                llist st' p' bxs \<and> map snd bxs = xs"
  using insert_all_appends [of empty_store None "[]" xs] by auto

end

text \<open>
  Operations written the way both C versions are written satisfy the interface.
\<close>

lemma insert_begin_llist:
  assumes wf: "wf_store st" and l: "llist st p axs"
    and m: "malloc_node st \<lparr>item = x, nxt = None\<rparr> = (st1, b)"
  shows "wf_store (write_node st1 b \<lparr>item = x, nxt = p\<rparr>)"
    and "llist (write_node st1 b \<lparr>item = x, nxt = p\<rparr>) (Some b) ((b, x) # axs)"
proof -
  have st1: "st1 = fst (malloc_node st \<lparr>item = x, nxt = None\<rparr>)" and b: "b = fresh st"
    using m by (auto simp: malloc_node_def)
  show "wf_store (write_node st1 b \<lparr>item = x, nxt = p\<rparr>)"
    by (rule wf_store_write) (use wf in \<open>auto simp: st1 b malloc_node_def wf_store_def less_Suc_eq\<close>)
  have "b \<notin> fst ` set axs" using llist_dom [OF l] wf by (auto simp: wf_store_def b)
  moreover have "llist st1 p axs" unfolding st1 by (rule llist_malloc [OF wf l])
  ultimately show "llist (write_node st1 b \<lparr>item = x, nxt = p\<rparr>) (Some b) ((b, x) # axs)"
    by (simp add: llist_write_outside) (simp add: write_node_def)
qed

lemma insert_end_llist:
  assumes wf: "wf_store st" and l: "llist st (Some h) (bs @ [(a, y)])"
    and m: "malloc_node st \<lparr>item = x, nxt = None\<rparr> = (st1, b)"
  obtains nd where "load st1 a = Inr nd" "wf_store (write_node st1 a (nd\<lparr>nxt := Some b\<rparr>))"
    "llist (write_node st1 a (nd\<lparr>nxt := Some b\<rparr>)) (Some h) (bs @ [(a, y), (b, x)])"
proof -
  have st1: "st1 = fst (malloc_node st \<lparr>item = x, nxt = None\<rparr>)" by (simp add: m)
  have "a \<in> dom (cells st1)" using llist_dom [OF llist_malloc [OF wf l]] by (auto simp: st1)
  then obtain nd where nd: "cells st1 a = Some nd" by auto
  have "wf_store (write_node st1 a (nd\<lparr>nxt := Some b\<rparr>))"
    by (rule wf_store_write) (use wf nd in \<open>auto simp: st1\<close>)
  with that llist_link_last [OF wf l m nd] nd show ?thesis by (simp add: load_def)
qed

lemma c_listI:
  fixes new_node :: "'a store \<Rightarrow> 'a \<Rightarrow> 'a store \<times> addr"
  assumes nn: "\<And>st x. new_node st x = malloc_node st \<lparr>item = x, nxt = None\<rparr>"
    and ib: "\<And>st head x. insert_begin st head x =
      (let (st', p) = new_node st x in (write_node st' p \<lparr>item = x, nxt = head\<rparr>, Some p))"
    and ie: "\<And>st head x. insert_end st head x =
      (case head of
         None \<Rightarrow> (let (st', p) = new_node st x in Some (Inr (st', Some p)))
       | Some h \<Rightarrow> cbind (walk_last st h) (\<lambda>p.
           let (st', y) = new_node st x in
           cbind (Some (load st' p)) (\<lambda>nd.
             Some (Inr (write_node st' p (nd\<lparr>nxt := Some y\<rparr>), head)))))"
  shows "c_list new_node insert_begin insert_end"
proof
  fix st :: "'a store" and x
  assume "wf_store st"
  then show "\<exists>st' b. new_node st x = (st', b) \<and> wf_store st' \<and> llist st' (Some b) [(b, x)]"
    by (auto simp: nn malloc_node_def wf_store_def less_Suc_eq)
next
  fix st :: "'a store" and p axs x
  assume "wf_store st" "llist st p axs"
  moreover obtain st1 b where "malloc_node st \<lparr>item = x, nxt = None\<rparr> = (st1, b)" by fastforce
  ultimately show "\<exists>st' b. insert_begin st p x = (st', Some b) \<and> wf_store st' \<and>
                      llist st' (Some b) ((b, x) # axs)"
    using insert_begin_llist [of st p axs x st1 b] by (simp add: ib nn)
next
  fix st :: "'a store" and p axs x
  assume wf: "wf_store st" and l: "llist st p axs"
  obtain st1 b where m: "malloc_node st \<lparr>item = x, nxt = None\<rparr> = (st1, b)" by fastforce
  show "\<exists>st' p' b. insert_end st p x = Some (Inr (st', p')) \<and> wf_store st' \<and>
                   llist st' p' (axs @ [(b, x)])"
  proof (cases axs rule: rev_cases)
    case Nil
    with wf l show ?thesis
      by (auto simp: ie nn malloc_node_def wf_store_def less_Suc_eq)
  next
    case (snoc bs ay)
    obtain a y where ay: "ay = (a, y)" by (cases ay)
    obtain h where p: "p = Some h" using l snoc by (cases p) auto
    have l': "llist st (Some h) (bs @ [(a, y)])" using l snoc p ay by simp
    from insert_end_llist [OF wf l' m] obtain nd where
      "load st1 a = Inr nd" "wf_store (write_node st1 a (nd\<lparr>nxt := Some b\<rparr>))"
      "llist (write_node st1 a (nd\<lparr>nxt := Some b\<rparr>)) (Some h) (bs @ [(a, y), (b, x)])" .
    with walk_last_llist [OF l'] m p snoc ay show ?thesis by (auto simp: ie nn)
  qed
qed

end
