(* ===== verification/Hijack_Alerts.thy ===== *)
theory Hijack_Alerts
  imports C_Strings Linked_Lists
begin

text \<open>
  \<^verbatim>\<open>MACHETE/SCMultipath/dar/hijack_alert_handler.c\<close> and \<^verbatim>\<open>dar/utils.c\<close>: the alerts
  that Darshana sends, their text format, and the history list they are kept in.
\<close>

section \<open>Time\<close>

text \<open>\<^verbatim>\<open>struct tm\<close>; a pointer to one is a \<open>tm option\<close>.\<close>

record tm =
  tm_sec :: int
  tm_min :: int
  tm_hour :: int
  tm_mday :: int
  tm_mon :: int
  tm_year :: int
  tm_wday :: int
  tm_yday :: int
  tm_isdst :: int

definition duplicate_time_structure :: "tm option \<Rightarrow> tm option res" where
  "duplicate_time_structure tm_info_to_copy =
     rbind (nonnull tm_info_to_copy) (\<lambda>t.
       Inr (Some \<lparr>tm_sec = tm_sec t, tm_min = tm_min t, tm_hour = tm_hour t,
                  tm_mday = tm_mday t, tm_mon = tm_mon t, tm_year = tm_year t,
                  tm_wday = tm_wday t, tm_yday = tm_yday t, tm_isdst = tm_isdst t\<rparr>))"

lemma duplicate_time_structure_simps [simp]:
  "duplicate_time_structure None = Inl NullDeref"
  "duplicate_time_structure (Some t) = Inr (Some t)"
  by (simp_all add: duplicate_time_structure_def)

text \<open>The clock is the environment's: \<open>now\<close> is what \<^verbatim>\<open>localtime\<close> returns.\<close>

definition get_current_time :: "tm \<Rightarrow> tm option res" where
  "get_current_time now = duplicate_time_structure (Some now)"

definition pad2 :: "int \<Rightarrow> string" where
  "pad2 n = (if 0 \<le> n \<and> n < 10 then CHR ''0'' # dec_int n else dec_int n)"

text \<open>\<^verbatim>\<open>strftime\<close> with the format \<^verbatim>\<open>%Y-%m-%d %H:%M:%S\<close>.\<close>

definition get_time_custom_string :: "tm option \<Rightarrow> string res" where
  "get_time_custom_string tm_info =
     rbind (nonnull tm_info) (\<lambda>t.
       Inr (dec_int (tm_year t + 1900) @ ''-'' @ pad2 (tm_mon t + 1) @ ''-'' @ pad2 (tm_mday t) @
            '' '' @ pad2 (tm_hour t) @ '':'' @ pad2 (tm_min t) @ '':'' @ pad2 (tm_sec t)))"

text \<open>\<^verbatim>\<open>get_current_time_string\<close> formats what \<^verbatim>\<open>localtime\<close> returns, without a copy of it.\<close>

definition get_current_time_string :: "tm \<Rightarrow> string res" where
  "get_current_time_string now = get_time_custom_string (Some now)"

lemma current_time_strings: "rbind (get_current_time now) get_time_custom_string = get_current_time_string now"
  by (simp add: get_current_time_def get_current_time_string_def)

text \<open>\<^verbatim>\<open>duplicate_string\<close>: the copy has the same text; \<^verbatim>\<open>strlen(NULL)\<close> faults.\<close>

definition duplicate_string :: "string option \<Rightarrow> string res" where
  "duplicate_string s = nonnull s"

section \<open>Alerts\<close>

text \<open>
  \<^verbatim>\<open>struct hijack_alert\<close> (its member \<^verbatim>\<open>timestamp\<close> is never written or read).
\<close>

record hijack_alert =
  time_info :: "tm option"
  alert_type :: string
  source_ip :: string
  destination_ip :: string
  metric_name :: string

definition new_hijack_alert :: "tm \<Rightarrow> string \<Rightarrow> string \<Rightarrow> string \<Rightarrow> string \<Rightarrow> hijack_alert res" where
  "new_hijack_alert now alert_type0 source_ip0 destination_ip0 metric_name0 =
     rbind (get_current_time now) (\<lambda>t.
       Inr \<lparr>time_info = t, alert_type = alert_type0, source_ip = source_ip0,
            destination_ip = destination_ip0, metric_name = metric_name0\<rparr>)"

definition parse_hijack_alert :: "tm \<Rightarrow> string \<Rightarrow> hijack_alert res" where
  "parse_hijack_alert now data_received =
     (let (tmpc1, st1) = strtok '','' data_received in
      rbind (duplicate_string tmpc1) (\<lambda>alert_type0.
      let (tmpc2, st2) = strtok '','' st1 in
      rbind (duplicate_string tmpc2) (\<lambda>source_ip0.
      let (tmpc3, st3) = strtok '','' st2 in
      rbind (duplicate_string tmpc3) (\<lambda>destination_ip0.
      let (tmpc4, st4) = strtok '','' st3 in
      rbind (duplicate_string tmpc4) (\<lambda>metric_name0.
      new_hijack_alert now alert_type0 source_ip0 destination_ip0 metric_name0)))))"

text \<open>
  The sending side, \<^verbatim>\<open>AlertsBroadcaster.getAlertFormatted\<close> of Darshana.
\<close>

definition getAlertFormatted :: "string \<Rightarrow> string \<Rightarrow> string \<Rightarrow> string \<Rightarrow> string" where
  "getAlertFormatted alert sourceIp destinationIp metric =
     alert @ '','' @ sourceIp @ '','' @ destinationIp @ '','' @ metric"

lemma new_hijack_alert_eq [simp]:
  "new_hijack_alert now a s d m =
     Inr \<lparr>time_info = Some now, alert_type = a, source_ip = s, destination_ip = d, metric_name = m\<rparr>"
  by (simp add: new_hijack_alert_def get_current_time_def)

text \<open>
  The parser against the reference \<open>str_fields\<close>: it takes the first four non-empty
  fields and ignores the rest; with fewer than four it dereferences a null pointer.
\<close>

lemma parse_hijack_alert_fields:
  "parse_hijack_alert now s =
     (case str_fields '','' s of
        a # b # c # d # _ \<Rightarrow>
          Inr \<lparr>time_info = Some now, alert_type = a, source_ip = b,
               destination_ip = c, metric_name = d\<rparr>
      | _ \<Rightarrow> Inl NullDeref)"
  unfolding parse_hijack_alert_def
  by (auto simp: Let_def duplicate_string_def dest!: strtok_fields_Nil strtok_fields_Cons
           split: list.splits)

lemma str_fields_alert_formatted:
  assumes "token '','' a" "token '','' s" "token '','' d" "token '','' m"
  shows "str_fields '','' (getAlertFormatted a s d m) = [a, s, d, m]"
  using assms by (simp add: getAlertFormatted_def)

section \<open>The history list\<close>

text \<open>The module's global \<^verbatim>\<open>alerts_history_head\<close> and the heap its nodes live in.\<close>

record alerts_module =
  alerts_mem :: "hijack_alert store"
  alerts_history_head :: "addr option"

definition new_node_h :: "hijack_alert store \<Rightarrow> hijack_alert \<Rightarrow> hijack_alert store \<times> addr" where
  "new_node_h st alert = malloc_node st \<lparr>item = alert, nxt = None\<rparr>"

definition insert_begin_h ::
    "hijack_alert store \<Rightarrow> addr option \<Rightarrow> hijack_alert \<Rightarrow> hijack_alert store \<times> addr option" where
  "insert_begin_h st head alert =
     (let (st', x) = new_node_h st alert in
      (write_node st' x \<lparr>item = alert, nxt = head\<rparr>, Some x))"

definition insert_end_h ::
    "hijack_alert store \<Rightarrow> addr option \<Rightarrow> hijack_alert \<Rightarrow>
     (hijack_alert store \<times> addr option) res option" where
  "insert_end_h st head alert =
     (case head of
        None \<Rightarrow> (let (st', x) = new_node_h st alert in Some (Inr (st', Some x)))
      | Some h \<Rightarrow>
          cbind (walk_last st h) (\<lambda>x.
            let (st', y) = new_node_h st alert in
            cbind (Some (load st' x)) (\<lambda>nd.
              Some (Inr (write_node st' x (nd\<lparr>nxt := Some y\<rparr>), head)))))"

definition init_alerts_history_head :: "alerts_module \<Rightarrow> alerts_module" where
  "init_alerts_history_head m = m\<lparr>alerts_history_head := None\<rparr>"

definition save_hijack_alert :: "alerts_module \<Rightarrow> hijack_alert \<Rightarrow> alerts_module res option" where
  "save_hijack_alert m alert_parsed =
     cbind (insert_end_h (alerts_mem m) (alerts_history_head m) alert_parsed) (\<lambda>(st, head).
       Some (Inr (m\<lparr>alerts_mem := st, alerts_history_head := head\<rparr>)))"

interpretation alerts: c_list new_node_h insert_begin_h insert_end_h
  by (rule c_listI) (simp_all add: new_node_h_def insert_begin_h_def insert_end_h_def)

text \<open>What the module's state stands for: the alerts from oldest to newest.\<close>

definition alert_history :: "alerts_module \<Rightarrow> hijack_alert list \<Rightarrow> bool" where
  "alert_history m as \<longleftrightarrow>
     wf_store (alerts_mem m) \<and>
     (\<exists>axs. llist (alerts_mem m) (alerts_history_head m) axs \<and> map snd axs = as)"

lemma alert_history_init:
  "wf_store (alerts_mem m) \<Longrightarrow> alert_history (init_alerts_history_head m) []"
  by (simp add: alert_history_def init_alerts_history_head_def)

lemma alert_history_unique: "alert_history m as \<Longrightarrow> alert_history m bs \<Longrightarrow> as = bs"
  by (auto simp: alert_history_def dest: llist_unique)

lemma save_hijack_alert_appends:
  assumes "alert_history m as"
  shows "\<exists>m'. save_hijack_alert m a = Some (Inr m') \<and> alert_history m' (as @ [a])"
proof -
  from assms obtain axs where wf: "wf_store (alerts_mem m)"
    and l: "llist (alerts_mem m) (alerts_history_head m) axs" and as: "map snd axs = as"
    by (auto simp: alert_history_def)
  from alerts.insert_end_appends [OF wf l, of a] obtain st p b where
    i: "insert_end_h (alerts_mem m) (alerts_history_head m) a = Some (Inr (st, p))"
    and "wf_store st" "llist st p (axs @ [(b, a)])" by blast
  then have "alert_history (m\<lparr>alerts_mem := st, alerts_history_head := p\<rparr>) (as @ [a])"
    using as by (auto simp: alert_history_def intro!: exI [of _ "axs @ [(b, a)]"])
  with i show ?thesis by (simp add: save_hijack_alert_def)
qed

section \<open>Printing\<close>

text \<open>What the \<^verbatim>\<open>show_\<close> functions write to standard output.\<close>

definition show_hijack_alert_structured :: "hijack_alert \<Rightarrow> string res" where
  "show_hijack_alert_structured alert =
     rbind (get_time_custom_string (time_info alert)) (\<lambda>t.
       Inr (''Action: '' @ alert_type alert @ [CHR 0x0A] @
            ''TimeStamp: '' @ t @ [CHR 0x0A] @
            ''Source IP: '' @ source_ip alert @ [CHR 0x0A] @
            ''Destination IP: '' @ destination_ip alert @ [CHR 0x0A] @
            ''Metric Name: '' @ metric_name alert @ [CHR 0x0A]))"

definition show_hijack_alert_simple :: "hijack_alert \<Rightarrow> string res" where
  "show_hijack_alert_simple alert =
     rbind (get_time_custom_string (time_info alert)) (\<lambda>t.
       Inr (t @ '','' @ alert_type alert @ '','' @ source_ip alert @ '','' @
            destination_ip alert @ '','' @ metric_name alert @ [CHR 0x0A]))"

partial_function (option) show_all_nodes_h ::
    "hijack_alert store \<Rightarrow> addr option \<Rightarrow> string \<Rightarrow> string res option" where
  "show_all_nodes_h st node out =
     (case node of
        None \<Rightarrow> Some (Inr out)
      | Some x \<Rightarrow>
          (case cells st x of
             None \<Rightarrow> Some (Inl BadPointer)
           | Some nd \<Rightarrow>
               (case show_hijack_alert_simple (item nd) of
                  Inl e \<Rightarrow> Some (Inl e)
                | Inr line \<Rightarrow> show_all_nodes_h st (nxt nd) (out @ line))))"

definition show_all_hijack_alerts :: "alerts_module \<Rightarrow> string res option" where
  "show_all_hijack_alerts m = show_all_nodes_h (alerts_mem m) (alerts_history_head m) []"

lemma show_all_nodes_h_llist:
  "llist st p axs \<Longrightarrow> \<forall>a \<in> snd ` set axs. time_info a \<noteq> None \<Longrightarrow>
   show_all_nodes_h st p out =
     Some (Inr (out @ concat (map (\<lambda>ax. projr (show_hijack_alert_simple (snd ax))) axs)))"
proof (induction axs arbitrary: p out)
  case Nil
  then show ?case by (simp add: show_all_nodes_h.simps)
next
  case (Cons ax axs)
  then obtain t where "time_info (snd ax) = Some t" by auto
  then have "\<exists>line. show_hijack_alert_simple (snd ax) = Inr line"
    by (simp add: show_hijack_alert_simple_def get_time_custom_string_def)
  with Cons show ?case by (subst show_all_nodes_h.simps) auto
qed

end
