(* ===== verification/Monitored_Paths.thy ===== *)
theory Monitored_Paths
  imports Hijack_Alerts
begin

text \<open>
  \<^verbatim>\<open>MACHETE/SCMultipath/dar/monitored_paths_handler.c\<close>: the list of paths
  (source, relay, destination) that the sender monitors and the marking of a path as
  hijacked when an alert names its relay.
\<close>

section \<open>Paths\<close>

record path_status =
  previous_time_info :: "tm option"
  last_time_info :: "tm option"
  path_source_ip :: string
  relay_ip :: string
  path_destination_ip :: string
  was_hijacked :: int

definition new_path_status :: "string \<Rightarrow> string \<Rightarrow> string \<Rightarrow> path_status" where
  "new_path_status source_ip0 relay_ip0 destination_ip0 =
     \<lparr>previous_time_info = None, last_time_info = None, path_source_ip = source_ip0,
      relay_ip = relay_ip0, path_destination_ip = destination_ip0, was_hijacked = 0\<rparr>"

record paths_module =
  paths_mem :: "path_status store"
  monitored_paths_list_head :: "addr option"

section \<open>The linked list\<close>

definition new_node_p :: "path_status store \<Rightarrow> path_status \<Rightarrow> path_status store \<times> addr" where
  "new_node_p st path_status_structure = malloc_node st \<lparr>item = path_status_structure, nxt = None\<rparr>"

definition insert_begin_p ::
    "path_status store \<Rightarrow> addr option \<Rightarrow> path_status \<Rightarrow> path_status store \<times> addr option" where
  "insert_begin_p st head path_status_structure =
     (let (st', x) = new_node_p st path_status_structure in
      (write_node st' x \<lparr>item = path_status_structure, nxt = head\<rparr>, Some x))"

definition insert_end_p ::
    "path_status store \<Rightarrow> addr option \<Rightarrow> path_status \<Rightarrow>
     (path_status store \<times> addr option) res option" where
  "insert_end_p st head path_status_structure =
     (case head of
        None \<Rightarrow> (let (st', x) = new_node_p st path_status_structure in Some (Inr (st', Some x)))
      | Some h \<Rightarrow>
          cbind (walk_last st h) (\<lambda>x.
            let (st', y) = new_node_p st path_status_structure in
            cbind (Some (load st' x)) (\<lambda>nd.
              Some (Inr (write_node st' x (nd\<lparr>nxt := Some y\<rparr>), head)))))"

interpretation paths: c_list new_node_p insert_begin_p insert_end_p
  by (rule c_listI) (simp_all add: new_node_p_def insert_begin_p_def insert_end_p_def)

definition init_monitored_paths_head :: "paths_module \<Rightarrow> paths_module" where
  "init_monitored_paths_head m = m\<lparr>monitored_paths_list_head := None\<rparr>"

definition save_path_status :: "paths_module \<Rightarrow> path_status \<Rightarrow> paths_module res option" where
  "save_path_status m path_status_struct =
     cbind (insert_end_p (paths_mem m) (monitored_paths_list_head m) path_status_struct)
       (\<lambda>(st, head). Some (Inr (m\<lparr>paths_mem := st, monitored_paths_list_head := head\<rparr>)))"

section \<open>Printing\<close>

definition show_path_status_simple :: "path_status \<Rightarrow> string res" where
  "show_path_status_simple path =
     rbind (get_time_custom_string (last_time_info path)) (\<lambda>t.
       Inr (''['' @ t @ ''] '' @ path_source_ip path @ '' -> '' @ relay_ip path @ '' -> '' @
            path_destination_ip path @ [CHR 0x0A]))"

definition show_time_or_dashes :: "tm option \<Rightarrow> string res" where
  "show_time_or_dashes ti =
     (if ti = None then Inr (''-----------'' @ [CHR 0x0A])
      else rbind (get_time_custom_string ti) (\<lambda>t. Inr (t @ [CHR 0x0A])))"

definition show_path_status_structured :: "path_status \<Rightarrow> string res" where
  "show_path_status_structured path =
     rbind (show_time_or_dashes (previous_time_info path)) (\<lambda>before.
     rbind (show_time_or_dashes (last_time_info path)) (\<lambda>last.
       Inr (''-----------> Path Status <---------- '' @ [CHR 0x0A] @
            ''Before Last Timestamp: '' @ before @
            ''Last Timestamp: '' @ last @
            ''Path = '' @ path_source_ip path @ '' -> '' @ relay_ip path @ '' -> '' @
            path_destination_ip path @ [CHR 0x0A] @
            ''Was hijacked? '' @ (if was_hijacked path = 1 then ''YES'' else ''NO'') @ [CHR 0x0A])))"

partial_function (option) show_all_nodes_p ::
    "path_status store \<Rightarrow> addr option \<Rightarrow> string \<Rightarrow> string res option" where
  "show_all_nodes_p st node out =
     (case node of
        None \<Rightarrow> Some (Inr out)
      | Some x \<Rightarrow>
          (case cells st x of
             None \<Rightarrow> Some (Inl BadPointer)
           | Some nd \<Rightarrow>
               (case show_path_status_structured (item nd) of
                  Inl e \<Rightarrow> Some (Inl e)
                | Inr lines \<Rightarrow> show_all_nodes_p st (nxt nd) (out @ lines))))"

definition show_all_paths :: "paths_module \<Rightarrow> string res option" where
  "show_all_paths m = show_all_nodes_p (paths_mem m) (monitored_paths_list_head m) []"

definition save_unstructured_path ::
    "paths_module \<Rightarrow> string \<Rightarrow> string \<Rightarrow> string \<Rightarrow> (paths_module \<times> string) res option" where
  "save_unstructured_path m source_ip0 relay_ip0 destination_ip0 =
     cbind (save_path_status m (new_path_status source_ip0 relay_ip0 destination_ip0)) (\<lambda>m'.
     cbind (show_all_nodes_p (paths_mem m') (monitored_paths_list_head m') []) (\<lambda>out.
       Some (Inr (m', out))))"

section \<open>Lookups\<close>

definition lookup_path_by_relay_ip_recursive ::
    "path_status store \<Rightarrow> addr option \<Rightarrow> string \<Rightarrow> addr option res option" where
  "lookup_path_by_relay_ip_recursive st starting_point relay =
     walk_find st (\<lambda>it. relay_ip it = relay) starting_point"

definition lookup_path_by_relay_ip :: "paths_module \<Rightarrow> string \<Rightarrow> addr option res option" where
  "lookup_path_by_relay_ip m relay =
     lookup_path_by_relay_ip_recursive (paths_mem m) (monitored_paths_list_head m) relay"

definition lookup_path_by_hijack_value_recursive ::
    "path_status store \<Rightarrow> addr option \<Rightarrow> int \<Rightarrow> addr option res option" where
  "lookup_path_by_hijack_value_recursive st starting_point v =
     walk_find st (\<lambda>it. was_hijacked it = v) starting_point"

definition lookup_path_by_hijack_value :: "paths_module \<Rightarrow> int \<Rightarrow> addr option res option" where
  "lookup_path_by_hijack_value m v =
     lookup_path_by_hijack_value_recursive (paths_mem m) (monitored_paths_list_head m) v"

text \<open>The loop of \<^verbatim>\<open>show_hijacked_paths\<close>, entered with the node of the last lookup.\<close>

partial_function (option) show_hijacked_loop ::
    "path_status store \<Rightarrow> int \<Rightarrow> addr option \<Rightarrow> string \<Rightarrow> string res option" where
  "show_hijacked_loop st v path_node out =
     (case path_node of
        None \<Rightarrow> Some (Inr out)
      | Some x \<Rightarrow>
          (case cells st x of
             None \<Rightarrow> Some (Inl BadPointer)
           | Some nd \<Rightarrow>
               (case show_path_status_structured (item nd) of
                  Inl e \<Rightarrow> Some (Inl e)
                | Inr lines \<Rightarrow>
                    (case lookup_path_by_hijack_value_recursive st (nxt nd) v of
                       None \<Rightarrow> None
                     | Some r \<Rightarrow>
                         (case r of Inl e \<Rightarrow> Some (Inl e)
                          | Inr next_node \<Rightarrow> show_hijacked_loop st v next_node (out @ lines))))))"

definition show_hijacked_paths :: "paths_module \<Rightarrow> int \<Rightarrow> string res option" where
  "show_hijacked_paths m v =
     cbind (lookup_path_by_hijack_value m v) (\<lambda>path_node.
       show_hijacked_loop (paths_mem m) v path_node [])"

section \<open>Alerts meet paths\<close>

definition update_path_status ::
    "path_status store \<Rightarrow> addr \<Rightarrow> hijack_alert \<Rightarrow> path_status store res" where
  "update_path_status st path_link alert =
     rbind (load st path_link) (\<lambda>nd.
       let it = (item nd)\<lparr>was_hijacked := 1\<rparr> in
       if last_time_info it = None then
         rbind (duplicate_time_structure (time_info alert)) (\<lambda>t.
           Inr (write_node st path_link (nd\<lparr>item := it\<lparr>last_time_info := t\<rparr>\<rparr>)))
       else
         rbind (duplicate_time_structure (time_info alert)) (\<lambda>t.
           Inr (write_node st path_link
                  (nd\<lparr>item := it\<lparr>previous_time_info := last_time_info it, last_time_info := t\<rparr>\<rparr>))))"

definition analyse_hijack_alert :: "paths_module \<Rightarrow> hijack_alert \<Rightarrow> paths_module res option" where
  "analyse_hijack_alert m alert =
     cbind (lookup_path_by_relay_ip m (source_ip alert)) (\<lambda>path_node.
       case path_node of
         Some x \<Rightarrow>
           cbind (Some (update_path_status (paths_mem m) x alert)) (\<lambda>st.
             Some (Inr (m\<lparr>paths_mem := st\<rparr>)))
       | None \<Rightarrow>
           cbind (lookup_path_by_relay_ip m (destination_ip alert)) (\<lambda>path_node'.
             case path_node' of
               Some x \<Rightarrow>
                 cbind (Some (update_path_status (paths_mem m) x alert)) (\<lambda>st.
                   Some (Inr (m\<lparr>paths_mem := st\<rparr>)))
             | None \<Rightarrow> Some (Inr m)))"

definition init_test_path_values :: "paths_module \<Rightarrow> paths_module res option" where
  "init_test_path_values m =
     cbind (save_path_status m (new_path_status ''10.23.44.1'' ''101.0.2.1'' ''30.123.2.1'')) (\<lambda>m1.
     cbind (save_path_status m1 (new_path_status ''10.23.44.2'' ''10.0.2.30'' ''30.123.2.2'')) (\<lambda>m2.
     save_path_status m2 (new_path_status ''10.23.44.3'' ''101.0.2.3'' ''30.123.2.3'')))"

section \<open>The abstract specification\<close>

text \<open>
  The module as a list of path records.  Marking a path and choosing the path to mark
  are functions on that list; the heap operations are shown to refine them.
\<close>

definition path_list :: "paths_module \<Rightarrow> path_status list \<Rightarrow> bool" where
  "path_list m ps \<longleftrightarrow>
     wf_store (paths_mem m) \<and>
     (\<exists>axs. llist (paths_mem m) (monitored_paths_list_head m) axs \<and> map snd axs = ps)"

definition mark_hijacked :: "tm \<Rightarrow> path_status \<Rightarrow> path_status" where
  "mark_hijacked t p =
     (if last_time_info p = None then p\<lparr>was_hijacked := 1, last_time_info := Some t\<rparr>
      else p\<lparr>was_hijacked := 1, previous_time_info := last_time_info p, last_time_info := Some t\<rparr>)"

definition spec_analyse :: "tm \<Rightarrow> string \<Rightarrow> string \<Rightarrow> path_status list \<Rightarrow> path_status list" where
  "spec_analyse t src dst ps =
     (if src \<in> relay_ip ` set ps then update_first (\<lambda>p. relay_ip p = src) (mark_hijacked t) ps
      else update_first (\<lambda>p. relay_ip p = dst) (mark_hijacked t) ps)"

lemma path_list_unique: "path_list m ps \<Longrightarrow> path_list m qs \<Longrightarrow> ps = qs"
  by (auto simp: path_list_def dest: llist_unique)

lemma path_list_init:
  "wf_store (paths_mem m) \<Longrightarrow> path_list (init_monitored_paths_head m) []"
  by (simp add: path_list_def init_monitored_paths_head_def)

lemma save_path_status_appends:
  assumes "path_list m ps"
  shows "\<exists>m'. save_path_status m p = Some (Inr m') \<and> path_list m' (ps @ [p])"
proof -
  from assms obtain axs where wf: "wf_store (paths_mem m)"
    and l: "llist (paths_mem m) (monitored_paths_list_head m) axs" and ps: "map snd axs = ps"
    by (auto simp: path_list_def)
  from paths.insert_end_appends [OF wf l, of p] obtain st q b where
    i: "insert_end_p (paths_mem m) (monitored_paths_list_head m) p = Some (Inr (st, q))"
    and "wf_store st" "llist st q (axs @ [(b, p)])" by blast
  then have "path_list (m\<lparr>paths_mem := st, monitored_paths_list_head := q\<rparr>) (ps @ [p])"
    using ps by (auto simp: path_list_def intro!: exI [of _ "axs @ [(b, p)]"])
  with i show ?thesis by (simp add: save_path_status_def)
qed

lemma update_first_no_relay [simp]:
  "ip \<notin> relay_ip ` set ps \<Longrightarrow> update_first (\<lambda>p. relay_ip p = ip) f ps = ps"
  by (rule update_first_none) auto

text \<open>Updating the node that a lookup found is \<open>update_first\<close> on the list.\<close>

lemma update_path_status_found:
  assumes "path_list m ps" "time_info alert = Some t"
    and f: "walk_find (paths_mem m) P (monitored_paths_list_head m) = Some (Inr (Some x))"
  shows "\<exists>st. update_path_status (paths_mem m) x alert = Inr st \<and>
              path_list (m\<lparr>paths_mem := st\<rparr>) (update_first P (mark_hijacked t) ps)"
proof -
  from assms(1) obtain axs where wf: "wf_store (paths_mem m)"
    and l: "llist (paths_mem m) (monitored_paths_list_head m) axs" and ps: "map snd axs = ps"
    by (auto simp: path_list_def)
  obtain nd bxs where nd: "cells (paths_mem m) x = Some nd"
    "wf_store (write_node (paths_mem m) x (nd\<lparr>item := mark_hijacked t (item nd)\<rparr>))"
    "llist (write_node (paths_mem m) x (nd\<lparr>item := mark_hijacked t (item nd)\<rparr>)) (monitored_paths_list_head m) bxs"
    "map snd bxs = update_first P (mark_hijacked t) ps"
    using llist_update_found [OF wf l f] unfolding ps by metis
  then have "update_path_status (paths_mem m) x alert =
      Inr (write_node (paths_mem m) x (nd\<lparr>item := mark_hijacked t (item nd)\<rparr>))"
    using assms(2) by (simp add: update_path_status_def load_def mark_hijacked_def Let_def)
  with nd show ?thesis by (auto simp: path_list_def)
qed

lemma lookup_relay_path_list:
  assumes "path_list m ps"
  shows "\<exists>r. lookup_path_by_relay_ip m ip = Some (Inr r) \<and> (r \<noteq> None \<longleftrightarrow> ip \<in> relay_ip ` set ps)"
proof -
  from assms obtain axs where l: "llist (paths_mem m) (monitored_paths_list_head m) axs"
    and ps: "map snd axs = ps" by (auto simp: path_list_def)
  have "find (\<lambda>ax. relay_ip (snd ax) = ip) axs \<noteq> None \<longleftrightarrow> ip \<in> relay_ip ` set ps"
    using ps by (force simp: find_None_iff image_iff)
  with walk_find_llist [OF l] show ?thesis
    by (simp add: lookup_path_by_relay_ip_def lookup_path_by_relay_ip_recursive_def)
qed

text \<open>The heap code refines the specification on every alert that carries a time.\<close>

lemma analyse_refines:
  assumes p: "path_list m ps" and t: "time_info alert = Some t"
  shows "\<exists>m'. analyse_hijack_alert m alert = Some (Inr m') \<and>
              path_list m' (spec_analyse t (source_ip alert) (destination_ip alert) ps)"
proof -
  note lk = lookup_path_by_relay_ip_def lookup_path_by_relay_ip_recursive_def
  obtain r where r: "lookup_path_by_relay_ip m (source_ip alert) = Some (Inr r)"
      "r \<noteq> None \<longleftrightarrow> source_ip alert \<in> relay_ip ` set ps"
    using lookup_relay_path_list [OF p] by blast
  obtain r' where r': "lookup_path_by_relay_ip m (destination_ip alert) = Some (Inr r')"
      "r' \<noteq> None \<longleftrightarrow> destination_ip alert \<in> relay_ip ` set ps"
    using lookup_relay_path_list [OF p] by blast
  show ?thesis
  proof (cases r)
    case (Some x)
    with r update_path_status_found [OF p t, of _ x] show ?thesis
      by (fastforce simp: analyse_hijack_alert_def spec_analyse_def lk)
  next
    case None
    note src = this
    show ?thesis
    proof (cases r')
      case (Some x)
      with src r r' update_path_status_found [OF p t, of _ x] show ?thesis
        by (fastforce simp: analyse_hijack_alert_def spec_analyse_def lk)
    next
      case None
      with src r r' p show ?thesis
        by (auto simp: analyse_hijack_alert_def spec_analyse_def)
    qed
  qed
qed

section \<open>The invariant of a path record\<close>

text \<open>
  A path is marked exactly when it has a last alert time, and only a path with a last
  time has a previous one.
\<close>

definition path_ok :: "path_status \<Rightarrow> bool" where
  "path_ok p \<longleftrightarrow>
     was_hijacked p \<in> {0, 1} \<and> (was_hijacked p = 1 \<longleftrightarrow> last_time_info p \<noteq> None) \<and>
     (previous_time_info p \<noteq> None \<longrightarrow> last_time_info p \<noteq> None)"

lemma path_ok_new [simp]: "path_ok (new_path_status s r d)"
  by (simp add: path_ok_def new_path_status_def)

lemma path_ok_mark [simp]: "path_ok (mark_hijacked t p)"
  by (simp add: path_ok_def mark_hijacked_def)

lemma relay_mark [simp]: "relay_ip (mark_hijacked t p) = relay_ip p"
  by (simp add: mark_hijacked_def)

lemma update_first_ok: "\<forall>p \<in> set ps. path_ok p \<Longrightarrow> \<forall>p \<in> set (update_first P (mark_hijacked t) ps). path_ok p"
  by (induction ps) auto

lemma spec_analyse_ok: "\<forall>p \<in> set ps. path_ok p \<Longrightarrow> \<forall>p \<in> set (spec_analyse t s d ps). path_ok p"
  by (auto simp: spec_analyse_def dest: update_first_ok)

lemma update_first_relays:
  "(\<And>p. relay_ip (f p) = relay_ip p) \<Longrightarrow> map relay_ip (update_first P f ps) = map relay_ip ps"
  by (induction ps) auto

lemma spec_analyse_relays [simp]: "map relay_ip (spec_analyse t s d ps) = map relay_ip ps"
  by (simp add: spec_analyse_def update_first_relays)

section \<open>Printing returns\<close>

lemma show_structured_total: "\<exists>out. show_path_status_structured p = Inr out"
  by (auto simp: show_path_status_structured_def show_time_or_dashes_def get_time_custom_string_def
           split: if_splits)

lemma show_all_nodes_p_llist:
  "llist st p axs \<Longrightarrow>
   show_all_nodes_p st p out =
     Some (Inr (out @ concat (map (\<lambda>ax. projr (show_path_status_structured (snd ax))) axs)))"
proof (induction axs arbitrary: p out)
  case Nil
  then show ?case by (simp add: show_all_nodes_p.simps)
next
  case (Cons ax axs)
  obtain lines where "show_path_status_structured (snd ax) = Inr lines"
    using show_structured_total by blast
  with Cons show ?case by (subst show_all_nodes_p.simps) auto
qed

text \<open>\<^verbatim>\<open>show_hijacked_paths\<close> prints exactly the paths with the given mark, in list order.\<close>

lemma show_hijacked_loop_llist:
  "llist st p axs \<Longrightarrow>
   cbind (lookup_path_by_hijack_value_recursive st p v) (\<lambda>n. show_hijacked_loop st v n out) =
     Some (Inr (out @ concat (map (\<lambda>ax. projr (show_path_status_structured (snd ax)))
                                  (filter (\<lambda>ax. was_hijacked (snd ax) = v) axs))))"
proof (induction axs arbitrary: p out)
  case Nil
  then show ?case
    by (simp add: lookup_path_by_hijack_value_recursive_def walk_find.simps show_hijacked_loop.simps)
next
  case (Cons ax axs)
  then obtain q where c: "cells st (fst ax) = Some \<lparr>item = snd ax, nxt = q\<rparr>" and q: "llist st q axs"
    and p: "p = Some (fst ax)" by auto
  obtain lines where lines: "show_path_status_structured (snd ax) = Inr lines"
    using show_structured_total by blast
  obtain n where n: "lookup_path_by_hijack_value_recursive st q v = Some (Inr n)"
    using walk_find_llist [OF q] by (simp add: lookup_path_by_hijack_value_recursive_def)
  have lk: "lookup_path_by_hijack_value_recursive st p v =
      (if was_hijacked (snd ax) = v then Some (Inr p) else Some (Inr n))"
    using c p n unfolding lookup_path_by_hijack_value_recursive_def
    by (subst walk_find.simps) simp
  show ?case
  proof (cases "was_hijacked (snd ax) = v")
    case True
    then have "cbind (lookup_path_by_hijack_value_recursive st p v) (\<lambda>n. show_hijacked_loop st v n out) =
        show_hijacked_loop st v n (out @ lines)"
      using lk c p lines n by (subst show_hijacked_loop.simps) simp
    with True lines n Cons.IH [OF q, of "out @ lines"] show ?thesis by simp
  next
    case False
    with lk n Cons.IH [OF q, of out] show ?thesis by simp
  qed
qed

end
