(* ===== verification/Alerts_Receiver.thy ===== *)
theory Alerts_Receiver
  imports Monitored_Paths
begin

text \<open>
  \<^verbatim>\<open>MACHETE/SCMultipath/dar/alerts_receiver.c\<close>: the receive loop of the Darshana
  alert receiver (DAR), which stores every alert, marks the path it names and raises
  \<^verbatim>\<open>SIGUSR1\<close> once enough alerts have arrived.
\<close>

section \<open>State and operations\<close>

record dar =
  alerts_mod :: alerts_module
  paths_mod :: paths_module
  max_dar_alerts :: int

definition setup_dar :: "dar \<Rightarrow> int \<Rightarrow> dar" where
  "setup_dar d max_number_of_alerts_to_trigger =
     d\<lparr>alerts_mod := init_alerts_history_head (alerts_mod d),
       paths_mod := init_monitored_paths_head (paths_mod d),
       max_dar_alerts := max_number_of_alerts_to_trigger\<rparr>"

text \<open>
  \<open>sockfd\<close> and \<open>bind_result\<close> are what the system calls return.
\<close>

definition init_dar_socket :: "int \<Rightarrow> int \<Rightarrow> int res" where
  "init_dar_socket sockfd bind_result =
     (if sockfd < 0 then Inr (- 1)
      else if bind_result < 0 then Inl (Exit 1)
      else Inr sockfd)"

definition handle_client_alert :: "tm \<Rightarrow> string \<Rightarrow> dar \<Rightarrow> dar res option" where
  "handle_client_alert now buffer d =
     cbind (Some (parse_hijack_alert now buffer)) (\<lambda>alert_parsed.
     cbind (save_hijack_alert (alerts_mod d) alert_parsed) (\<lambda>am.
     cbind (analyse_hijack_alert (paths_mod d) alert_parsed) (\<lambda>pm.
       Some (Inr (d\<lparr>alerts_mod := am, paths_mod := pm\<rparr>)))))"

definition add_monitored_path ::
    "string \<Rightarrow> string \<Rightarrow> string \<Rightarrow> dar \<Rightarrow> (dar \<times> string) res option" where
  "add_monitored_path sourceIp relayIp destinationIp d =
     cbind (save_unstructured_path (paths_mod d) sourceIp relayIp destinationIp) (\<lambda>(pm, out).
       Some (Inr (d\<lparr>paths_mod := pm\<rparr>, out)))"

text \<open>
  The environment of the loop: what each \<^verbatim>\<open>read\<close> returns and the clock at that
  time.  The number of times the thread has raised \<^verbatim>\<open>SIGUSR1\<close> is part of the state.
\<close>

datatype read_result = ReadError | ReadData "char list"

datatype loop_end = InRead | LeftLoop

abbreviation DEFAULT_BUFFER_SIZE :: nat where
  "DEFAULT_BUFFER_SIZE \<equiv> 255"

text \<open>\<^verbatim>\<open>buffer\<close> after the \<^verbatim>\<open>bzero\<close> and the \<^verbatim>\<open>read\<close> of one iteration.\<close>

definition read_buffer :: "char list \<Rightarrow> char list" where
  "read_buffer bytes =
     store_bytes (replicate (Suc DEFAULT_BUFFER_SIZE) NUL) (take DEFAULT_BUFFER_SIZE bytes)"

definition alert_machete_of_compromised_path :: "nat \<Rightarrow> nat" where
  "alert_machete_of_compromised_path raised = Suc raised"

fun handle_darshana_client_loop ::
    "(tm \<times> read_result) list \<Rightarrow> dar \<Rightarrow> int \<Rightarrow> nat \<Rightarrow> (dar \<times> int \<times> nat \<times> loop_end) res option" where
  "handle_darshana_client_loop [] d number_of_alerts_received raised =
     Some (Inr (d, number_of_alerts_received, raised, InRead))"
| "handle_darshana_client_loop ((now, ReadError) # es) d number_of_alerts_received raised =
     Some (Inr (d, number_of_alerts_received, raised, LeftLoop))"
| "handle_darshana_client_loop ((now, ReadData bytes) # es) d number_of_alerts_received raised =
     (let buffer = read_buffer bytes in
      cbind (Some (c_string buffer)) (\<lambda>text.
      cbind (Some (duplicate_string (Some text))) (\<lambda>alert_string.
      cbind (handle_client_alert now alert_string d) (\<lambda>d'.
        let n = number_of_alerts_received + 1 in
        handle_darshana_client_loop es d' n
          (if max_dar_alerts d' \<le> n then alert_machete_of_compromised_path raised else raised)))))"

section \<open>Specification\<close>

text \<open>The receiver as two lists: the alerts so far and the path records.\<close>

definition dar_rel :: "dar \<Rightarrow> hijack_alert list \<Rightarrow> path_status list \<Rightarrow> bool" where
  "dar_rel d as ps \<longleftrightarrow> alert_history (alerts_mod d) as \<and> path_list (paths_mod d) ps"

text \<open>What a datagram says: the text up to the first NUL of its first 255 bytes.\<close>

definition datagram_text :: "char list \<Rightarrow> string" where
  "datagram_text bytes = takeWhile (\<lambda>c. c \<noteq> NUL) (take DEFAULT_BUFFER_SIZE bytes)"

definition well_formed :: "char list \<Rightarrow> bool" where
  "well_formed bytes \<longleftrightarrow> 4 \<le> length (str_fields '','' (datagram_text bytes))"

definition alert_of :: "tm \<times> char list \<Rightarrow> hijack_alert" where
  "alert_of e =
     (let fs = str_fields '','' (datagram_text (snd e)) in
      \<lparr>time_info = Some (fst e), alert_type = fs ! 0, source_ip = fs ! 1,
       destination_ip = fs ! 2, metric_name = fs ! 3\<rparr>)"

definition spec_step :: "tm \<times> char list \<Rightarrow> path_status list \<Rightarrow> path_status list" where
  "spec_step e ps = spec_analyse (fst e) (source_ip (alert_of e)) (destination_ip (alert_of e)) ps"

text \<open>How often the threshold is reached while \<open>k\<close> alerts arrive after the first \<open>n\<close>.\<close>

fun raises :: "int \<Rightarrow> int \<Rightarrow> nat \<Rightarrow> nat" where
  "raises m n 0 = 0"
| "raises m n (Suc k) = (if m \<le> n + 1 then 1 else 0) + raises m (n + 1) k"

abbreviation datagrams :: "(tm \<times> char list) list \<Rightarrow> (tm \<times> read_result) list" where
  "datagrams es \<equiv> map (\<lambda>(t, bytes). (t, ReadData bytes)) es"

lemma dar_rel_setup:
  assumes "wf_store (alerts_mem (alerts_mod d))" "wf_store (paths_mem (paths_mod d))"
  shows "dar_rel (setup_dar d m) [] []"
  using assms by (simp add: dar_rel_def setup_dar_def alert_history_init path_list_init)

lemma add_monitored_path_appends:
  assumes "dar_rel d as ps"
  shows "\<exists>d' out. add_monitored_path s r t d = Some (Inr (d', out)) \<and>
           dar_rel d' as (ps @ [new_path_status s r t]) \<and> max_dar_alerts d' = max_dar_alerts d"
proof -
  from assms have "path_list (paths_mod d) ps" by (simp add: dar_rel_def)
  from save_path_status_appends [OF this] obtain m' where
    m': "save_path_status (paths_mod d) (new_path_status s r t) = Some (Inr m')"
    "path_list m' (ps @ [new_path_status s r t])" by blast
  then obtain out where "show_all_nodes_p (paths_mem m') (monitored_paths_list_head m') [] = Some (Inr out)"
    using show_all_nodes_p_llist by (fastforce simp: path_list_def)
  with m' assms show ?thesis
    by (auto simp: add_monitored_path_def save_unstructured_path_def dar_rel_def)
qed

lemma datagram_buffer: "c_string (read_buffer bytes) = Inr (datagram_text bytes)"
  unfolding read_buffer_def datagram_text_def by (rule c_string_cleared)

lemma parse_well_formed:
  "well_formed bytes \<Longrightarrow> parse_hijack_alert now (datagram_text bytes) = Inr (alert_of (now, bytes))"
  by (auto simp: well_formed_def parse_hijack_alert_fields alert_of_def Let_def split: list.splits)

lemma parse_malformed:
  "\<not> well_formed bytes \<Longrightarrow> parse_hijack_alert now (datagram_text bytes) = Inl NullDeref"
  by (auto simp: well_formed_def parse_hijack_alert_fields split: list.splits)

lemma handle_client_alert_refines:
  assumes "dar_rel d as ps" "well_formed bytes"
  shows "\<exists>d'. handle_client_alert now (datagram_text bytes) d = Some (Inr d') \<and>
              dar_rel d' (as @ [alert_of (now, bytes)]) (spec_step (now, bytes) ps) \<and>
              max_dar_alerts d' = max_dar_alerts d"
proof -
  let ?a = "alert_of (now, bytes)"
  have t: "time_info ?a = Some now" by (simp add: alert_of_def Let_def)
  obtain am where "save_hijack_alert (alerts_mod d) ?a = Some (Inr am)" "alert_history am (as @ [?a])"
    using save_hijack_alert_appends assms(1) by (metis dar_rel_def)
  moreover obtain pm where "analyse_hijack_alert (paths_mod d) ?a = Some (Inr pm)"
      "path_list pm (spec_step (now, bytes) ps)"
    using analyse_refines [OF _ t] assms(1) by (fastforce simp: dar_rel_def spec_step_def)
  ultimately show ?thesis
    using parse_well_formed [OF assms(2)] by (simp add: handle_client_alert_def dar_rel_def)
qed

text \<open>One iteration of the loop on a datagram.\<close>

lemma loop_step:
  "handle_darshana_client_loop ((now, ReadData bytes) # es) d n k =
     cbind (handle_client_alert now (datagram_text bytes) d) (\<lambda>d'.
       handle_darshana_client_loop es d' (n + 1) (if max_dar_alerts d' \<le> n + 1 then Suc k else k))"
  unfolding alert_machete_of_compromised_path_def [symmetric]
  by (simp add: datagram_buffer duplicate_string_def Let_def)

lemma loop_refines:
  assumes "dar_rel d as ps" "\<forall>e \<in> set es. well_formed (snd e)"
  shows "\<exists>d'. handle_darshana_client_loop (datagrams es @ rest) d n k =
                handle_darshana_client_loop rest d' (n + int (length es))
                  (k + raises (max_dar_alerts d) n (length es)) \<and>
              dar_rel d' (as @ map alert_of es) (fold spec_step es ps) \<and>
              max_dar_alerts d' = max_dar_alerts d"
  using assms
proof (induction es arbitrary: d as ps n k)
  case Nil
  then show ?case by auto
next
  case (Cons e es)
  obtain now bytes where e: "e = (now, bytes)" by (cases e)
  with Cons.prems obtain d1 where
    h: "handle_client_alert now (datagram_text bytes) d = Some (Inr d1)"
    and r: "dar_rel d1 (as @ [alert_of e]) (spec_step e ps)"
    and m: "max_dar_alerts d1 = max_dar_alerts d"
    using handle_client_alert_refines [of d as ps bytes now] by auto
  from Cons.IH [OF r, of "n + 1" "if max_dar_alerts d \<le> n + 1 then Suc k else k"] Cons.prems(2)
  obtain d' where
    "handle_darshana_client_loop (datagrams es @ rest) d1 (n + 1)
       (if max_dar_alerts d \<le> n + 1 then Suc k else k) =
     handle_darshana_client_loop rest d' (n + 1 + int (length es))
       ((if max_dar_alerts d \<le> n + 1 then Suc k else k) + raises (max_dar_alerts d1) (n + 1) (length es))"
    "dar_rel d' ((as @ [alert_of e]) @ map alert_of es) (fold spec_step es (spec_step e ps))"
    "max_dar_alerts d' = max_dar_alerts d1" by auto
  then show ?case
    using h e m by (auto simp: loop_step add.assoc simp del: handle_darshana_client_loop.simps(3))
qed

lemma raises_eq: "raises m n k = k - nat (max 0 (min (int k) (m - n - 1)))"
  by (induction k arbitrary: n) auto

section \<open>What marking does to the paths\<close>

lemma spec_step_relays [simp]: "map relay_ip (spec_step e ps) = map relay_ip ps"
  by (simp add: spec_step_def)

lemma fold_spec_step_relays [simp]: "map relay_ip (fold spec_step es ps) = map relay_ip ps"
  by (induction es arbitrary: ps) auto

lemma length_fold_spec_step [simp]: "length (fold spec_step es ps) = length ps"
  using fold_spec_step_relays [of es ps] by (metis length_map)

lemma fold_spec_step_ok:
  "\<forall>p \<in> set ps. path_ok p \<Longrightarrow> \<forall>p \<in> set (fold spec_step es ps). path_ok p"
  by (induction es arbitrary: ps) (auto simp: spec_step_def dest: spec_analyse_ok)

lemma update_first_nth:
  "i < length ps \<Longrightarrow>
   update_first P f ps ! i = (if P (ps ! i) \<and> (\<forall>j < i. \<not> P (ps ! j)) then f (ps ! i) else ps ! i)"
proof (induction ps arbitrary: i)
  case (Cons p ps)
  show ?case
  proof (cases i)
    case (Suc k)
    have "(\<forall>j < Suc k. \<not> P ((p # ps) ! j)) \<longleftrightarrow> \<not> P p \<and> (\<forall>j < k. \<not> P (ps ! j))"
      by (auto simp: less_Suc_eq_0_disj)
    with Suc Cons show ?thesis by auto
  qed simp
qed simp

lemma length_spec_step [simp]: "length (spec_step e ps) = length ps"
  using spec_step_relays [of e ps] by (metis length_map)

text \<open>
  An alert names a path if the path is the first one with its relay, and the relay is the source
  of the alert, or its destination while the source is the relay of no path.
\<close>

definition names_path :: "tm \<times> char list \<Rightarrow> path_status list \<Rightarrow> nat \<Rightarrow> bool" where
  "names_path e ps i \<longleftrightarrow> (\<forall>j<i. relay_ip (ps ! j) \<noteq> relay_ip (ps ! i)) \<and>
     (source_ip (alert_of e) = relay_ip (ps ! i) \<or>
      destination_ip (alert_of e) = relay_ip (ps ! i) \<and> source_ip (alert_of e) \<notin> relay_ip ` set ps)"

lemma spec_step_marks:
  assumes "i < length ps"
  shows "was_hijacked (spec_step e ps ! i) = 1 \<longleftrightarrow> was_hijacked (ps ! i) = 1 \<or> names_path e ps i"
proof -
  have r: "relay_ip (ps ! i) \<in> relay_ip ` set ps" using assms by simp
  show ?thesis
  proof (cases "source_ip (alert_of e) = relay_ip (ps ! i)")
    case True
    with assms r show ?thesis
      by (auto simp: spec_step_def spec_analyse_def names_path_def update_first_nth mark_hijacked_def)
  next
    case False
    with assms show ?thesis
      by (auto simp: spec_step_def spec_analyse_def names_path_def update_first_nth mark_hijacked_def)
  qed
qed

lemma spec_step_names:
  assumes "i < length ps"
  shows "names_path e (spec_step x ps) i \<longleftrightarrow> names_path e ps i"
proof -
  have "relay_ip (spec_step x ps ! k) = relay_ip (ps ! k)" if "k < length ps" for k
    using that by (metis length_spec_step nth_map spec_step_relays)
  moreover have "relay_ip ` set (spec_step x ps) = relay_ip ` set ps"
    by (metis set_map spec_step_relays)
  ultimately show ?thesis using assms by (simp add: names_path_def)
qed

lemma fold_marks:
  "i < length ps \<Longrightarrow> was_hijacked (fold spec_step es ps ! i) = 1 \<longleftrightarrow>
     was_hijacked (ps ! i) = 1 \<or> (\<exists>e \<in> set es. names_path e ps i)"
  by (induction es arbitrary: ps) (auto simp: spec_step_marks spec_step_names)

section \<open>Properties of the receive loop\<close>

text \<open>Concrete inputs for the witnesses.\<close>

definition sample_tm :: tm where
  "sample_tm = \<lparr>tm_sec = 43, tm_min = 4, tm_hour = 17, tm_mday = 18, tm_mon = 10, tm_year = 117,
                tm_wday = 6, tm_yday = 321, tm_isdst = 0\<rparr>"

definition empty_dar :: dar where
  "empty_dar = \<lparr>alerts_mod = \<lparr>alerts_mem = empty_store, alerts_history_head = None\<rparr>,
                paths_mod = \<lparr>paths_mem = empty_store, monitored_paths_list_head = None\<rparr>,
                max_dar_alerts = 1\<rparr>"

definition sample_alert :: "char list" where
  "sample_alert = ''Hijack,10.0.2.34,10.0.2.45,lat''"

lemma empty_dar_rel: "dar_rel empty_dar [] []"
  by (simp add: dar_rel_def empty_dar_def alert_history_def path_list_def)

lemma sample_fields:
  "str_fields '','' (datagram_text sample_alert) = [''Hijack'', ''10.0.2.34'', ''10.0.2.45'', ''lat'']"
  by (simp add: sample_alert_def datagram_text_def str_fields_def)

lemma sample_well_formed: "well_formed sample_alert"
  by (simp add: well_formed_def sample_fields)

lemma sample_alert_of:
  "alert_of (sample_tm, sample_alert) =
     \<lparr>time_info = Some sample_tm, alert_type = ''Hijack'', source_ip = ''10.0.2.34'',
      destination_ip = ''10.0.2.45'', metric_name = ''lat''\<rparr>"
  by (simp add: alert_of_def sample_fields)

text \<open>A state that monitors one path through the relay \<^verbatim>\<open>10.0.2.34\<close>.\<close>

definition sample_paths :: "path_status list" where
  "sample_paths = [new_path_status ''10.0.2.1'' ''10.0.2.34'' ''10.0.2.9'']"

definition one_path_dar :: dar where
  "one_path_dar =
     empty_dar\<lparr>paths_mod :=
       \<lparr>paths_mem = \<lparr>cells = [0 \<mapsto> \<lparr>item = hd sample_paths, nxt = None\<rparr>], fresh = 1\<rparr>,
        monitored_paths_list_head = Some 0\<rparr>\<rparr>"

lemma one_path_dar_rel: "dar_rel one_path_dar [] sample_paths"
  by (auto simp: dar_rel_def one_path_dar_def empty_dar_def alert_history_def path_list_def
        wf_store_def empty_store_def sample_paths_def intro!: exI [of _ "[(0, hd sample_paths)]"])

text \<open>C7.  The receive loop of the alert receiver refines its specification on two
  lists.  Started on any state that stands for the alerts \<open>as\<close> and paths \<open>ps\<close>, and given
  any sequence of datagrams with at least four non-empty comma-separated fields, it
  does not fault or diverge; it ends waiting in \<^verbatim>\<open>read\<close> with the alerts appended in order of
  arrival, each update of the path list being that of the specification, and with
  \<^verbatim>\<open>SIGUSR1\<close> raised once for every alert whose number reaches the threshold.\<close>

theorem dar_loop_refines:
  assumes "dar_rel d as ps" "\<forall>e \<in> set es. well_formed (snd e)"
  shows "\<exists>d'. handle_darshana_client_loop (datagrams es) d 0 0 =
                Some (Inr (d', int (length es),
                  length es - nat (max 0 (min (int (length es)) (max_dar_alerts d - 1))), InRead)) \<and>
              dar_rel d' (as @ map alert_of es) (fold spec_step es ps)"
  using loop_refines [OF assms, of "[]" 0 0] by (auto simp: raises_eq)

theorem dar_loop_refines_witness:
  "\<exists>d'. handle_darshana_client_loop (datagrams [(sample_tm, sample_alert)]) one_path_dar 0 0 =
          Some (Inr (d', 1, 1, InRead)) \<and>
        dar_rel d' [alert_of (sample_tm, sample_alert)]
          [mark_hijacked sample_tm (hd sample_paths)]"
  using dar_loop_refines [OF one_path_dar_rel, of "[(sample_tm, sample_alert)]"]
  by (simp add: sample_well_formed one_path_dar_def empty_dar_def spec_step_def spec_analyse_def
        sample_alert_of sample_paths_def new_path_status_def)

text \<open>C34.  A datagram with fewer than four non-empty fields (an empty one, for
  instance) is fatal: whatever well-formed alerts came before it, the loop
  dereferences the null pointer that \<^verbatim>\<open>strtok\<close> returned.\<close>

theorem dar_malformed_alert_crashes:
  assumes "dar_rel d as ps" "\<forall>e \<in> set es. well_formed (snd e)" "\<not> well_formed bytes"
  shows "handle_darshana_client_loop (datagrams es @ (now, ReadData bytes) # rest) d 0 0 =
         Some (Inl NullDeref)"
proof -
  have "handle_client_alert now (datagram_text bytes) d' = Some (Inl NullDeref)" for d'
    using parse_malformed [OF assms(3)] by (simp add: handle_client_alert_def)
  then show ?thesis
    using loop_refines [OF assms(1,2), of "(now, ReadData bytes) # rest" 0 0]
    by (auto simp: loop_step simp del: handle_darshana_client_loop.simps(3))
qed

theorem dar_malformed_alert_crashes_witness:
  "handle_darshana_client_loop
     (datagrams [(sample_tm, sample_alert)] @ [(sample_tm, ReadData [])]) one_path_dar 0 0 =
   Some (Inl NullDeref)"
proof (rule dar_malformed_alert_crashes [OF one_path_dar_rel])
  show "\<forall>e \<in> set [(sample_tm, sample_alert)]. well_formed (snd e)" by (simp add: sample_well_formed)
  show "\<not> well_formed []" by (simp add: well_formed_def datagram_text_def)
qed

text \<open>C13.  Exactly which paths a run of well-formed alerts marks as hijacked, also when several
  paths share a relay, as the flows over one node do: the monitored paths stay the same paths in
  the same order, and one is marked afterwards exactly if it was before, or if no path before it
  on the list has the same relay and some alert names that relay as its source, or as its
  destination while its source is the relay of no path.  Every other path over a named relay
  stays unmarked.\<close>

theorem dar_detection:
  assumes "dar_rel d as ps" "\<forall>e \<in> set es. well_formed (snd e)"
  shows "\<exists>d' n k ps'. handle_darshana_client_loop (datagrams es) d 0 0 = Some (Inr (d', n, k, InRead)) \<and>
           dar_rel d' (as @ map alert_of es) ps' \<and> map relay_ip ps' = map relay_ip ps \<and>
           (\<forall>i < length ps. was_hijacked (ps' ! i) = 1 \<longleftrightarrow> was_hijacked (ps ! i) = 1 \<or>
              (\<forall>j < i. relay_ip (ps ! j) \<noteq> relay_ip (ps ! i)) \<and>
              (\<exists>e \<in> set es. source_ip (alert_of e) = relay_ip (ps ! i) \<or>
                 destination_ip (alert_of e) = relay_ip (ps ! i) \<and> source_ip (alert_of e) \<notin> relay_ip ` set ps))"
proof -
  from loop_refines [OF assms(1,2), of "[]" 0 0] obtain d' where
    "handle_darshana_client_loop (datagrams es) d 0 0 =
       Some (Inr (d', int (length es), raises (max_dar_alerts d) 0 (length es), InRead))"
    "dar_rel d' (as @ map alert_of es) (fold spec_step es ps)" by auto
  then show ?thesis using fold_spec_step_relays [of es ps]
    by (intro exI [of _ d'] exI [of _ "int (length es)"] exI [of _ "raises (max_dar_alerts d) 0 (length es)"]
        exI [of _ "fold spec_step es ps"]) (auto simp: fold_marks names_path_def simp del: handle_darshana_client_loop.simps)
qed

theorem dar_detection_witness:
  "\<exists>d' n k ps'. handle_darshana_client_loop (datagrams [(sample_tm, sample_alert)]) one_path_dar 0 0 =
       Some (Inr (d', n, k, InRead)) \<and>
     path_list (paths_mod d') ps' \<and> map relay_ip ps' = [''10.0.2.34''] \<and> was_hijacked (ps' ! 0) = 1"
proof -
  have h: "\<forall>e \<in> set [(sample_tm, sample_alert)]. well_formed (snd e)"
    by (simp add: sample_well_formed)
  show ?thesis
    using dar_detection [OF one_path_dar_rel h]
    by (simp add: sample_paths_def new_path_status_def sample_alert_of dar_rel_def
             del: handle_darshana_client_loop.simps) metis
qed

text \<open>C33.  An alert that Darshana formats is the alert that the receiver parses, when
  none of its four parts is empty or has a comma.\<close>

theorem alert_roundtrip:
  assumes "token '','' a" "token '','' s" "token '','' d" "token '','' m"
  shows "parse_hijack_alert now (getAlertFormatted a s d m) =
         Inr \<lparr>time_info = Some now, alert_type = a, source_ip = s, destination_ip = d, metric_name = m\<rparr>"
  using str_fields_alert_formatted [OF assms] by (simp add: parse_hijack_alert_fields)

theorem alert_roundtrip_witness:
  "parse_hijack_alert sample_tm (getAlertFormatted ''Hijack'' ''10.0.2.34'' ''10.0.2.45'' ''lat'') =
   Inr \<lparr>time_info = Some sample_tm, alert_type = ''Hijack'', source_ip = ''10.0.2.34'',
        destination_ip = ''10.0.2.45'', metric_name = ''lat''\<rparr>"
  by (rule alert_roundtrip) (simp_all add: token_def)

text \<open>C25.  The path records stay consistent: from records where the mark agrees with
  the times (a path is marked exactly when it has a last alert time, and has a previous
  time only with a last one), every run of well-formed alerts leads to such records.\<close>

theorem dar_path_invariant:
  assumes "dar_rel d as ps" "\<forall>e \<in> set es. well_formed (snd e)" "\<forall>p \<in> set ps. path_ok p"
  shows "\<exists>d' n k ps'. handle_darshana_client_loop (datagrams es) d 0 0 = Some (Inr (d', n, k, InRead)) \<and>
           path_list (paths_mod d') ps' \<and> (\<forall>p \<in> set ps'. path_ok p)"
  using loop_refines [OF assms(1,2), of "[]" 0 0] fold_spec_step_ok [OF assms(3)]
  by (fastforce simp: dar_rel_def)

theorem dar_path_invariant_witness:
  "\<exists>d' n k ps'. handle_darshana_client_loop (datagrams [(sample_tm, sample_alert)]) one_path_dar 0 0 =
       Some (Inr (d', n, k, InRead)) \<and> path_list (paths_mod d') ps' \<and> (\<forall>p \<in> set ps'. path_ok p)"
  by (rule dar_path_invariant [OF one_path_dar_rel]) (simp_all add: sample_well_formed sample_paths_def)

text \<open>\<^verbatim>\<open>show_hijacked_paths\<close> returns and prints exactly the monitored paths with the
  given mark, each once and in the order they were added.\<close>

lemma show_hijacked_exact:
  assumes "path_list m ps"
  shows "show_hijacked_paths m v =
         Some (Inr (concat (map (\<lambda>p. projr (show_path_status_structured p))
                                (filter (\<lambda>p. was_hijacked p = v) ps))))"
proof -
  from assms obtain axs where "llist (paths_mem m) (monitored_paths_list_head m) axs"
    and "ps = map snd axs" by (auto simp: path_list_def)
  then show ?thesis
    using show_hijacked_loop_llist [of "paths_mem m" "monitored_paths_list_head m" axs v "[]"]
    by (simp add: show_hijacked_paths_def lookup_path_by_hijack_value_def filter_map comp_def)
qed

end
