(* ===== verification/Sockets.thy ===== *)
theory Sockets
  imports C_Strings
begin

text \<open>
  A connected stream socket as the program sees it: the bytes that are still to come,
  in the pieces in which the network delivers them.  \<^verbatim>\<open>recv\<close> and \<^verbatim>\<open>read\<close> take at most
  one piece, and at most the size they are given; the rest of a longer piece stays.
  Nothing left, or an empty piece, is a return value that is not positive (the peer
  has closed, or an error).
\<close>

type_synonym stream = "char list list"

fun recv :: "nat \<Rightarrow> stream \<Rightarrow> char list \<times> stream" where
  "recv n [] = ([], [])"
| "recv n (c # cs) = (if length c \<le> n then (c, cs) else (take n c, drop n c # cs))"

lemma recv_length: "recv n s = (c, s') \<Longrightarrow> length c \<le> n"
  by (cases s) (auto split: if_splits)

lemma recv_concat: "recv n s = (c, s') \<Longrightarrow> c @ concat s' = concat s"
  by (cases s) (auto split: if_splits)

lemma recv_whole [simp]: "length c \<le> n \<Longrightarrow> recv n (c # cs) = (c, cs)"
  by simp

text \<open>Every read of something makes the stream smaller: the measure of the read loops.\<close>

definition stream_size :: "stream \<Rightarrow> nat" where
  "stream_size s = length s + length (concat s)"

lemma recv_size: "recv n s = (c, s') \<Longrightarrow> c \<noteq> [] \<Longrightarrow> stream_size s' < stream_size s"
  by (cases s) (auto simp: stream_size_def split: if_splits)

text \<open>\<^verbatim>\<open>recv\<close> into the start of an array; the array keeps its size.\<close>

definition recv_into :: "char list \<Rightarrow> nat \<Rightarrow> stream \<Rightarrow> char list \<times> stream" where
  "recv_into buf n s = (case recv n s of (c, s') \<Rightarrow> (store_bytes buf c, s'))"

lemma recv_into_length:
  "recv_into buf n s = (buf', s') \<Longrightarrow> n \<le> length buf \<Longrightarrow> length buf' = length buf"
  using recv_length [of n s] by (auto simp: recv_into_def store_bytes_def split: prod.splits)

lemma recv_into_size: "recv_into buf n s = (buf', s') \<Longrightarrow> 0 < n \<Longrightarrow> s \<noteq> [] \<Longrightarrow> stream_size s' < stream_size s"
  by (cases s) (auto simp: recv_into_def stream_size_def split: if_splits)

text \<open>The bytes of an array from an offset that a \<^verbatim>\<open>send\<close> of \<open>n\<close> transmits.\<close>

definition bytes_from :: "char list \<Rightarrow> nat \<Rightarrow> nat \<Rightarrow> char list res" where
  "bytes_from buf off n = (if off + n \<le> length buf then Inr (take n (drop off buf)) else Inl OverRead)"

lemma bytes_from_eq_Inr: "bytes_from buf off n = Inr bs \<longleftrightarrow> off + n \<le> length buf \<and> bs = take n (drop off buf)"
  by (auto simp: bytes_from_def)

end
