(* ===== verification/Rule_Specs.thy ===== *)
theory Rule_Specs
  imports Sockets
begin

text \<open>
  \<^verbatim>\<open>overlay_manager.c\<close> and the rule builder of \<^verbatim>\<open>path_monitoring.c\<close> (both in
  \<^verbatim>\<open>MACHETE/SCMultipath\<close>): the two rule messages the sender hands to an overlay node,
  the exchange that sends them, and the check of the number of nodes.
\<close>

section \<open>Building the messages\<close>

abbreviation PORT_SIZE :: nat where
  "PORT_SIZE \<equiv> 10"

abbreviation RULE_SIZE :: nat where
  "RULE_SIZE \<equiv> 200"

definition DARSHANA_MONITORING_MODE :: string where
  "DARSHANA_MONITORING_MODE = ''lat''"

definition DARSHANA_METRICS_THRESHOLDS :: string where
  "DARSHANA_METRICS_THRESHOLDS = ''1 1 0.8 1.5 0.3 1''"

definition DARSHANA_RELATIVE_PATH :: string where
  "DARSHANA_RELATIVE_PATH = ''../../darshana/darshana/''"

definition DARSHANA_SERVER_PORT :: string where
  "DARSHANA_SERVER_PORT = ''11130''"

definition build_hop_forward_rules_spec :: "string \<Rightarrow> string \<Rightarrow> int \<Rightarrow> int \<Rightarrow> string res" where
  "build_hop_forward_rules_spec source_ip destination_ip destination_port type =
     rbind (strcpy PORT_SIZE (dec_int destination_port)) (\<lambda>dst_port_str.
     build_string RULE_SIZE (if type = 1 then ''A-'' else ''D-'')
       [source_ip, ''-'', destination_ip, ''-'', dst_port_str])"

definition build_hop_run_darshana_spec :: "string \<Rightarrow> int \<Rightarrow> string \<Rightarrow> int \<Rightarrow> int \<Rightarrow> string res" where
  "build_hop_run_darshana_spec sender_dar_ip sender_dar_port darshana_target_dst_ip
       darshana_target_dst_port type =
     rbind (strcpy PORT_SIZE (dec_int darshana_target_dst_port)) (\<lambda>darshana_target_dst_port_str.
     rbind (strcpy PORT_SIZE (dec_int sender_dar_port)) (\<lambda>sender_dar_port_str.
     build_string RULE_SIZE (if type = 1 then ''A-'' else ''D-'')
       [sender_dar_ip, ''-'', sender_dar_port_str, ''-'', darshana_target_dst_ip, ''-'',
        darshana_target_dst_port_str, ''-'', DARSHANA_MONITORING_MODE, ''-'',
        DARSHANA_METRICS_THRESHOLDS]))"

text \<open>
  The array that holds a rule is 200 characters of \<^verbatim>\<open>malloc\<close>: after the string and its
  terminator come the bytes that were there before.  All 200 are sent.
\<close>

definition rule_array :: "string \<Rightarrow> char list \<Rightarrow> char list" where
  "rule_array rule junk = take RULE_SIZE (rule @ NUL # junk)"

lemma length_rule_array: "RULE_SIZE \<le> Suc (length junk) \<Longrightarrow> length (rule_array rule junk) = RULE_SIZE"
  by (simp add: rule_array_def)

section \<open>Messages as an interface\<close>

text \<open>
  What a builder promises whoever parses its messages: on valid arguments it succeeds,
  and the text fits its array, is a C string, and has exactly the fields it was made of
  between the dashes.
\<close>

locale rule_codec =
  fixes build :: "'k \<Rightarrow> string res"
    and fields :: "'k \<Rightarrow> string list"
    and valid :: "'k \<Rightarrow> bool"
  assumes build_ok: "valid k \<Longrightarrow> \<exists>s. build k = Inr s \<and> cstr s \<and> length s < RULE_SIZE"
    and build_fields: "valid k \<Longrightarrow> build k = Inr s \<Longrightarrow> str_fields ''-'' s = fields k"
begin

lemma message:
  assumes "valid k" "RULE_SIZE \<le> Suc (length junk)"
  obtains s where "build k = Inr s" "length (rule_array s junk) = RULE_SIZE"
    "c_string (rule_array s junk) = Inr s" "str_fields ''-'' s = fields k" "length s < RULE_SIZE"
proof -
  obtain s where s: "build k = Inr s" "cstr s" "length s < RULE_SIZE"
    using build_ok [OF assms(1)] by blast
  then have "rule_array s junk = s @ NUL # take (RULE_SIZE - Suc (length s)) junk"
    by (simp add: rule_array_def take_Cons')
  with s assms build_fields [OF assms(1) s(1)] show ?thesis
    by (intro that [of s]) simp_all
qed

lemma injective:
  assumes "valid k" "valid k'" "build k = build k'"
  shows "fields k = fields k'"
  using assms build_fields build_ok by metis

end

definition forward_key_ok :: "string \<times> string \<times> int \<times> int \<Rightarrow> bool" where
  "forward_key_ok k = (case k of (src, dst, port, ty) \<Rightarrow>
     token ''-'' src \<and> token ''-'' dst \<and> cstr src \<and> cstr dst \<and> 0 \<le> port \<and> port < 100000 \<and>
     length src + length dst < 190)"

definition darshana_key_ok :: "string \<times> int \<times> string \<times> int \<times> int \<Rightarrow> bool" where
  "darshana_key_ok k = (case k of (dar, dport, dst, port, ty) \<Rightarrow>
     token ''-'' dar \<and> token ''-'' dst \<and> cstr dar \<and> cstr dst \<and> 0 \<le> port \<and> port < 100000 \<and>
     0 \<le> dport \<and> dport < 100000 \<and> length dar + length dst < 140)"

abbreviation rule_type :: "int \<Rightarrow> string" where
  "rule_type ty \<equiv> (if ty = 1 then ''A'' else ''D'')"

lemma port_token [simp]: "0 \<le> p \<Longrightarrow> token ''-'' (dec_int p)"
  by (rule dec_nonneg_token) (auto simp: is_digit_def)

lemma dash_token [simp]: "token ''-'' ''A''" "token ''-'' ''D''" "token ''-'' ''lat''"
  "token ''-'' ''1 1 0.8 1.5 0.3 1''"
  by (simp_all add: token_def)

lemma str_fields_dash [simp]: "token ''-'' t \<Longrightarrow> str_fields ''-'' (t @ CHR ''-'' # r) = t # str_fields ''-'' r"
  by (rule str_fields_token_delim) simp_all

lemma str_fields_type: "str_fields ''-'' (CHR ''A'' # CHR ''-'' # r) = ''A'' # str_fields ''-'' r"
  "str_fields ''-'' (CHR ''D'' # CHR ''-'' # r) = ''D'' # str_fields ''-'' r"
  using str_fields_dash [of "''A''" r] str_fields_dash [of "''D''" r] by simp_all

lemma build_hop_forward_rules_spec_eq:
  assumes "forward_key_ok (src, dst, port, ty)"
  shows "build_hop_forward_rules_spec src dst port ty =
    Inr (rule_type ty @ ''-'' @ src @ ''-'' @ dst @ ''-'' @ dec_int port)"
  using assms dec_int_port_length [of port]
  by (simp add: build_hop_forward_rules_spec_def forward_key_ok_def build_string_eq strcpy_def)

lemma build_hop_run_darshana_spec_eq:
  assumes "darshana_key_ok (dar, dport, dst, port, ty)"
  shows "build_hop_run_darshana_spec dar dport dst port ty =
    Inr (rule_type ty @ ''-'' @ dar @ ''-'' @ dec_int dport @ ''-'' @ dst @ ''-'' @ dec_int port @
         ''-'' @ DARSHANA_MONITORING_MODE @ ''-'' @ DARSHANA_METRICS_THRESHOLDS)"
  using assms dec_int_port_length [of port] dec_int_port_length [of dport]
  by (simp add: build_hop_run_darshana_spec_def darshana_key_ok_def build_string_eq strcpy_def
      DARSHANA_MONITORING_MODE_def DARSHANA_METRICS_THRESHOLDS_def)

interpretation forward_rule: rule_codec
    "\<lambda>(src, dst, port, ty). build_hop_forward_rules_spec src dst port ty"
    "\<lambda>(src, dst, port, ty). [rule_type ty, src, dst, dec_int port]" forward_key_ok
proof (unfold_locales, goal_cases)
  case (1 k)
  obtain src dst port ty where k: "k = (src, dst, port, ty)" by (cases k)
  from 1 k dec_int_port_length [of port] show ?case
    by (simp add: build_hop_forward_rules_spec_eq) (simp add: forward_key_ok_def)
next
  case (2 k s)
  obtain src dst port ty where k: "k = (src, dst, port, ty)" by (cases k)
  from 2 k show ?case
    by (auto simp: build_hop_forward_rules_spec_eq str_fields_type forward_key_ok_def)
qed

interpretation darshana_rule: rule_codec
    "\<lambda>(dar, dport, dst, port, ty). build_hop_run_darshana_spec dar dport dst port ty"
    "\<lambda>(dar, dport, dst, port, ty). [rule_type ty, dar, dec_int dport, dst, dec_int port,
       DARSHANA_MONITORING_MODE, DARSHANA_METRICS_THRESHOLDS]" darshana_key_ok
proof (unfold_locales, goal_cases)
  case (1 k)
  obtain dar dport dst port ty where k: "k = (dar, dport, dst, port, ty)" by (cases k)
  from 1 k dec_int_port_length [of port] dec_int_port_length [of dport] show ?case
    by (simp add: build_hop_run_darshana_spec_eq)
      (simp add: darshana_key_ok_def DARSHANA_MONITORING_MODE_def DARSHANA_METRICS_THRESHOLDS_def)
next
  case (2 k s)
  obtain dar dport dst port ty where k: "k = (dar, dport, dst, port, ty)" by (cases k)
  have l: "str_fields ''-'' (CHR ''l'' # CHR ''a'' # CHR ''t'' # CHR ''-'' # r) = ''lat'' # str_fields ''-'' r" for r
    using str_fields_dash [of "''lat''" r] by simp
  from 2 k show ?case
    by (auto simp: build_hop_run_darshana_spec_eq str_fields_type darshana_key_ok_def l
        DARSHANA_MONITORING_MODE_def DARSHANA_METRICS_THRESHOLDS_def)
qed

section \<open>The exchange with an overlay node\<close>

text \<open>
  What the sender does to the network while it sets up a node: it connects, sends,
  closes.  The descriptor is the one that \<^verbatim>\<open>initiate_overlay_node_comn_socket\<close> returned;
  the results of \<^verbatim>\<open>connect\<close> and \<^verbatim>\<open>send\<close> are not looked at.
\<close>

datatype node_io =
    Connect string int
  | Send_Rule "char list"
  | Close_Node

definition initiate_overlay_node_comn_socket :: "string \<Rightarrow> int \<Rightarrow> node_io list" where
  "initiate_overlay_node_comn_socket hop_ip hop_port = [Connect hop_ip hop_port]"

definition close_overlay_node_comn :: "node_io list" where
  "close_overlay_node_comn = [Close_Node]"

text \<open>
  \<^verbatim>\<open>while (recv(...) > 0) if (strlen(rule) > 0) break;\<close>: an answer that starts with a
  NUL is read again, into the same array.  After the last piece of the stream the node has
  closed its end, or failed, and \<^verbatim>\<open>recv\<close> returns at most 0; a node that is \<open>silent\<close> keeps the
  connection open without another byte, and \<^verbatim>\<open>recv\<close> never returns.
\<close>

function await_reply :: "bool \<Rightarrow> char list \<Rightarrow> stream \<Rightarrow> (char list \<times> stream) res" where
  "await_reply silent buf s =
     (case recv RULE_SIZE s of (c, s') \<Rightarrow>
        if s = [] \<and> silent then Inl Blocked
        else if c = [] then Inr (buf, s')
        else let buf' = store_bytes buf c in
          rbind (c_string buf') (\<lambda>str. if str \<noteq> [] then Inr (buf', s') else await_reply silent buf' s'))"
  by pat_completeness auto

termination
  by (relation "measure (\<lambda>(silent, buf, s). stream_size s)") (auto dest: recv_size [OF sym])

declare await_reply.simps [simp del]

definition setup_overlay_node ::
    "string \<Rightarrow> int \<Rightarrow> char list \<Rightarrow> char list \<Rightarrow> bool \<Rightarrow> stream
      \<Rightarrow> (node_io list \<times> char list \<times> char list) res" where
  "setup_overlay_node hop_ip hop_port forwarding_rule darshana_rule silent s =
     rbind (await_reply silent (bzero RULE_SIZE forwarding_rule) s) (\<lambda>(forwarding_rule1, s1).
     rbind (await_reply silent (bzero RULE_SIZE darshana_rule) s1) (\<lambda>(darshana_rule1, s2).
       Inr (initiate_overlay_node_comn_socket hop_ip hop_port @
              [Send_Rule (take RULE_SIZE forwarding_rule), Send_Rule (take RULE_SIZE darshana_rule)] @
              close_overlay_node_comn,
            bzero RULE_SIZE forwarding_rule1, bzero RULE_SIZE darshana_rule1)))"

text \<open>One answer that fits and holds a string ends the wait.\<close>

lemma await_reply_string:
  assumes "length buf = RULE_SIZE" "length c \<le> RULE_SIZE" "c_string (store_bytes buf c) = Inr str" "str \<noteq> []"
  shows "await_reply silent buf (c # s) = Inr (store_bytes buf c, s)"
  using assms by (cases "c = []") (auto simp: await_reply.simps store_bytes_def)

lemma await_reply_end [simp]: "await_reply silent buf [] = (if silent then Inl Blocked else Inr (buf, []))"
  by (simp add: await_reply.simps)

lemma await_reply_length:
  "await_reply silent buf s = Inr (buf', s') \<Longrightarrow> length buf = RULE_SIZE \<Longrightarrow> length buf' = RULE_SIZE"
proof (induction silent buf s rule: await_reply.induct)
  case (1 silent buf s)
  obtain c t where r: "recv RULE_SIZE s = (c, t)" by (cases "recv RULE_SIZE s")
  then have "length (store_bytes buf c) = RULE_SIZE"
    using recv_length [of RULE_SIZE s c t] "1.prems"(2) by (simp add: store_bytes_def)
  with 1 r show ?case
    by (subst (asm) (2) await_reply.simps) (auto simp: rbind_eq_Inr Let_def split: if_splits)
qed

lemma bzero_all [simp]: "length buf = n \<Longrightarrow> bzero n buf = replicate n NUL"
  by (simp add: bzero_def)

text \<open>Whatever the node answers, a completed exchange sends both rules and clears both arrays.\<close>

lemma setup_overlay_node_result:
  assumes "setup_overlay_node ip port fr dr silent s = Inr (io, fr', dr')"
    and "length fr = RULE_SIZE" "length dr = RULE_SIZE"
  shows "io = [Connect ip port, Send_Rule fr, Send_Rule dr, Close_Node] \<and>
    fr' = replicate RULE_SIZE NUL \<and> dr' = replicate RULE_SIZE NUL"
  using assms by (auto simp: setup_overlay_node_def rbind_eq_Inr initiate_overlay_node_comn_socket_def
      close_overlay_node_comn_def dest!: await_reply_length)

section \<open>The number of nodes\<close>

text \<open>\<^verbatim>\<open>select_overlay_nodes\<close> has an empty body: it leaves its output array as it was.\<close>

definition select_overlay_nodes :: "int \<Rightarrow> string list \<Rightarrow> string list \<Rightarrow> string list" where
  "select_overlay_nodes min_number_overlay_nodes all_nodes selected_nodes = selected_nodes"

datatype hop_report = Minimum_Warning | Enough

definition validate_number_of_hops :: "int \<Rightarrow> int \<Rightarrow> hop_report res" where
  "validate_number_of_hops num_responsive_hops min_number_of_nodes =
     (if num_responsive_hops < min_number_of_nodes then Inl (Exit (- 1))
      else if num_responsive_hops = min_number_of_nodes then Inr Minimum_Warning
      else Inr Enough)"

lemma validate_number_of_hops_iff:
  "validate_number_of_hops n m = Inl (Exit (- 1)) \<longleftrightarrow> n < m"
  by (simp add: validate_number_of_hops_def)

end
