(* ===== verification/Path_Monitoring.thy ===== *)
theory Path_Monitoring
  imports Alerts_Receiver Rule_Specs
begin

text \<open>
  \<^verbatim>\<open>MACHETE/SCMultipath/path_monitoring.c\<close>: the module that starts the alert receiver (DAR)
  and one Darshana client per overlay node, and stops them.
\<close>

section \<open>State\<close>

text \<open>
  The globals of the file: the socket of the DAR, its thread, the threads that run the
  Darshana clients (none until created), and the state of the DAR itself.  \<open>darshana_runs\<close>
  are the commands of all threads that were created, \<open>cancelled\<close> the threads that were cancelled.
\<close>

record path_monitor =
  dar_state :: dar
  alert_receiver_socket_fd :: int
  dar_socket_open :: bool
  dar_pthread_running :: bool
  sender_darshanas :: "string option list"
  darshana_runs :: "string list"
  cancelled :: "nat list"

abbreviation MAX_FLOWS :: nat where
  "MAX_FLOWS \<equiv> 20"

definition DAR_PORT :: int where
  "DAR_PORT = 10101"

section \<open>Operations\<close>

text \<open>\<open>err\<close> is what \<^verbatim>\<open>pthread_create\<close> returns.\<close>

definition start_dar_handler :: "int \<Rightarrow> path_monitor \<Rightarrow> path_monitor \<times> int" where
  "start_dar_handler err m = (m\<lparr>dar_pthread_running := dar_pthread_running m \<or> err = 0\<rparr>, err)"

definition start_path_monitoring_module ::
    "int \<Rightarrow> int \<Rightarrow> int \<Rightarrow> int \<Rightarrow> path_monitor \<Rightarrow> path_monitor res" where
  "start_path_monitoring_module sockfd bind_result err max_dar_alerts0 m =
     rbind (init_dar_socket sockfd bind_result) (\<lambda>fd.
       Inr (fst (start_dar_handler err
         (m\<lparr>dar_state := setup_dar (dar_state m) max_dar_alerts0,
            alert_receiver_socket_fd := fd, dar_socket_open := (0 \<le> fd)\<rparr>))))"

definition monitor_path :: "string \<Rightarrow> string \<Rightarrow> string \<Rightarrow> path_monitor \<Rightarrow> path_monitor res option" where
  "monitor_path sourceIp relayIp destinationIp m =
     cbind (add_monitored_path sourceIp relayIp destinationIp (dar_state m)) (\<lambda>(d, out).
       Some (Inr (m\<lparr>dar_state := d\<rparr>)))"

definition darshana_command :: "string \<Rightarrow> int \<Rightarrow> string \<Rightarrow> string \<Rightarrow> string \<Rightarrow> string res" where
  "darshana_command sender_dar_ip sender_dar_port sender_ip_assign_to_node node_darshana_addr node_darshana_port =
     build_string 500 ''cd '' [DARSHANA_RELATIVE_PATH, ''; sh run-client-broadcaster_args.sh '',
       DARSHANA_MONITORING_MODE, '' '', sender_ip_assign_to_node, '' '', node_darshana_addr, '' '',
       node_darshana_port, '' '', DARSHANA_METRICS_THRESHOLDS, '' '', sender_dar_ip, '','',
       dec_int sender_dar_port, '' >> darshana-client-node.out &'']"

text \<open>A thread passes its command to \<^verbatim>\<open>system\<close> and frees it.\<close>

definition run_darshana_in_thread :: "string \<Rightarrow> path_monitor \<Rightarrow> path_monitor" where
  "run_darshana_in_thread command m = m\<lparr>darshana_runs := darshana_runs m @ [command]\<rparr>"

declare run_darshana_in_thread_def [simp]

text \<open>The new thread's handle replaces that of an earlier one for the same node.\<close>

definition run_sender_darshana ::
    "string \<Rightarrow> int \<Rightarrow> string \<Rightarrow> string \<Rightarrow> string \<Rightarrow> nat \<Rightarrow> path_monitor \<Rightarrow> path_monitor res" where
  "run_sender_darshana sender_dar_ip sender_dar_port sender_ip_assign_to_node node_darshana_addr
       node_darshana_port hop_index m =
     rbind (darshana_command sender_dar_ip sender_dar_port sender_ip_assign_to_node node_darshana_addr
       node_darshana_port) (\<lambda>command.
     rbind (array_set (sender_darshanas m) hop_index (Some command)) (\<lambda>threads.
       Inr (run_darshana_in_thread command (m\<lparr>sender_darshanas := threads\<rparr>))))"

text \<open>
  Cancelling a thread that was never created is undefined; one that has ended may be
  cancelled again.
\<close>

definition kill_sender_darshana_pthreads :: "nat \<Rightarrow> path_monitor \<Rightarrow> path_monitor res" where
  "kill_sender_darshana_pthreads hop_index m =
     rbind (array_get (sender_darshanas m) hop_index) (\<lambda>t.
     rbind (case t of None \<Rightarrow> Inl BadPointer | Some c \<Rightarrow> Inr c) (\<lambda>c.
       Inr (m\<lparr>cancelled := cancelled m @ [hop_index]\<rparr>)))"

text \<open>
  \<^verbatim>\<open>pthread_kill(thread, 0)\<close> only checks whether the thread exists; it must have been created.
\<close>

definition pthread_kill_0 :: "path_monitor \<Rightarrow> path_monitor res" where
  "pthread_kill_0 m = (if dar_pthread_running m then Inr m else Inl BadPointer)"

definition end_dar_socket :: "path_monitor \<Rightarrow> path_monitor" where
  "end_dar_socket m = m\<lparr>dar_socket_open := False\<rparr>"

definition stop_path_monitoring_module :: "path_monitor \<Rightarrow> path_monitor res" where
  "stop_path_monitoring_module m = rbind (pthread_kill_0 m) (\<lambda>m'. Inr (end_dar_socket m'))"

lemmas stop_path_monitoring_module_def' = stop_path_monitoring_module_def [unfolded end_dar_socket_def]

section \<open>Lemmas\<close>

text \<open>The records of the monitored paths and the alerts so far.\<close>

abbreviation monitored :: "path_monitor \<Rightarrow> hijack_alert list \<Rightarrow> path_status list \<Rightarrow> bool" where
  "monitored m \<equiv> dar_rel (dar_state m)"

text \<open>Every path that is added is kept at the end of the list.\<close>

lemma monitor_path_appends:
  assumes "monitored m as ps"
  shows "\<exists>d. monitor_path s r t m = Some (Inr (m\<lparr>dar_state := d\<rparr>)) \<and>
    dar_rel d as (ps @ [new_path_status s r t]) \<and> max_dar_alerts d = max_dar_alerts (dar_state m)"
  using add_monitored_path_appends [OF assms, of s r t] by (auto simp: monitor_path_def)

text \<open>Starting the module forgets every path that was added before.\<close>

lemma start_forgets:
  assumes "monitored m as ps" "start_path_monitoring_module fd b err n m = Inr m'"
  shows "monitored m' [] []"
proof -
  have "wf_store (alerts_mem (alerts_mod (dar_state m)))" "wf_store (paths_mem (paths_mod (dar_state m)))"
    using assms(1) by (auto simp: dar_rel_def alert_history_def path_list_def)
  with assms(2) show ?thesis
    by (auto simp: start_path_monitoring_module_def start_dar_handler_def rbind_eq_Inr intro: dar_rel_setup)
qed

end
