(* ===== verification/Nat_Rules.thy ===== *)
theory Nat_Rules
  imports C_Strings "HOL-Library.Multiset"
begin

text \<open>
  \<^verbatim>\<open>MACHETE/SCNodeCode/on_rules_utils.c\<close> and \<^verbatim>\<open>MACHETE/SCMultipath/utils/rules_utils.c\<close>:
  the NAT rules of the overlay nodes and of the sender, as the sequences of shell
  commands that the functions pass to \<^verbatim>\<open>system\<close>.
\<close>

section \<open>The overlay node's rules\<close>

abbreviation COMMAND_SIZE :: nat where
  "COMMAND_SIZE \<equiv> 500"

definition forwardPaths :: "string \<Rightarrow> string \<Rightarrow> string \<Rightarrow> string \<Rightarrow> string list res" where
  "forwardPaths overlay_addr source_addr dest_addr dest_port =
     rbind (build_string COMMAND_SIZE ''iptables -t nat -A PREROUTING -p tcp --dport ''
              [dest_port, '' -s '', source_addr, '' -d '', overlay_addr,
               '' -j DNAT --to-destination '', dest_addr]) (\<lambda>command1.
     rbind (build_string COMMAND_SIZE ''iptables -t nat -A POSTROUTING -p tcp -s ''
              [source_addr, '' -d '', dest_addr, '' -j SNAT --to-source '', overlay_addr]) (\<lambda>command2.
     rbind (build_string COMMAND_SIZE ''iptables -t nat -A PREROUTING -p tcp --dport ''
              [dest_port, '' -s '', dest_addr, '' -d '', overlay_addr,
               '' -j DNAT --to-destination '', source_addr]) (\<lambda>command3.
     rbind (build_string COMMAND_SIZE ''iptables -t nat -A POSTROUTING -p tcp -s ''
              [dest_addr, '' -d '', source_addr, '' -j SNAT --to-source '', overlay_addr]) (\<lambda>command4.
       Inr [command1, command2, command3, command4]))))"

definition removeRules :: "string \<Rightarrow> string \<Rightarrow> string \<Rightarrow> string \<Rightarrow> string list res" where
  "removeRules overlay_addr source_addr dest_addr dest_port =
     rbind (build_string COMMAND_SIZE ''iptables -t nat -D PREROUTING -p tcp --dport ''
              [dest_port, '' -s '', source_addr, '' -d '', overlay_addr,
               '' -j DNAT --to-destination '', dest_addr]) (\<lambda>command1.
     rbind (build_string COMMAND_SIZE ''iptables -t nat -D POSTROUTING -p tcp -s ''
              [source_addr, '' -d '', dest_addr, '' -j SNAT --to-source '', overlay_addr]) (\<lambda>command2.
     rbind (build_string COMMAND_SIZE ''iptables -t nat -D PREROUTING -p tcp --dport ''
              [dest_port, '' -s '', dest_addr, '' -d '', overlay_addr,
               '' -j DNAT --to-destination '', source_addr]) (\<lambda>command3.
     rbind (build_string COMMAND_SIZE ''iptables -t nat -D POSTROUTING -p tcp -s ''
              [dest_addr, '' -d '', source_addr, '' -j SNAT --to-source '', overlay_addr]) (\<lambda>command4.
       Inr [command1, command2, command3, command4]))))"

definition flush_nat_iptables :: "string list" where
  "flush_nat_iptables = [''iptables -t nat -F'']"

section \<open>The sender's own rules\<close>

definition set_sender_own_rules_iptables :: "string \<Rightarrow> string \<Rightarrow> string \<Rightarrow> string list res" where
  "set_sender_own_rules_iptables sender_ip receiver_ip overlay_node_ip =
     rbind (build_string COMMAND_SIZE ''iptables -t nat -A PREROUTING -p tcp -s ''
              [sender_ip, '' -d '', receiver_ip, '' -j DNAT --to-destination '', overlay_node_ip]) (\<lambda>command1.
     rbind (build_string COMMAND_SIZE ''iptables -t nat -A OUTPUT -p tcp -s ''
              [sender_ip, '' -d '', receiver_ip, '' -j DNAT --to-destination '', overlay_node_ip]) (\<lambda>command2.
       Inr [command1, command2]))"

definition remove_sender_own_rules_iptables :: "string \<Rightarrow> string \<Rightarrow> string \<Rightarrow> string list res" where
  "remove_sender_own_rules_iptables sender_ip receiver_ip overlay_node_ip =
     rbind (build_string COMMAND_SIZE ''iptables -t nat -D PREROUTING -p tcp -s ''
              [sender_ip, '' -d '', receiver_ip, '' -j DNAT --to-destination '', overlay_node_ip]) (\<lambda>command1.
     rbind (build_string COMMAND_SIZE ''iptables -t nat -D OUTPUT -p tcp -s ''
              [sender_ip, '' -d '', receiver_ip, '' -j DNAT --to-destination '', overlay_node_ip]) (\<lambda>command2.
       Inr [command1, command2]))"

section \<open>What the commands are about\<close>

text \<open>
  A rule is a chain and the text of its specification.  The functions above only ever
  append a rule to or delete a rule from a chain of the \<^verbatim>\<open>nat\<close> table.
\<close>

type_synonym rule = "string \<times> string"

definition append_cmd :: "rule \<Rightarrow> string" where
  "append_cmd r = ''iptables -t nat -A '' @ fst r @ '' '' @ snd r"

definition delete_cmd :: "rule \<Rightarrow> string" where
  "delete_cmd r = ''iptables -t nat -D '' @ fst r @ '' '' @ snd r"

definition nat_chains :: "string set" where
  "nat_chains = {''PREROUTING'', ''POSTROUTING'', ''OUTPUT''}"

text \<open>Text that a shell takes as plain words: no metacharacter can start a new command.\<close>

definition plain_char :: "char \<Rightarrow> bool" where
  "plain_char c \<longleftrightarrow>
     (let n = (of_char c :: nat) in
      (48 \<le> n \<and> n \<le> 57) \<or> (65 \<le> n \<and> n \<le> 90) \<or> (97 \<le> n \<and> n \<le> 122)) \<or>
     c \<in> {CHR '' '', CHR ''.'', CHR ''-'', CHR '':'', CHR ''/'', CHR '','', CHR ''_''}"

definition plain :: "string \<Rightarrow> bool" where
  "plain s \<longleftrightarrow> list_all plain_char s"

lemma plain_append [simp]: "plain (s @ t) \<longleftrightarrow> plain s \<and> plain t"
  by (simp add: plain_def)

lemma plain_Cons [simp]: "plain (c # s) \<longleftrightarrow> plain_char c \<and> plain s"
  by (simp add: plain_def)

lemma plain_Nil [simp]: "plain []"
  by (simp add: plain_def)

text \<open>
  The documented behaviour of \<^verbatim>\<open>iptables\<close> that the program relies on, for a function
  \<open>exec\<close> that runs a command: \<open>-A\<close> appends the rule that the specification denotes,
  \<open>-D\<close> deletes the first rule equal to it, and a specification that is not accepted
  (\<open>denote s = None\<close>) changes nothing.  The table \<open>'t\<close>, the rules \<open>'r\<close> and \<open>exec\<close> are
  not part of the program and stay parameters.
\<close>

definition iptables_semantics ::
    "(string \<Rightarrow> 't \<Rightarrow> 't) \<Rightarrow> (string \<Rightarrow> 'r option) \<Rightarrow> ('t \<Rightarrow> string \<Rightarrow> 'r list) \<Rightarrow> bool" where
  "iptables_semantics exec denote chain \<longleftrightarrow>
     (\<forall>c s t. c \<in> nat_chains \<longrightarrow> plain s \<longrightarrow>
        chain (exec (append_cmd (c, s)) t) =
          (case denote s of None \<Rightarrow> chain t | Some r \<Rightarrow> (chain t)(c := chain t c @ [r])) \<and>
        chain (exec (delete_cmd (c, s)) t) =
          (case denote s of None \<Rightarrow> chain t | Some r \<Rightarrow> (chain t)(c := remove1 r (chain t c))))"

text \<open>The rules of one chain that a list of rule texts denotes.\<close>

definition denoted :: "(string \<Rightarrow> 'r option) \<Rightarrow> string \<Rightarrow> rule list \<Rightarrow> 'r list" where
  "denoted denote c rs =
     List.map_filter (\<lambda>r. denote (snd r)) (filter (\<lambda>r. fst r = c) rs)"

definition proper_rules :: "rule list \<Rightarrow> bool" where
  "proper_rules rs \<longleftrightarrow> list_all (\<lambda>r. fst r \<in> nat_chains \<and> plain (snd r)) rs"

lemma denoted_simps:
  "denoted denote c [] = []"
  "denoted denote c (r # rs) =
     (if fst r = c then (case denote (snd r) of None \<Rightarrow> [] | Some x \<Rightarrow> [x]) else []) @ denoted denote c rs"
  by (auto simp: denoted_def List.map_filter_def split: option.splits)

lemma denoted_append: "denoted denote c (rs @ rs') = denoted denote c rs @ denoted denote c rs'"
  by (induction rs) (auto simp: denoted_simps)

lemma proper_rules_simps [simp]:
  "proper_rules []" "proper_rules (r # rs) \<longleftrightarrow> fst r \<in> nat_chains \<and> plain (snd r) \<and> proper_rules rs"
  "proper_rules (rs @ rs') \<longleftrightarrow> proper_rules rs \<and> proper_rules rs'"
  by (auto simp: proper_rules_def)

lemma exec_appends:
  assumes "iptables_semantics exec denote chain" "proper_rules rs"
  shows "chain (fold exec (map append_cmd rs) t) c = chain t c @ denoted denote c rs"
  using assms(2)
proof (induction rs arbitrary: t)
  case (Cons r rs)
  obtain c' s where r: "r = (c', s)" by (cases r)
  have "chain (exec (append_cmd (c', s)) t) =
      (case denote s of None \<Rightarrow> chain t | Some x \<Rightarrow> (chain t)(c' := chain t c' @ [x]))"
    using assms(1) Cons.prems r by (simp add: iptables_semantics_def)
  with Cons r show ?case by (auto simp: denoted_simps split: option.splits)
qed (simp add: denoted_simps)

lemma exec_deletes:
  assumes "iptables_semantics exec denote chain" "proper_rules rs"
  shows "mset (chain (fold exec (map delete_cmd rs) t) c) = mset (chain t c) - mset (denoted denote c rs)"
  using assms(2)
proof (induction rs arbitrary: t)
  case (Cons r rs)
  obtain c' s where r: "r = (c', s)" by (cases r)
  have "chain (exec (delete_cmd (c', s)) t) =
      (case denote s of None \<Rightarrow> chain t | Some x \<Rightarrow> (chain t)(c' := remove1 x (chain t c')))"
    using assms(1) Cons.prems r by (simp add: iptables_semantics_def)
  with Cons r show ?case by (auto simp: denoted_simps split: option.splits)
qed (simp add: denoted_simps)

text \<open>Deleting what was appended, in whatever order, restores every chain up to order.\<close>

lemma delete_undoes_append:
  assumes "iptables_semantics exec denote chain" "proper_rules rs" "proper_rules rs'"
    and "mset (denoted denote c rs) = mset (denoted denote c rs')"
  shows "mset (chain (fold exec (map delete_cmd rs') (fold exec (map append_cmd rs) t)) c) = mset (chain t c)"
  using exec_appends [OF assms(1,2)] exec_deletes [OF assms(1,3)] assms(4) by simp

text \<open>Deleting an initial part of what was appended leaves the others.\<close>

lemma delete_prefix:
  assumes "iptables_semantics exec denote chain" "proper_rules (rs @ rs')"
  shows "mset (chain (fold exec (map append_cmd (rs @ rs') @ map delete_cmd rs) t) c) =
    mset (chain t c) + mset (denoted denote c rs')"
proof -
  have "proper_rules rs" using assms(2) by simp
  from exec_deletes [OF assms(1) this, of "fold exec (map append_cmd (rs @ rs')) t" c] exec_appends [OF assms, of t c]
  show ?thesis by (simp add: denoted_append)
qed

text \<open>
  A chain that held none of the rules is restored exactly.
\<close>

lemma remove1_fresh: "x \<notin> set xs \<Longrightarrow> remove1 x (xs @ x # ys) = xs @ ys"
  by (induction xs) auto

lemma exec_deletes_fresh:
  assumes "iptables_semantics exec denote chain" "proper_rules rs"
    and "chain t c = xs @ denoted denote c rs" "set xs \<inter> set (denoted denote c rs) = {}"
  shows "chain (fold exec (map delete_cmd rs) t) c = xs"
  using assms(2-)
proof (induction rs arbitrary: t)
  case (Cons r rs)
  obtain c' s where r: "r = (c', s)" by (cases r)
  have e: "chain (exec (delete_cmd (c', s)) t) =
      (case denote s of None \<Rightarrow> chain t | Some x \<Rightarrow> (chain t)(c' := remove1 x (chain t c')))"
    using assms(1) Cons.prems r by (simp add: iptables_semantics_def)
  have "chain (exec (delete_cmd r) t) c = xs @ denoted denote c rs"
  proof (cases "c' = c")
    case True
    show ?thesis
    proof (cases "denote s")
      case None
      with e Cons.prems r True show ?thesis by (simp add: denoted_simps)
    next
      case (Some x)
      with Cons.prems r True have "chain t c = xs @ x # denoted denote c rs" "x \<notin> set xs"
        by (simp_all add: denoted_simps)
      with e r True Some show ?thesis by (simp add: remove1_fresh)
    qed
  next
    case False
    then have "c \<noteq> c'" by simp
    then have "chain (exec (delete_cmd (c', s)) t) c = chain t c"
      unfolding e by (cases "denote s") simp_all
    with Cons.prems r False show ?thesis by (simp add: denoted_simps)
  qed
  moreover have "set xs \<inter> set (denoted denote c rs) = {}"
    using Cons.prems(3) unfolding denoted_simps set_append by blast
  ultimately show ?case using Cons.IH Cons.prems(1) by auto
qed (simp add: denoted_simps)

text \<open>
  Commands that restore the NAT table: every chain holds the same rules as before, each as
  often, and a chain that held none of the rules \<open>rs\<close> before is exactly as it was.  (An equal
  rule that was there before may change its place, since \<open>-D\<close> deletes the first one.)
\<close>

definition restores ::
    "(string \<Rightarrow> 't \<Rightarrow> 't) \<Rightarrow> (string \<Rightarrow> 'r option) \<Rightarrow> ('t \<Rightarrow> string \<Rightarrow> 'r list) \<Rightarrow> rule list \<Rightarrow> string list \<Rightarrow> bool" where
  "restores exec denote chain rs cs \<longleftrightarrow> (\<forall>t c. mset (chain (fold exec cs t) c) = mset (chain t c) \<and>
     (set (chain t c) \<inter> set (denoted denote c rs) = {} \<longrightarrow> chain (fold exec cs t) c = chain t c))"

lemma removal_restores:
  assumes "iptables_semantics exec denote chain" "proper_rules rs"
  shows "restores exec denote chain rs (map append_cmd rs @ map delete_cmd rs)"
  unfolding restores_def fold_append comp_apply
  using delete_undoes_append [OF assms(1,2,2) refl]
    exec_deletes_fresh [OF assms exec_appends [OF assms]] by blast

section \<open>Installing and removing as an interface\<close>

text \<open>
  What a pair of functions that install and remove rules promises: both succeed on the
  same inputs, and then the one appends exactly the rules the other deletes.
\<close>

locale rule_pair =
  fixes install :: "'k \<Rightarrow> string list res"
    and remove :: "'k \<Rightarrow> string list res"
    and rules :: "'k \<Rightarrow> rule list"
    and fits :: "'k \<Rightarrow> bool"
    and plain_key :: "'k \<Rightarrow> bool"
  assumes install_eq: "install k = (if fits k then Inr (map append_cmd (rules k)) else Inl BufferOverflow)"
    and remove_eq: "remove k = (if fits k then Inr (map delete_cmd (rules k)) else Inl BufferOverflow)"
    and rules_proper: "plain_key k \<Longrightarrow> proper_rules (rules k)"
begin

text \<open>Installing for a list of keys, then removing for the same keys in the same order.\<close>

definition all_rules :: "'k list \<Rightarrow> rule list" where
  "all_rules ks = concat (map rules ks)"

lemma all_rules_proper: "list_all plain_key ks \<Longrightarrow> proper_rules (all_rules ks)"
  by (induction ks) (auto simp: all_rules_def rules_proper)

lemma install_all:
  "list_all fits ks \<Longrightarrow> concat (map (\<lambda>k. projr (install k)) ks) = map append_cmd (all_rules ks)"
  by (induction ks) (auto simp: all_rules_def install_eq)

lemma remove_all:
  "list_all fits ks \<Longrightarrow> concat (map (\<lambda>k. projr (remove k)) ks) = map delete_cmd (all_rules ks)"
  by (induction ks) (auto simp: all_rules_def remove_eq)

lemma restores:
  assumes "iptables_semantics exec denote chain" "list_all fits ks" "list_all plain_key ks"
    and "mset ks = mset ks'"
  shows "mset (chain (fold exec (concat (map (\<lambda>k. projr (remove k)) ks'))
                 (fold exec (concat (map (\<lambda>k. projr (install k)) ks)) t)) c) = mset (chain t c)"
proof -
  have ks': "list_all fits ks'" "list_all plain_key ks'"
    using assms(2-4) by (metis list_all_iff set_mset_mset)+
  have "mset (denoted denote c (all_rules ks)) = (\<Sum>k \<in># mset ks. mset (denoted denote c (rules k)))" for ks
    by (induction ks) (auto simp: all_rules_def denoted_append denoted_simps)
  then have "mset (denoted denote c (all_rules ks)) = mset (denoted denote c (all_rules ks'))"
    using assms(4) by simp
  with delete_undoes_append [OF assms(1) all_rules_proper [OF assms(3)] all_rules_proper [OF ks'(2)]]
  show ?thesis by (simp add: install_all [OF assms(2)] remove_all [OF ks'(1)])
qed

lemma install_then_remove:
  assumes "iptables_semantics exec denote chain" "plain_key k"
    and "install k = Inr as" "remove k = Inr ds"
    and "\<forall>c. set (chain t c) \<inter> set (denoted denote c (rules k)) = {}"
  shows "chain (fold exec ds (fold exec as t)) = chain t"
proof
  fix c
  have as: "as = map append_cmd (rules k)" and ds: "ds = map delete_cmd (rules k)"
    using assms(3,4) by (auto simp: install_eq remove_eq split: if_splits)
  have p: "proper_rules (rules k)" using assms(2) by (rule rules_proper)
  show "chain (fold exec ds (fold exec as t)) c = chain t c"
    unfolding as ds
    by (rule exec_deletes_fresh [OF assms(1) p exec_appends [OF assms(1) p]]) (use assms(5) in blast)
qed

end

definition node_rules :: "string \<times> string \<times> string \<times> string \<Rightarrow> rule list" where
  "node_rules k = (case k of (ov, src, dst, port) \<Rightarrow>
     [(''PREROUTING'', ''-p tcp --dport '' @ port @ '' -s '' @ src @ '' -d '' @ ov @
                       '' -j DNAT --to-destination '' @ dst),
      (''POSTROUTING'', ''-p tcp -s '' @ src @ '' -d '' @ dst @ '' -j SNAT --to-source '' @ ov),
      (''PREROUTING'', ''-p tcp --dport '' @ port @ '' -s '' @ dst @ '' -d '' @ ov @
                       '' -j DNAT --to-destination '' @ src),
      (''POSTROUTING'', ''-p tcp -s '' @ dst @ '' -d '' @ src @ '' -j SNAT --to-source '' @ ov)])"

definition sender_rules :: "string \<times> string \<times> string \<Rightarrow> rule list" where
  "sender_rules k = (case k of (src, dst, hop) \<Rightarrow>
     [(''PREROUTING'', ''-p tcp -s '' @ src @ '' -d '' @ dst @ '' -j DNAT --to-destination '' @ hop),
      (''OUTPUT'', ''-p tcp -s '' @ src @ '' -d '' @ dst @ '' -j DNAT --to-destination '' @ hop)])"

definition node_fits :: "string \<times> string \<times> string \<times> string \<Rightarrow> bool" where
  "node_fits k = (case k of (ov, src, dst, port) \<Rightarrow>
     length port + length src + length ov + length dst < 421 \<and>
     length src + length dst + length ov < 434)"

definition sender_fits :: "string \<times> string \<times> string \<Rightarrow> bool" where
  "sender_fits k = (case k of (src, dst, hop) \<Rightarrow> length src + length dst + length hop < 430)"

text \<open>The copies fit exactly when their total length does.\<close>

lemma forwardPaths_eq:
  "forwardPaths ov src dst port =
     (if node_fits (ov, src, dst, port) then Inr (map append_cmd (node_rules (ov, src, dst, port)))
      else Inl BufferOverflow)"
  by (simp add: forwardPaths_def build_string_eq rbind_if node_rules_def node_fits_def append_cmd_def ac_simps)

lemma removeRules_eq:
  "removeRules ov src dst port =
     (if node_fits (ov, src, dst, port) then Inr (map delete_cmd (node_rules (ov, src, dst, port)))
      else Inl BufferOverflow)"
  by (simp add: removeRules_def build_string_eq rbind_if node_rules_def node_fits_def delete_cmd_def ac_simps)

lemma set_sender_own_rules_iptables_eq:
  "set_sender_own_rules_iptables src dst hop =
     (if sender_fits (src, dst, hop) then Inr (map append_cmd (sender_rules (src, dst, hop)))
      else Inl BufferOverflow)"
  by (simp add: set_sender_own_rules_iptables_def build_string_eq rbind_if sender_rules_def
        sender_fits_def append_cmd_def ac_simps)

lemma remove_sender_own_rules_iptables_eq:
  "remove_sender_own_rules_iptables src dst hop =
     (if sender_fits (src, dst, hop) then Inr (map delete_cmd (sender_rules (src, dst, hop)))
      else Inl BufferOverflow)"
  by (simp add: remove_sender_own_rules_iptables_def build_string_eq rbind_if sender_rules_def
        sender_fits_def delete_cmd_def ac_simps)

lemma node_rules_proper:
  "plain ov \<Longrightarrow> plain src \<Longrightarrow> plain dst \<Longrightarrow> plain port \<Longrightarrow> proper_rules (node_rules (ov, src, dst, port))"
  by (simp add: node_rules_def nat_chains_def plain_char_def)

lemma sender_rules_proper:
  "plain src \<Longrightarrow> plain dst \<Longrightarrow> plain hop \<Longrightarrow> proper_rules (sender_rules (src, dst, hop))"
  by (simp add: sender_rules_def nat_chains_def plain_char_def)

interpretation node_nat: rule_pair
    "\<lambda>(ov, src, dst, port). forwardPaths ov src dst port"
    "\<lambda>(ov, src, dst, port). removeRules ov src dst port"
    node_rules node_fits
    "\<lambda>(ov, src, dst, port). plain ov \<and> plain src \<and> plain dst \<and> plain port"
  by unfold_locales (auto simp: forwardPaths_eq removeRules_eq node_rules_proper split: prod.splits)

interpretation sender_nat: rule_pair
    "\<lambda>(src, dst, hop). set_sender_own_rules_iptables src dst hop"
    "\<lambda>(src, dst, hop). remove_sender_own_rules_iptables src dst hop"
    sender_rules sender_fits "\<lambda>(src, dst, hop). plain src \<and> plain dst \<and> plain hop"
  by unfold_locales (auto simp: set_sender_own_rules_iptables_eq remove_sender_own_rules_iptables_eq
    sender_rules_proper split: prod.splits)

text \<open>
  A concrete table for the witnesses: chains as lists of rule texts, with commands
  recognised by their text.
\<close>

definition text_exec :: "string \<Rightarrow> (string \<Rightarrow> string list) \<Rightarrow> (string \<Rightarrow> string list)" where
  "text_exec cmd t =
     (let body = drop 16 cmd; rest = drop 3 body;
          c = takeWhile (\<lambda>x. x \<noteq> CHR '' '') rest; s = drop (Suc (length c)) rest in
      if take 3 body = ''-A '' then t(c := t c @ [s])
      else if take 3 body = ''-D '' then t(c := remove1 s (t c))
      else t)"

lemma text_exec_semantics: "iptables_semantics text_exec Some id"
  by (auto simp: iptables_semantics_def text_exec_def append_cmd_def delete_cmd_def nat_chains_def Let_def)

end
