(* ===== verification/Virtual_Interfaces.thy ===== *)
theory Virtual_Interfaces
  imports C_Strings
begin

text \<open>
  \<^verbatim>\<open>MACHETE/SCMultipath/utils/virtual_int_utils.c\<close>: reading the local interfaces, and the
  aliases and virtual interfaces that give a sender one source address per overlay node.
\<close>

section \<open>Local interfaces\<close>

text \<open>
  An entry of \<^verbatim>\<open>getifaddrs\<close>: the name, and the address (none for some interfaces) as its
  family and the text that \<^verbatim>\<open>inet_ntoa\<close> gives for it.
\<close>

record ifaddrs =
  ifa_name :: string
  ifa_addr :: "(int \<times> string) option"

abbreviation AF_INET :: int where
  "AF_INET \<equiv> 2"

text \<open>
  \<^verbatim>\<open>strcmp("lo", name) != 0 && strcmp("lo0", name) && ifa_addr->sa_family == AF_INET\<close>, and
  the address if so.
\<close>

definition inet_address :: "ifaddrs \<Rightarrow> string option res" where
  "inet_address ifa =
     (if ifa_name ifa = ''lo'' \<or> ifa_name ifa = ''lo0'' then Inr None
      else rbind (nonnull (ifa_addr ifa)) (\<lambda>(family, addr).
        Inr (if family = AF_INET then Some addr else None)))"

fun interfaces_loop :: "ifaddrs list \<Rightarrow> nat \<Rightarrow> string \<Rightarrow> string list \<Rightarrow> (string \<times> string list \<times> nat) res" where
  "interfaces_loop [] i primary_interface srcs = Inr (primary_interface, srcs, i)"
| "interfaces_loop (ifa # ifas) i primary_interface srcs =
     rbind (inet_address ifa) (\<lambda>a.
       case a of
         None \<Rightarrow> interfaces_loop ifas i primary_interface srcs
       | Some addr \<Rightarrow>
           rbind (strcpy 10 (ifa_name ifa)) (\<lambda>p.
           rbind (strcpy 20 addr) (\<lambda>addr'.
           rbind (array_set srcs i addr') (\<lambda>srcs'.
           interfaces_loop ifas (Suc i) p srcs'))))"

text \<open>The new name of the primary interface, the source addresses and their number.\<close>

definition get_local_interfaces :: "ifaddrs list \<Rightarrow> string \<Rightarrow> string list \<Rightarrow> (string \<times> string list \<times> nat) res" where
  "get_local_interfaces ifap primary_interface srcs = interfaces_loop ifap 0 primary_interface srcs"

section \<open>Aliases\<close>

text \<open>The search for the primary interface; \<^verbatim>\<open>addr\<close> stays uninitialised without it.\<close>

fun find_primary :: "string \<Rightarrow> ifaddrs list \<Rightarrow> string res" where
  "find_primary primary_interface [] = Inl Uninitialised"
| "find_primary primary_interface (ifa # ifas) =
     (if ifa_name ifa = primary_interface
      then rbind (nonnull (ifa_addr ifa)) (\<lambda>(family, addr).
        if family = AF_INET then strcpy 20 addr else find_primary primary_interface ifas)
      else find_primary primary_interface ifas)"

text \<open>
  The loop that looks for a free address: the last part grows by \<open>addition\<close> until a ping
  fails.  \<open>answers t a\<close> is the result of the \<open>t\<close>-th ping.
\<close>

partial_function (option) alias_loop ::
    "(nat \<Rightarrow> string \<Rightarrow> bool) \<Rightarrow> nat \<Rightarrow> string \<Rightarrow> string \<Rightarrow> string \<Rightarrow> int \<Rightarrow> string \<Rightarrow> (string \<times> string) res option" where
  "alias_loop answers t pt1 pt2 pt3 addition pt4 =
     cbind (Some (strcpy 4 (dec_int (atoi pt4 + addition)))) (\<lambda>pt4'.
     cbind (Some (build_string 20 pt1 [''.'', pt2, ''.'', pt3, ''.'', pt4'])) (\<lambda>addr.
       if answers t addr then alias_loop answers (Suc t) pt1 pt2 pt3 addition pt4'
       else Some (Inr (pt4', addr))))"

definition create_virtual_ifconfig ::
    "(nat \<Rightarrow> string \<Rightarrow> bool) \<Rightarrow> ifaddrs list \<Rightarrow> int \<Rightarrow> string \<Rightarrow> string res option" where
  "create_virtual_ifconfig answers ifap addition primary_interface =
     cbind (Some (find_primary primary_interface ifap)) (\<lambda>addr.
     let (t1, s1) = strtok ''.'' addr; (t2, s2) = strtok ''.'' s1;
         (t3, s3) = strtok ''.'' s2; (t4, s4) = strtok ''.'' s3 in
     cbind (Some (rbind (nonnull t1) (strcpy 4))) (\<lambda>pt1.
     cbind (Some (rbind (nonnull t2) (strcpy 4))) (\<lambda>pt2.
     cbind (Some (rbind (nonnull t3) (strcpy 4))) (\<lambda>pt3.
     cbind (Some (rbind (nonnull t4) (strcpy 4))) (\<lambda>pt4.
     cbind (alias_loop answers 0 pt1 pt2 pt3 addition pt4) (\<lambda>(pt4', addr').
     Some (build_string 100 ''ifconfig '' [primary_interface, '':'', pt4', '' '', addr'])))))))"

section \<open>Virtual interfaces\<close>

text \<open>
  \<^verbatim>\<open>number\<close> has one character and \<^verbatim>\<open>interface\<close> holds \<^verbatim>\<open>"mpc"\<close> in four.
\<close>

definition create_virtual_interface :: "int \<Rightarrow> string \<Rightarrow> string list res" where
  "create_virtual_interface now primary_interface =
     rbind (strcpy 1 (dec_int now)) (\<lambda>number.
     rbind (strcat 4 ''mpc'' number) (\<lambda>interface.
     rbind (build_string 100 ''ip link add name '' [interface, '' link '', primary_interface, '' type macvlan'']) (\<lambda>c1.
     rbind (build_string 100 ''ip link set dev '' [interface, '' up'']) (\<lambda>c2.
     rbind (build_string 100 ''dhclient '' [interface]) (\<lambda>c3.
       Inr [c1, c2, c3])))))"

definition delete_interface :: "string \<Rightarrow> string list res" where
  "delete_interface interface =
     rbind (build_string 100 ''ifconfig '' [interface, '' down'']) (\<lambda>c1.
     rbind (build_string 100 ''ip link delete dev '' [interface]) (\<lambda>c2.
       Inr [c1, c2]))"

fun clean_virtual_interfaces :: "ifaddrs list \<Rightarrow> string list res" where
  "clean_virtual_interfaces [] = Inr []"
| "clean_virtual_interfaces (ifa # ifas) =
     rbind (inet_address ifa) (\<lambda>a.
     rbind (if a = None then Inr []
            else rbind (strcpy 20 (ifa_name ifa)) (\<lambda>interface.
              if strchr interface (CHR ''m'') then delete_interface interface else Inr [])) (\<lambda>cs.
     rbind (clean_virtual_interfaces ifas) (\<lambda>rest. Inr (cs @ rest))))"

section \<open>Properties\<close>

text \<open>What \<^verbatim>\<open>getifaddrs\<close> may return for the functions to be safe.\<close>

definition inet_ok :: "ifaddrs \<Rightarrow> bool" where
  "inet_ok ifa \<longleftrightarrow> ifa_addr ifa \<noteq> None \<and> length (ifa_name ifa) < 10 \<and>
     (\<forall>f a. ifa_addr ifa = Some (f, a) \<longrightarrow> length a < 20)"

definition usable :: "ifaddrs \<Rightarrow> bool" where
  "usable ifa \<longleftrightarrow> ifa_name ifa \<noteq> ''lo'' \<and> ifa_name ifa \<noteq> ''lo0'' \<and> fst (the (ifa_addr ifa)) = AF_INET"

lemma inet_address_ok:
  "inet_ok ifa \<Longrightarrow> inet_address ifa = Inr (if usable ifa then Some (snd (the (ifa_addr ifa))) else None)"
  by (auto simp: inet_address_def usable_def inet_ok_def)

lemma interfaces_loop_exact:
  assumes "list_all inet_ok ifap" "i + length (filter usable ifap) \<le> length srcs"
  shows "interfaces_loop ifap i p srcs =
    Inr (last (p # map ifa_name (filter usable ifap)),
         take i srcs @ map (\<lambda>ifa. snd (the (ifa_addr ifa))) (filter usable ifap) @
           drop (i + length (filter usable ifap)) srcs,
         i + length (filter usable ifap))"
  using assms
proof (induction ifap arbitrary: i p srcs)
  case (Cons ifa ifap)
  show ?case
  proof (cases "usable ifa")
    case True
    with Cons.prems have "ifa_addr ifa \<noteq> None" "length (ifa_name ifa) < 10" "length (snd (the (ifa_addr ifa))) < 20"
      by (auto simp: inet_ok_def)
    with True Cons show ?thesis
      by (simp add: inet_address_ok strcpy_def take_Suc_conv_app_nth)
  qed (use Cons in \<open>simp add: inet_address_ok\<close>)
qed simp

lemma interfaces_loop_overrun:
  assumes "list_all inet_ok ifap" "i \<le> length srcs" "length srcs < i + length (filter usable ifap)"
  shows "interfaces_loop ifap i p srcs = Inl OutOfBounds"
  using assms
proof (induction ifap arbitrary: i p srcs)
  case (Cons ifa ifap)
  show ?case
  proof (cases "usable ifa")
    case True
    with Cons.prems have l: "length (ifa_name ifa) < 10" "length (snd (the (ifa_addr ifa))) < 20"
      by (auto simp: inet_ok_def)
    with True Cons.prems Cons.IH [of "Suc i" "srcs[i := snd (the (ifa_addr ifa))]" "ifa_name ifa"] show ?thesis
      by (cases "i < length srcs") (simp_all add: inet_address_ok strcpy_def)
  qed (use Cons in \<open>simp add: inet_address_ok\<close>)
qed simp

lemma local_interfaces_found:
  assumes "list_all inet_ok ifap" "length (filter usable ifap) \<le> length srcs"
  shows "get_local_interfaces ifap p srcs =
    Inr (last (p # map ifa_name (filter usable ifap)),
         map (\<lambda>ifa. snd (the (ifa_addr ifa))) (filter usable ifap) @ drop (length (filter usable ifap)) srcs,
         length (filter usable ifap))"
  using interfaces_loop_exact [OF assms(1), of 0 srcs p] assms(2) by (simp add: get_local_interfaces_def)

text \<open>The sender takes the addresses of all IPv4 interfaces other than the loopback, in order,
  as its sources, and the last of them as its primary interface.\<close>

theorem local_interfaces_exact:
  assumes "list_all inet_ok ifap" "length (filter usable ifap) \<le> length srcs"
  shows "get_local_interfaces ifap p srcs =
    Inr (last (p # map ifa_name (filter usable ifap)),
         map (\<lambda>ifa. snd (the (ifa_addr ifa))) (filter usable ifap) @ drop (length (filter usable ifap)) srcs,
         length (filter usable ifap))"
  by (rule local_interfaces_found [OF assms])

definition sample_interfaces :: "ifaddrs list" where
  "sample_interfaces =
     [\<lparr>ifa_name = ''lo'', ifa_addr = Some (2, ''127.0.0.1'')\<rparr>,
      \<lparr>ifa_name = ''eth0'', ifa_addr = Some (2, ''10.0.0.1'')\<rparr>,
      \<lparr>ifa_name = ''eth0'', ifa_addr = Some (10, '''')\<rparr>,
      \<lparr>ifa_name = ''wlan0'', ifa_addr = Some (2, ''10.0.1.1'')\<rparr>]"

theorem local_interfaces_exact_witness:
  "get_local_interfaces sample_interfaces ''none'' [''a'', ''b'', ''c''] =
    Inr (''wlan0'', [''10.0.0.1'', ''10.0.1.1'', ''c''], 2)"
  using local_interfaces_exact [of sample_interfaces "[''a'', ''b'', ''c'']" "''none''"]
  by (simp add: sample_interfaces_def inet_ok_def usable_def)

section \<open>The search for a free address\<close>

abbreviation ipv4 :: "int \<Rightarrow> int \<Rightarrow> int \<Rightarrow> int \<Rightarrow> string" where
  "ipv4 a b c d \<equiv> dec_int a @ ''.'' @ dec_int b @ ''.'' @ dec_int c @ ''.'' @ dec_int d"

lemma dec_int_octet: "0 \<le> v \<Longrightarrow> v < 1000 \<Longrightarrow> length (dec_int v) \<le> 3"
  using length_dec_nat [of "nat v" 3] by (simp add: dec_int_nonneg nat_less_iff)

lemma dec_nat_bound: "n < 10 ^ length (dec_nat n)"
proof (induction n rule: dec_nat.induct)
  case (1 n)
  then show ?case by (cases "n < 10") (simp_all add: dec_nat.simps [of n])
qed

lemma dec_int_short: "0 \<le> v \<Longrightarrow> length (dec_int v) < 4 \<Longrightarrow> v < 1000"
proof -
  assume v: "0 \<le> v" "length (dec_int v) < 4"
  then have "nat v < 10 ^ length (dec_nat (nat v))" "length (dec_nat (nat v)) \<le> 3"
    using dec_nat_bound [of "nat v"] by (simp_all add: dec_int_nonneg)
  then have "nat v < 10 ^ 3"
    by (metis less_le_trans one_le_numeral power_increasing)
  with v(1) show ?thesis by simp
qed

lemma dot_token [simp]: "0 \<le> v \<Longrightarrow> token ''.'' (dec_int v)"
  by (rule dec_nonneg_token) (auto simp: is_digit_def)

lemma alias_loop_found:
  assumes "0 \<le> a" "a < 256" "0 \<le> b" "b < 256" "0 \<le> c" "c < 256" "0 \<le> n"
  shows "0 \<le> v \<Longrightarrow> v + (int k + 1) * n < 1000 \<Longrightarrow>
    \<forall>j<k. answers (t + j) (ipv4 a b c (v + (int j + 1) * n)) \<Longrightarrow>
    \<not> answers (t + k) (ipv4 a b c (v + (int k + 1) * n)) \<Longrightarrow>
    alias_loop answers t (dec_int a) (dec_int b) (dec_int c) n (dec_int v) =
      Some (Inr (dec_int (v + (int k + 1) * n), ipv4 a b c (v + (int k + 1) * n)))"
proof (induction k arbitrary: t v)
  case 0
  then show ?case
    using assms dec_int_octet [of a] dec_int_octet [of b] dec_int_octet [of c] dec_int_octet [of "v + n"]
    by (subst alias_loop.simps) (simp add: atoi_dec_int strcpy_def build_string_eq)
next
  case (Suc k)
  have e: "v + (int (Suc k) + 1) * n = (v + n) + (int k + 1) * n" by (simp add: algebra_simps)
  have le: "0 \<le> (int k + 1) * n" using assms(7) by simp
  have v: "0 \<le> v + n" "v + n < 1000" using Suc.prems(1,2) assms(7) le unfolding e by linarith+
  have first: "answers t (ipv4 a b c (v + n))" using Suc.prems(3) by force
  have "\<forall>j<k. answers (Suc t + j) (ipv4 a b c (v + n + (int j + 1) * n))"
  proof (intro allI impI)
    fix j assume "j < k"
    then have "answers (t + Suc j) (ipv4 a b c (v + (int (Suc j) + 1) * n))" using Suc.prems(3) by blast
    moreover have "v + (int (Suc j) + 1) * n = v + n + (int j + 1) * n" by (simp add: algebra_simps)
    ultimately show "answers (Suc t + j) (ipv4 a b c (v + n + (int j + 1) * n))" by (metis add_Suc_right add_Suc)
  qed
  moreover have "\<not> answers (Suc t + k) (ipv4 a b c (v + n + (int k + 1) * n))"
    using Suc.prems(4) unfolding e by simp
  ultimately have "alias_loop answers (Suc t) (dec_int a) (dec_int b) (dec_int c) n (dec_int (v + n)) =
      Some (Inr (dec_int (v + n + (int k + 1) * n), ipv4 a b c (v + n + (int k + 1) * n)))"
    using Suc.IH [of "v + n" "Suc t"] v Suc.prems(2) unfolding e by blast
  moreover have "alias_loop answers t (dec_int a) (dec_int b) (dec_int c) n (dec_int v) =
      alias_loop answers (Suc t) (dec_int a) (dec_int b) (dec_int c) n (dec_int (v + n))"
    using first v assms dec_int_octet [of a] dec_int_octet [of b] dec_int_octet [of c] dec_int_octet [of "v + n"]
    by (subst alias_loop.simps) (simp add: atoi_dec_int strcpy_def build_string_eq)
  ultimately show ?case unfolding e by simp
qed

lemma alias_loop_returns:
  assumes "0 < n"
  shows "0 \<le> v \<Longrightarrow> \<exists>r. alias_loop answers t a b c n (dec_int v) = Some r"
proof (induction "nat (1000 - v)" arbitrary: v t rule: less_induct)
  case less
  show ?case
  proof (cases "length (dec_int (v + n)) < 4")
    case True
    then have "v + n < 1000" using dec_int_short [of "v + n"] less.prems assms by simp
    then have "\<exists>r. alias_loop answers (Suc t) a b c n (dec_int (v + n)) = Some r"
      using less assms by (intro less.hyps) simp_all
    with True show ?thesis
      by (subst alias_loop.simps) (simp add: atoi_dec_int strcpy_def build_string_eq)
  next
    case False
    then show ?thesis by (subst alias_loop.simps) (simp add: atoi_dec_int strcpy_def)
  qed
qed

lemma parts_of_address:
  assumes "0 \<le> a" "0 \<le> b" "0 \<le> c" "0 \<le> d"
  shows "strtok ''.'' (ipv4 a b c d) = (Some (dec_int a), dec_int b @ ''.'' @ dec_int c @ ''.'' @ dec_int d)"
    "strtok ''.'' (dec_int b @ ''.'' @ dec_int c @ ''.'' @ dec_int d) = (Some (dec_int b), dec_int c @ ''.'' @ dec_int d)"
    "strtok ''.'' (dec_int c @ ''.'' @ dec_int d) = (Some (dec_int c), dec_int d)"
    "strtok ''.'' (dec_int d) = (Some (dec_int d), [])"
  using assms strtok_next [of "''.''" "dec_int a" "CHR ''.''"] strtok_next [of "''.''" "dec_int b" "CHR ''.''"]
    strtok_next [of "''.''" "dec_int c" "CHR ''.''"] by simp_all

lemma alias_created:
  assumes primary: "find_primary p ifap = Inr (ipv4 a b c d)"
    and octets: "0 \<le> a" "a < 256" "0 \<le> b" "b < 256" "0 \<le> c" "c < 256" "0 \<le> d" "d < 256"
    and n: "0 < n" and p: "length p < 10"
    and free: "d + (int k + 1) * n < 1000" "\<not> answers k (ipv4 a b c (d + (int k + 1) * n))"
    and busy: "\<forall>j<k. answers j (ipv4 a b c (d + (int j + 1) * n))"
  shows "create_virtual_ifconfig answers ifap n p =
    Some (Inr (''ifconfig '' @ p @ '':'' @ dec_int (d + (int k + 1) * n) @ '' '' @ ipv4 a b c (d + (int k + 1) * n)))"
proof -
  let ?v = "d + (int k + 1) * n"
  have nn: "0 \<le> n" using n by simp
  have "0 \<le> ?v" using octets n by simp
  then have len: "length (dec_int ?v) \<le> 3" "length (dec_int a) \<le> 3" "length (dec_int b) \<le> 3" "length (dec_int c) \<le> 3"
    "length (dec_int d) \<le> 3"
    using free octets by (simp_all add: dec_int_octet)
  have "alias_loop answers 0 (dec_int a) (dec_int b) (dec_int c) n (dec_int d) = Some (Inr (dec_int ?v, ipv4 a b c ?v))"
    by (rule alias_loop_found [OF octets(1-6) nn octets(7) free(1)]) (use busy free(2) in simp_all)
  then show ?thesis
    unfolding create_virtual_ifconfig_def primary cbind_simps parts_of_address [OF octets(1,3,5,7)] Let_def prod.case
    using len p by (simp add: strcpy_def build_string_eq)
qed

text \<open>A new alias of the primary interface a.b.c.d gets the first address a.b.c.(d + k n), k = 1,
  2, ..., that no ping reaches, as long as the last part has at most three digits.  Nothing
  keeps it at most 255.\<close>

theorem alias_exact:
  assumes primary: "find_primary p ifap = Inr (ipv4 a b c d)"
    and octets: "0 \<le> a" "a < 256" "0 \<le> b" "b < 256" "0 \<le> c" "c < 256" "0 \<le> d" "d < 256"
    and n: "0 < n" and p: "length p < 10"
    and free: "d + (int k + 1) * n < 1000" "\<not> answers k (ipv4 a b c (d + (int k + 1) * n))"
    and busy: "\<forall>j<k. answers j (ipv4 a b c (d + (int j + 1) * n))"
  shows "create_virtual_ifconfig answers ifap n p =
    Some (Inr (''ifconfig '' @ p @ '':'' @ dec_int (d + (int k + 1) * n) @ '' '' @ ipv4 a b c (d + (int k + 1) * n)))"
  by (rule alias_created [where k = k]) (rule assms)+

definition one_interface :: "ifaddrs list" where
  "one_interface = [\<lparr>ifa_name = ''eth0'', ifa_addr = Some (2, ipv4 10 0 0 250)\<rparr>]"

lemma one_interface_primary: "find_primary ''eth0'' one_interface = Inr (ipv4 10 0 0 250)"
  using dec_int_octet [of 10] dec_int_octet [of 0] dec_int_octet [of 250]
  by (simp add: one_interface_def strcpy_def)

theorem alias_exact_witness:
  "create_virtual_ifconfig (\<lambda>t a. t = 0) one_interface 5 ''eth0'' =
    Some (Inr (''ifconfig '' @ ''eth0'' @ '':'' @ dec_int (250 + (int 1 + 1) * 5) @ '' '' @ ipv4 10 0 0 (250 + (int 1 + 1) * 5)))"
  by (rule alias_exact [OF one_interface_primary]) simp_all

text \<open>The search for an address ends for every positive step, whatever the pings find: at the
  latest when the last part no longer fits its four characters.\<close>

theorem alias_search_ends:
  assumes primary: "find_primary p ifap = Inr (ipv4 a b c d)"
    and octets: "0 \<le> a" "0 \<le> b" "0 \<le> c" "0 \<le> d" "0 < n"
  shows "\<exists>r. create_virtual_ifconfig answers ifap n p = Some r"
proof -
  obtain r where r: "alias_loop answers 0 (dec_int a) (dec_int b) (dec_int c) n (dec_int d) = Some r"
    using alias_loop_returns [OF octets(5,4)] by blast
  have r': "create_virtual_ifconfig answers ifap n p =
      cbind (Some (strcpy 4 (dec_int a))) (\<lambda>pt1. cbind (Some (strcpy 4 (dec_int b))) (\<lambda>pt2.
      cbind (Some (strcpy 4 (dec_int c))) (\<lambda>pt3. cbind (Some (strcpy 4 (dec_int d))) (\<lambda>pt4.
      cbind (alias_loop answers 0 pt1 pt2 pt3 n pt4) (\<lambda>(pt4', addr').
        Some (build_string 100 ''ifconfig '' [p, '':'', pt4', '' '', addr']))))))"
    unfolding create_virtual_ifconfig_def primary cbind_simps parts_of_address [OF octets(1-4)] Let_def prod.case
    by simp
  show ?thesis unfolding r'
    by (cases r) (auto simp: r strcpy_def)
qed

theorem alias_search_ends_witness:
  "\<exists>r. create_virtual_ifconfig (\<lambda>t a. True) one_interface 5 ''eth0'' = Some r"
  by (rule alias_search_ends [OF one_interface_primary]) simp_all

section \<open>Cleaning up\<close>

lemma clean_loop:
  assumes "list_all inet_ok ifap"
  shows "clean_virtual_interfaces ifap =
    Inr (concat (map (\<lambda>n. [''ifconfig '' @ n @ '' down'', ''ip link delete dev '' @ n])
           (filter (\<lambda>n. CHR ''m'' \<in> set n) (map ifa_name (filter usable ifap)))))"
  using assms
proof (induction ifap)
  case (Cons ifa ifap)
  have "length (ifa_name ifa) < 10" using Cons.prems by (simp add: inet_ok_def)
  with Cons show ?case
    by (simp add: inet_address_ok strcpy_def strchr_def delete_interface_def build_string_eq)
qed simp

text \<open>C37.
  The clean-up takes down and deletes exactly the IPv4 interfaces whose name contains an
  "m", whoever created them.  So the aliases that create_virtual_ifconfig adds to an interface
  are never removed where its name has no "m" (such as eth0), and removed with the interface
  itself where it has one (such as em1).\<close>

theorem clean_exact:
  assumes "list_all inet_ok ifap"
  shows "clean_virtual_interfaces ifap = Inr (concat (map (\<lambda>n. [''ifconfig '' @ n @ '' down'', ''ip link delete dev '' @ n])
             (filter (\<lambda>n. CHR ''m'' \<in> set n) (map ifa_name (filter usable ifap)))))
    \<and> (\<forall>p v a. inet_ok \<lparr>ifa_name = p @ '':'' @ dec_int v, ifa_addr = Some (AF_INET, a)\<rparr> \<longrightarrow>
      clean_virtual_interfaces (ifap @ [\<lparr>ifa_name = p @ '':'' @ dec_int v, ifa_addr = Some (AF_INET, a)\<rparr>]) =
      rbind (clean_virtual_interfaces ifap) (\<lambda>cs. Inr (cs @ (if CHR ''m'' \<in> set p
        then [''ifconfig '' @ p @ '':'' @ dec_int v @ '' down'', ''ip link delete dev '' @ p @ '':'' @ dec_int v]
        else []))))"
proof (intro conjI allI impI)
  fix p v and a :: string
  assume p: "inet_ok \<lparr>ifa_name = p @ '':'' @ dec_int v, ifa_addr = Some (AF_INET, a)\<rparr>"
  have "CHR ''m'' \<notin> set (dec_int v)" by (auto dest!: dec_int_set simp: is_digit_def)
  moreover have "CHR '':'' \<notin> set ''lo''" "CHR '':'' \<notin> set ''lo0''" by simp_all
  then have "usable \<lparr>ifa_name = p @ '':'' @ dec_int v, ifa_addr = Some (AF_INET, a)\<rparr>"
    unfolding usable_def by (metis append_Cons fst_conv ifaddrs.select_convs(1,2) in_set_conv_decomp option.sel)
  ultimately show "clean_virtual_interfaces (ifap @ [\<lparr>ifa_name = p @ '':'' @ dec_int v, ifa_addr = Some (AF_INET, a)\<rparr>]) =
      rbind (clean_virtual_interfaces ifap) (\<lambda>cs. Inr (cs @ (if CHR ''m'' \<in> set p
        then [''ifconfig '' @ p @ '':'' @ dec_int v @ '' down'', ''ip link delete dev '' @ p @ '':'' @ dec_int v]
        else [])))"
    using p assms by (simp add: clean_loop)
qed (rule clean_loop [OF assms])

theorem clean_exact_witness:
  "clean_virtual_interfaces [\<lparr>ifa_name = ''em1'', ifa_addr = Some (2, ''10.0.1.1'')\<rparr>] =
    Inr [''ifconfig em1 down'', ''ip link delete dev em1''] \<and>
   clean_virtual_interfaces ([] @ [\<lparr>ifa_name = ''eth0'' @ '':'' @ dec_int 1, ifa_addr = Some (AF_INET, ''10.0.0.2'')\<rparr>]) = Inr []"
proof -
  have "dec_int 1 = ''1''" by code_simp
  then show ?thesis
    using clean_exact [of "[\<lparr>ifa_name = ''em1'', ifa_addr = Some (2, ''10.0.1.1'')\<rparr>]"]
      clean_exact [of "[]", THEN conjunct2, rule_format, of "''eth0''" 1 "''10.0.0.2''"]
    by (simp add: inet_ok_def usable_def)
qed

text \<open>Creating a virtual interface always overruns: the text of the time is printed into a
  single character.\<close>

theorem virtual_interface_overruns:
  "create_virtual_interface now p = Inl BufferOverflow"
  by (cases "dec_int now") (auto simp: create_virtual_interface_def strcpy_def)

end
