(* ===== verification/Connectivity.thy ===== *)
theory Connectivity
  imports C_Prelude "HOL-Library.Word"
begin

unbundle bit_operations_syntax

text \<open>
  \<^verbatim>\<open>MACHETE/SCMultipath/utils/connectivity_utils.c\<close>: the ICMP checksum, the ping that
  decides whether an overlay node answers, and the probing of all nodes.
\<close>

section \<open>Checksum\<close>

text \<open>A 16-bit load from two bytes of memory (little-endian, as on the machines the program runs on).\<close>

definition load16 :: "8 word \<Rightarrow> 8 word \<Rightarrow> 16 word" where
  "load16 lo hi = ucast lo OR push_bit 8 (ucast hi)"

definition store16 :: "16 word \<Rightarrow> 8 word list" where
  "store16 w = [ucast w, ucast (drop_bit 8 w)]"

text \<open>The two loops of \<^verbatim>\<open>checksum\<close>: 16 bits at a time, and a last byte.\<close>

fun checksum_sum :: "8 word list \<Rightarrow> 32 word \<Rightarrow> 32 word" where
  "checksum_sum [] acc = acc"
| "checksum_sum [x] acc = acc + ucast x"
| "checksum_sum (x # y # rest) acc = checksum_sum rest (acc + ucast (load16 x y))"

definition checksum :: "8 word list \<Rightarrow> 16 word" where
  "checksum b =
     (let sum0 = checksum_sum b 0;
          sum1 = drop_bit 16 sum0 + (sum0 AND 0xFFFF);
          sum2 = sum1 + drop_bit 16 sum1 in
      ucast (NOT sum2))"

text \<open>Reference: the one's complement of the one's complement sum, in natural numbers.\<close>

fun word_sum :: "8 word list \<Rightarrow> nat" where
  "word_sum [] = 0"
| "word_sum [x] = unat x"
| "word_sum (x # y # rest) = unat x + 256 * unat y + word_sum rest"

definition ones_sum :: "nat \<Rightarrow> nat" where
  "ones_sum s = (if s = 0 then 0 else Suc ((s - 1) mod 65535))"

lemma byte_less: "unat (x :: 8 word) < 256"
proof -
  have "unat x < 2 ^ LENGTH(8)" by (rule unsigned_less)
  then show ?thesis by simp
qed

lemma unat_load16: "unat (load16 lo hi) = unat lo + 256 * unat hi"
proof -
  let ?lo = "ucast lo :: 16 word" and ?hi = "push_bit 8 (ucast hi) :: 16 word"
  have ulo: "unat ?lo = unat lo"
    using byte_less [of lo] by (simp add: unsigned_ucast_eq take_bit_nat_eq_self)
  have uhi: "unat ?hi = 256 * unat hi"
    using byte_less [of hi] unfolding unsigned_push_bit_eq unsigned_ucast_eq
    by (simp add: take_bit_nat_eq_self push_bit_eq_mult)
  have "?lo AND ?hi = 0"
    by (rule bit_word_eqI) (auto simp: bit_simps dest: bit_imp_le_length)
  then have "load16 lo hi = ?lo + ?hi"
    by (simp add: load16_def disjunctive_add_eq_or)
  then have "unat (load16 lo hi) = (unat ?lo + unat ?hi) mod 65536"
    by (simp add: unat_word_ariths)
  with ulo uhi byte_less [of lo] byte_less [of hi] show ?thesis by simp
qed

lemma word_sum_bound: "word_sum b \<le> 65535 * length b"
proof (induction b rule: word_sum.induct)
  case (2 x)
  show ?case using byte_less [of x] by simp
next
  case (3 x y rest)
  then show ?case using byte_less [of x] byte_less [of y] by simp
qed simp

lemma unat_add_small: "unat a + n < 2 ^ 32 \<Longrightarrow> unat b = n \<Longrightarrow> unat (a + b :: 32 word) = unat a + n"
  by (simp add: unat_word_ariths)

lemma unat_checksum_sum:
  "unat acc + word_sum b < 2 ^ 32 \<Longrightarrow> unat (checksum_sum b acc) = unat acc + word_sum b"
proof (induction b acc rule: checksum_sum.induct)
  case (2 x acc)
  have "unat (ucast x :: 32 word) = unat x"
    using byte_less [of x] by (simp add: unsigned_ucast_eq take_bit_nat_eq_self)
  with 2 show ?case by (simp add: unat_word_ariths)
next
  case (3 x y rest acc)
  have "unat (ucast (load16 x y) :: 32 word) = unat x + 256 * unat y"
    using byte_less [of x] byte_less [of y]
    by (simp add: unsigned_ucast_eq take_bit_nat_eq_self unat_load16)
  with 3 show ?case by (simp add: unat_word_ariths)
qed simp

text \<open>Folding a 32-bit sum twice gives the one's complement sum.\<close>

lemma ones_sum_fold:
  assumes "s < 2 ^ 32"
  defines "t \<equiv> s div 65536 + s mod 65536"
  shows "(t + t div 65536) mod 65536 = ones_sum s"
proof (cases "s = 0")
  case False
  define q r where "q = s div 65536" and "r = s mod 65536"
  have s: "s = 65536 * q + r" and tqr: "t = q + r" and r: "r < 65536"
    by (simp_all add: q_def r_def t_def)
  have q: "q < 65536" using assms(1) by (simp add: q_def less_mult_imp_div_less)
  have t: "t < 131071" "0 < t" using s q r False by (auto simp: tqr)
  have "s - 1 = (t - 1) + 65535 * q" using s tqr t by simp
  then have m: "(s - 1) mod 65535 = (t - 1) mod 65535" by simp
  show ?thesis
  proof (cases "t < 65536")
    case True
    then have "(t - 1) mod 65535 = t - 1" using t by simp
    with True t False m show ?thesis by (simp add: ones_sum_def)
  next
    case large: False
    then obtain u where u: "t = 65536 + u" by (metis le_Suc_ex not_less)
    with t have "u < 65535" by simp
    have "t div 65536 = 1" unfolding u using \<open>u < 65535\<close> div_add_self1 [of 65536 u] by simp
    then have "t + t div 65536 = Suc u + 65536" by (simp add: u)
    then have a: "(t + t div 65536) mod 65536 = Suc u"
      using \<open>u < 65535\<close> by (simp only: mod_add_self2) simp
    have "t - 1 = u + 65535" by (simp add: u)
    then have "(t - 1) mod 65535 = u"
      using \<open>u < 65535\<close> by (simp only: mod_add_self2) simp
    with a False m show ?thesis by (simp only: ones_sum_def if_False)
  qed
qed (simp add: t_def ones_sum_def)

lemma checksum_ones_sum:
  assumes "length b \<le> 65536"
  shows "\<exists>w. checksum b = NOT w \<and> unat w = ones_sum (word_sum b)"
proof -
  define s where "s = word_sum b"
  define t where "t = s div 65536 + s mod 65536"
  define sum0 where "sum0 = checksum_sum b 0"
  define sum1 where "sum1 = drop_bit 16 sum0 + (sum0 AND 0xFFFF)"
  define sum2 where "sum2 = sum1 + drop_bit 16 sum1"
  have "s \<le> 65535 * 65536" using word_sum_bound [of b] assms by (simp add: s_def)
  then have s: "s < 2 ^ 32" by simp
  then have u0: "unat sum0 = s" using unat_checksum_sum [of 0 b] by (simp add: sum0_def s_def)
  have q: "s div 65536 < 65536" using s by (simp add: less_mult_imp_div_less)
  have "s AND 65535 = s mod 65536"
    using take_bit_eq_mask [of 16 s] by (simp add: take_bit_eq_mod mask_eq_exp_minus_1)
  then have "unat (sum0 AND 0xFFFF) = s mod 65536" by (simp add: unsigned_and_eq u0)
  then have u1: "unat sum1 = t"
    using q by (simp add: sum1_def unat_word_ariths unat_drop_bit_eq drop_bit_eq_div u0 t_def)
  have t: "t < 131072" using q by (simp add: t_def)
  have "t div 65536 < 2" using t by (simp add: less_mult_imp_div_less)
  then have u2: "unat sum2 = t + t div 65536"
    using t by (simp add: sum2_def unat_word_ariths unat_drop_bit_eq drop_bit_eq_div u1)
  have "checksum b = NOT (ucast sum2)"
    unfolding checksum_def Let_def sum2_def sum1_def sum0_def
    by (rule bit_word_eqI) (simp add: bit_simps)
  moreover have "unat (ucast sum2 :: 16 word) = ones_sum s"
    using ones_sum_fold [OF s] by (simp add: unsigned_ucast_eq u2 take_bit_eq_mod t_def)
  ultimately show ?thesis by (auto simp: s_def)
qed

lemma ones_sum_less: "ones_sum s < 65536"
  using mod_less_divisor [of 65535 "s - 1"] by (simp add: ones_sum_def)

lemma word16_less: "unat (w :: 16 word) < 65536"
proof -
  have "unat w < 2 ^ LENGTH(16)" by (rule unsigned_less)
  then show ?thesis by simp
qed

lemma unat_NOT16: "unat (NOT w :: 16 word) = 65535 - unat w"
proof -
  have "w + NOT w = - 1" by (simp add: not_eq_complement)
  then have "unat (w + NOT w) = 65535" by (simp add: unsigned_minus_1_eq_mask mask_eq_exp_minus_1)
  then have "(unat w + unat (NOT w)) mod 2 ^ LENGTH(16) = 65535"
    using unat_word_ariths(1) [of w "NOT w"] by (simp only:)
  then have "(unat w + unat (NOT w)) mod 65536 = 65535" by simp
  moreover have "(m + n) mod 65536 = 65535 \<Longrightarrow> m < 65536 \<Longrightarrow> n < 65536 \<Longrightarrow> m + n = 65535" for m n :: nat
    by (cases "m + n < 65536") (simp_all add: le_mod_geq)
  ultimately have "unat w + unat (NOT w) = 65535" using word16_less by metis
  then show ?thesis by simp
qed

text \<open>Storing a field and summing again.\<close>

lemma unat_store16:
  assumes "store16 w = [lo, hi]"
  shows "unat lo + 256 * unat hi = unat w"
proof -
  have lo: "lo = ucast w" and hi: "hi = ucast (drop_bit 8 w)"
    using assms by (simp_all add: store16_def)
  have "unat lo = unat w mod 256" unfolding lo unsigned_ucast_eq by (simp add: take_bit_eq_mod)
  moreover have "unat hi = unat w div 256"
    using word16_less [of w] unfolding hi unsigned_ucast_eq unat_drop_bit_eq
    by (simp add: take_bit_eq_mod drop_bit_eq_div less_mult_imp_div_less)
  ultimately show ?thesis by simp
qed

lemma word_sum_update:
  "even i \<Longrightarrow> Suc i < length b \<Longrightarrow> b ! i = 0 \<Longrightarrow> b ! Suc i = 0 \<Longrightarrow>
   word_sum (b[i := x, Suc i := y]) = word_sum b + unat x + 256 * unat y"
proof (induction b arbitrary: i rule: word_sum.induct)
  case (3 u v rest)
  show ?case
  proof (cases i)
    case 0
    with "3.prems" show ?thesis by simp
  next
    case (Suc j)
    then obtain k where "i = Suc (Suc k)" using "3.prems"(1) by (cases j) auto
    with "3.prems" "3.IH" [of k] show ?thesis by simp
  qed
qed auto

text \<open>C18.
  The checksum is the one's complement of the one's complement sum of the 16-bit words (RFC
  1071), for every buffer of at most 64 KiB: the 32-bit accumulator does not wrap and two
  foldings suffice.\<close>

theorem checksum_reference:
  assumes "length b \<le> 65536"
  shows "unat (checksum b) = 65535 - ones_sum (word_sum b)"
  using checksum_ones_sum [OF assms] unat_NOT16 by auto

lemma sample_bytes: "word_sum [1, 2, 3] = 516"
  by simp

theorem checksum_reference_witness:
  "unat (checksum [1, 2, 3]) = 65535 - ones_sum 516"
  using checksum_reference [of "[1, 2, 3]"] by simp

text \<open>A packet that carries its checksum verifies: with the checksum of the packet stored in a
  16-bit field that was zero, the checksum of the whole is 0.\<close>

theorem checksum_verifies:
  assumes "length b \<le> 65536" "even i" "Suc i < length b" "b ! i = 0" "b ! Suc i = 0"
    and "store16 (checksum b) = [lo, hi]"
  shows "checksum (b[i := lo, Suc i := hi]) = 0"
proof -
  let ?b = "b[i := lo, Suc i := hi]"
  define s where "s = word_sum b"
  have c: "unat lo + 256 * unat hi = 65535 - ones_sum s"
    using unat_store16 [OF assms(6)] checksum_reference [OF assms(1)] by (simp add: s_def)
  have "word_sum ?b = s + (65535 - ones_sum s)"
    using word_sum_update [OF assms(2-5), of lo hi] c by (simp add: s_def)
  moreover have "ones_sum (s + (65535 - ones_sum s)) = 65535"
  proof (cases "s = 0")
    case False
    define m where "m = (s - 1) mod 65535"
    have o: "ones_sum s = Suc m" using False by (simp add: ones_sum_def m_def)
    have "m < 65535" by (simp add: m_def)
    have "s - 1 = m + 65535 * ((s - 1) div 65535)" by (simp add: m_def)
    then have "s + (65535 - Suc m) - 1 = 65534 + 65535 * ((s - 1) div 65535)"
      using False \<open>m < 65535\<close> by linarith
    then have "(s + (65535 - Suc m) - 1) mod 65535 = 65534" by (simp only: mod_mult_self2) simp
    with False o show ?thesis by (simp add: ones_sum_def [of "s + _"])
  qed (simp add: ones_sum_def)
  ultimately have "unat (checksum ?b) = 0"
    using checksum_ones_sum [of ?b] unat_NOT16 assms(1) by auto
  then show ?thesis by (simp add: unat_eq_0)
qed

theorem checksum_verifies_witness:
  "checksum ([8, 0, 0, 0, 1, 2] [2 := ucast (checksum [8, 0, 0, 0, 1, 2]),
     3 := ucast (drop_bit 8 (checksum [8, 0, 0, 0, 1, 2]))]) = 0"
  using checksum_verifies [of "[8, 0, 0, 0, 1, 2]" 2] by (simp add: store16_def)

section \<open>Ping\<close>

text \<open>
  \<^verbatim>\<open>struct packet\<close>: an ICMP header of 8 bytes (type, code, checksum, id, sequence) and a
  message of 56.  The id is the global \<^verbatim>\<open>pid\<close>, which stays -1.
\<close>

definition ping_msg :: "8 word list" where
  "ping_msg = map (\<lambda>i. of_nat (i + 48)) [0..<55] @ [0]"

definition ping_header :: "16 word \<Rightarrow> 8 word list" where
  "ping_header cnt = [8, 0, 0, 0] @ store16 (- 1) @ store16 cnt"

definition ping_packet :: "16 word \<Rightarrow> 8 word list" where
  "ping_packet cnt =
     (let pckt = ping_header cnt @ ping_msg; c = store16 (checksum pckt) in
      pckt[2 := c ! 0, 3 := c ! 1])"

text \<open>
  The environment of one ping: whether \<^verbatim>\<open>getprotobyname\<close> finds the protocol, the result of
  \<^verbatim>\<open>socket\<close>, and the results of the (non-blocking) \<^verbatim>\<open>recvfrom\<close> calls.  The outcome has the
  packets sent and whether the raw socket has been closed.
\<close>

record ping_env =
  icmp_protocol :: "int option"
  raw_socket :: int
  recv_result :: "nat \<Rightarrow> int"

record ping_outcome =
  ping_result :: int
  packets_sent :: "8 word list list"
  socket_left_open :: bool

fun ping_loop :: "ping_env \<Rightarrow> nat \<Rightarrow> nat \<Rightarrow> 16 word \<Rightarrow> 8 word list list \<Rightarrow> ping_outcome" where
  "ping_loop env 0 j cnt sent = \<lparr>ping_result = - 1, packets_sent = sent, socket_left_open = True\<rparr>"
| "ping_loop env (Suc k) j cnt sent =
     (if 0 < recv_result env j
      then \<lparr>ping_result = 1, packets_sent = sent, socket_left_open = False\<rparr>
      else ping_loop env k (Suc j) (cnt + 1) (sent @ [ping_packet cnt]))"

definition ping_overlay_node :: "ping_env \<Rightarrow> ping_outcome res" where
  "ping_overlay_node env =
     rbind (nonnull (icmp_protocol env)) (\<lambda>p_proto.
       if raw_socket env < 0
       then Inr \<lparr>ping_result = - 1, packets_sent = [], socket_left_open = False\<rparr>
       else Inr (ping_loop env 10 0 1 []))"

lemma length_ping_packet [simp]: "length (ping_packet cnt) = 64"
  by (simp add: ping_packet_def ping_header_def ping_msg_def store16_def Let_def)

lemma ping_packet_verifies: "checksum (ping_packet cnt) = 0"
proof -
  let ?p = "ping_header cnt @ ping_msg"
  have l: "length ?p = 64" by (simp add: ping_header_def ping_msg_def store16_def)
  have z: "?p ! 2 = 0" "?p ! Suc 2 = 0" by (simp_all add: ping_header_def)
  have st: "store16 (checksum ?p) = [ucast (checksum ?p), ucast (drop_bit 8 (checksum ?p))]"
    by (rule store16_def)
  have "checksum (?p[2 := ucast (checksum ?p), Suc 2 := ucast (drop_bit 8 (checksum ?p))]) = 0"
    by (rule checksum_verifies [OF _ _ _ z st]) (simp_all only: l, simp_all)
  moreover have "Suc 2 = (3 :: nat)" by simp
  ultimately show ?thesis by (simp only: ping_packet_def Let_def st nth_Cons_0 nth_Cons_Suc One_nat_def)
qed

text \<open>The number of polls that find nothing, of those from \<open>j\<close> on.\<close>

definition empty_polls :: "ping_env \<Rightarrow> nat \<Rightarrow> nat \<Rightarrow> nat" where
  "empty_polls env j k = length (takeWhile (\<lambda>i. recv_result env i \<le> 0) [j..<j + k])"

lemma ping_loop_eq:
  "ping_loop env k j cnt sent =
     (let m = empty_polls env j k in
      \<lparr>ping_result = (if m < k then 1 else - 1),
       packets_sent = sent @ map (\<lambda>i. ping_packet (cnt + of_nat i)) [0..<m],
       socket_left_open = (m = k)\<rparr>)"
proof (induction k arbitrary: j cnt sent)
  case (Suc k)
  have up: "[j..<j + Suc k] = j # [Suc j..<Suc j + k]" by (simp add: upt_conv_Cons)
  show ?case
  proof (cases "0 < recv_result env j")
    case True
    then show ?thesis unfolding empty_polls_def up by simp
  next
    case False
    have "map (\<lambda>i. ping_packet (cnt + of_nat i)) [0..<Suc m] =
        ping_packet cnt # map (\<lambda>i. ping_packet (cnt + 1 + of_nat i)) [0..<m]" for m
      by (simp add: upt_conv_Cons map_Suc_upt [symmetric] comp_def add.assoc del: upt_Suc)
    with False Suc [of "Suc j" "cnt + 1"] show ?thesis
      unfolding empty_polls_def up by (simp add: Let_def)
  qed
qed (simp add: empty_polls_def)

text \<open>With a raw socket, the ping polls at most ten times and sends one packet per poll that finds
  nothing, each an echo request whose checksum verifies; it reports an answer exactly if some
  poll finds a message, and otherwise leaves its socket open.\<close>

theorem ping_exact:
  assumes "icmp_protocol env = Some p" "0 \<le> raw_socket env"
  shows "\<exists>m\<le>10. m = empty_polls env 0 10 \<and>
    ping_overlay_node env = Inr \<lparr>ping_result = (if m < 10 then 1 else - 1),
      packets_sent = map (\<lambda>i. ping_packet (1 + of_nat i)) [0..<m], socket_left_open = (m = 10)\<rparr> \<and>
    (\<forall>i<m. checksum (ping_packet (1 + of_nat i)) = 0)"
proof -
  have "empty_polls env 0 10 \<le> 10"
    unfolding empty_polls_def by (metis length_takeWhile_le length_upt diff_zero add_0)
  with assms show ?thesis
    by (intro exI [of _ "empty_polls env 0 10"])
      (simp add: ping_overlay_node_def ping_loop_eq Let_def ping_packet_verifies)
qed

definition silent_env :: ping_env where
  "silent_env = \<lparr>icmp_protocol = Some 1, raw_socket = 3, recv_result = (\<lambda>_. - 1)\<rparr>"

theorem ping_exact_witness:
  "\<exists>m\<le>10. m = empty_polls silent_env 0 10 \<and>
    ping_overlay_node silent_env = Inr \<lparr>ping_result = (if m < 10 then 1 else - 1),
      packets_sent = map (\<lambda>i. ping_packet (1 + of_nat i)) [0..<m], socket_left_open = (m = 10)\<rparr> \<and>
    (\<forall>i<m. checksum (ping_packet (1 + of_nat i)) = 0)"
  by (rule ping_exact) (simp_all add: silent_env_def)

section \<open>Probing the nodes\<close>

text \<open>
  \<open>alive t a\<close> is the answer of the \<open>t\<close>-th ping, to address \<open>a\<close>.  The array has the
  \<open>MAX_FLOWS\<close> slots that the caller allocated; reading behind the last is the fault.
  The test of the first pointer for NULL is left out: the only caller passes allocated slots.
\<close>

partial_function (option) probe_loop ::
    "(nat \<Rightarrow> string \<Rightarrow> bool) \<Rightarrow> nat \<Rightarrow> int \<Rightarrow> nat \<Rightarrow> string list \<Rightarrow> (int \<times> string list) res option" where
  "probe_loop alive t num_hops i nodes =
     (if int i < num_hops
      then cbind (Some (array_get nodes i)) (\<lambda>node.
        if alive t node then probe_loop alive (Suc t) num_hops (Suc i) nodes
        else cbind (Some (array_get nodes (Suc i))) (\<lambda>next.
          probe_loop alive (Suc t) num_hops i (nodes[i := next])))
      else Some (Inr (int i, nodes)))"

definition probe_overlay_nodes ::
    "(nat \<Rightarrow> string \<Rightarrow> bool) \<Rightarrow> int \<Rightarrow> string list \<Rightarrow> (int \<times> string list) res option" where
  "probe_overlay_nodes alive num_hops nodes = probe_loop alive 0 num_hops 0 nodes"

text \<open>Two silent neighbours: the slot is refilled with the same address for ever.\<close>

lemma probe_loop_stuck:
  assumes "probe_loop al t num i ns = Some r"
  shows "(\<forall>t. al t = al 0) \<longrightarrow> int i < num \<longrightarrow> Suc i < length ns \<longrightarrow> \<not> al 0 (ns ! i) \<longrightarrow> al 0 (ns ! Suc i)"
  using assms
proof (induction rule: probe_loop.raw_induct [rotated, consumes 1, case_names step])
  case (step f al t num i ns r)
  show ?case
  proof (intro impI, rule ccontr)
    assume a: "\<forall>t. al t = al 0" "int i < num" "Suc i < length ns" "\<not> al 0 (ns ! i)" "\<not> al 0 (ns ! Suc i)"
    have "al t = al 0" using a(1) by blast
    with step(2) a have "f al (Suc t) num i (ns[i := ns ! Suc i]) = Some r" by simp
    from step(1) [OF this] a show False by auto
  qed
qed

lemma probe_stuck:
  assumes "int i < num" "Suc i < length ns" "\<not> alive (ns ! i)" "\<not> alive (ns ! Suc i)"
  shows "probe_loop (\<lambda>_. alive) t num i ns = None"
  using probe_loop_stuck [of "\<lambda>_. alive" t num i ns] assms by (metis not_None_eq)

text \<open>Two steps over a silent node with an answering neighbour, one over an answering node.\<close>

lemma probe_step:
  assumes "i < n" "n < length ns" "alive (ns ! i) \<or> alive (ns ! Suc i)"
  shows "\<exists>t'. probe_loop (\<lambda>_. alive) t (int n) i ns = probe_loop (\<lambda>_. alive) t' (int n) (Suc i)
    (ns[i := if alive (ns ! i) then ns ! i else ns ! Suc i])"
proof (cases "alive (ns ! i)")
  case True
  with assms have "probe_loop (\<lambda>_. alive) t (int n) i ns = probe_loop (\<lambda>_. alive) (Suc t) (int n) (Suc i) ns"
    by (subst probe_loop.simps) simp
  with True show ?thesis by auto
next
  case False
  let ?ns = "ns[i := ns ! Suc i]"
  have "probe_loop (\<lambda>_. alive) t (int n) i ns = probe_loop (\<lambda>_. alive) (Suc t) (int n) i ?ns"
    using assms False by (subst probe_loop.simps) simp
  also have "\<dots> = probe_loop (\<lambda>_. alive) (Suc (Suc t)) (int n) (Suc i) ?ns"
    using assms False by (subst probe_loop.simps) simp
  finally show ?thesis using False by auto
qed

lemma probe_loop_never:
  "i \<le> k \<Longrightarrow> k < n \<Longrightarrow> n < length ns \<Longrightarrow> \<not> alive (ns ! k) \<Longrightarrow> \<not> alive (ns ! Suc k) \<Longrightarrow>
   probe_loop (\<lambda>_. alive) t (int n) i ns = None"
proof (induction "k - i" arbitrary: t i ns)
  case 0
  then show ?case by (simp add: probe_stuck)
next
  case (Suc d)
  show ?case
  proof (cases "alive (ns ! i) \<or> alive (ns ! Suc i)")
    case True
    let ?ns = "ns[i := if alive (ns ! i) then ns ! i else ns ! Suc i]"
    have "probe_loop (\<lambda>_. alive) t' (int n) (Suc i) ?ns = None" for t'
      using Suc.hyps Suc.prems by (intro Suc.hyps(1)) (simp_all add: nth_list_update)
    with True Suc.prems Suc.hyps(2) show ?thesis using probe_step [of i n ns alive t] by auto
  next
    case False
    with Suc.prems show ?thesis by (simp add: probe_stuck)
  qed
qed

definition refilled :: "(string \<Rightarrow> bool) \<Rightarrow> string list \<Rightarrow> nat \<Rightarrow> string" where
  "refilled alive nodes i = (if alive (nodes ! i) then nodes ! i else nodes ! Suc i)"

lemma probe_loop_returns:
  "i \<le> n \<Longrightarrow> n < length ns \<Longrightarrow> \<forall>k. i \<le> k \<and> k < n \<longrightarrow> alive (ns ! k) \<or> alive (ns ! Suc k) \<Longrightarrow>
   probe_loop (\<lambda>_. alive) t (int n) i ns =
     Some (Inr (int n, take i ns @ map (refilled alive ns) [i..<n] @ drop n ns))"
proof (induction "n - i" arbitrary: t i ns)
  case 0
  then show ?case by (subst probe_loop.simps) simp
next
  case (Suc d)
  let ?ns = "ns[i := refilled alive ns i]"
  obtain t' where "probe_loop (\<lambda>_. alive) t (int n) i ns = probe_loop (\<lambda>_. alive) t' (int n) (Suc i) ?ns"
    using probe_step [of i n ns alive t] Suc.prems Suc.hyps(2) unfolding refilled_def
    by (metis order_refl zero_less_Suc zero_less_diff)
  also have "\<dots> = Some (Inr (int n, take (Suc i) ?ns @ map (refilled alive ?ns) [Suc i..<n] @ drop n ?ns))"
    using Suc.hyps Suc.prems by (intro Suc.hyps(1)) (auto simp: nth_list_update)
  also have "take (Suc i) ?ns = take i ns @ [refilled alive ns i]"
    using Suc.prems Suc.hyps(2) by (simp add: take_Suc_conv_app_nth)
  also have "map (refilled alive ?ns) [Suc i..<n] = map (refilled alive ns) [Suc i..<n]"
    by (auto simp: refilled_def nth_list_update)
  also have "drop n ?ns = drop n ns"
    using Suc.hyps(2) by simp
  finally show ?case
    using Suc.hyps(2) by (simp add: upt_conv_Cons)
qed

text \<open>C28.
  For nodes that answer or stay silent consistently, the probing returns if and only if no two
  neighbouring slots are both silent, and then it reports all of them as responsive: the count
  is the one it was given, and a silent node's slot holds a second copy of the next node.\<close>

theorem probe_exact:
  assumes "n < length nodes"
  shows "probe_overlay_nodes (\<lambda>_. alive) (int n) nodes =
    (if \<exists>i<n. \<not> alive (nodes ! i) \<and> \<not> alive (nodes ! Suc i) then None
     else Some (Inr (int n, map (refilled alive nodes) [0..<n] @ drop n nodes)))"
  using assms probe_loop_never [of 0 _ n nodes alive 0] probe_loop_returns [of 0 n nodes alive 0]
  by (auto simp: probe_overlay_nodes_def)

theorem probe_exact_witness:
  "probe_overlay_nodes (\<lambda>_ a. a = ''b'') 1 [''a'', ''b'', ''c''] = Some (Inr (1, [''b'', ''b'', ''c''])) \<and>
   probe_overlay_nodes (\<lambda>_ a. a = ''b'') 3 [''b'', ''a'', ''c'', ''d''] = None"
  using probe_exact [of 1 "[''a'', ''b'', ''c'']" "\<lambda>a. a = ''b''"]
    probe_exact [of 3 "[''b'', ''a'', ''c'', ''d'']" "\<lambda>a. a = ''b''"]
  by (auto simp: refilled_def less_Suc_eq numeral_3_eq_3)

end
