(* ===== verification/Stun.thy ===== *)
theory Stun
  imports C_Strings "HOL-Library.Word"
begin

unbundle bit_operations_syntax

text \<open>
  \<^verbatim>\<open>stun_public_ip.c\<close> of \<^verbatim>\<open>MACHETE/SCMultipath/utils\<close> (the copy in \<^verbatim>\<open>MACHETE/SCNodeCode\<close>
  differs in its printing only): the client side of one STUN binding request, which
  finds the address under which a machine is seen from outside.
\<close>

section \<open>Network order\<close>

definition be16 :: "8 word \<Rightarrow> 8 word \<Rightarrow> 16 word" where
  "be16 hi lo = push_bit 8 (ucast hi) OR ucast lo"

definition put16 :: "16 word \<Rightarrow> 8 word list" where
  "put16 w = [ucast (drop_bit 8 w), ucast w]"

definition put32 :: "32 word \<Rightarrow> 8 word list" where
  "put32 w = [ucast (drop_bit 24 w), ucast (drop_bit 16 w), ucast (drop_bit 8 w), ucast w]"

text \<open>\<^verbatim>\<open>htons(*(short * )(&buf[i]))\<close>, reading within the array.\<close>

definition load_be16 :: "8 word list \<Rightarrow> nat \<Rightarrow> 16 word res" where
  "load_be16 buf i =
     rbind (array_get buf i) (\<lambda>hi. rbind (array_get buf (Suc i)) (\<lambda>lo. Inr (be16 hi lo)))"

lemma be16_put16: "put16 w = [hi, lo] \<Longrightarrow> be16 hi lo = w"
  by (rule bit_word_eqI) (auto simp: put16_def be16_def bit_simps)

section \<open>The request and the response\<close>

abbreviation MAXLINE :: nat where
  "MAXLINE \<equiv> 200"

definition bindingReq :: "8 word list" where
  "bindingReq = put16 0x0001 @ put16 0x0000 @ put32 0x2112A442 @
     put32 0x63c7117e @ put32 0x0714278f @ put32 0x5ded3221"

text \<open>The four bytes of the address, each undone with its byte of the magic cookie.\<close>

definition dotted :: "8 word \<Rightarrow> 8 word \<Rightarrow> 8 word \<Rightarrow> 8 word \<Rightarrow> string" where
  "dotted a b c d = dec_nat (unat a) @ ''.'' @ dec_nat (unat b) @ ''.'' @ dec_nat (unat c) @ ''.'' @ dec_nat (unat d)"

definition read_xor_address :: "8 word list \<Rightarrow> nat \<Rightarrow> string res" where
  "read_xor_address buf i =
     rbind (load_be16 buf (i + 6)) (\<lambda>port.
     rbind (array_get buf (i + 8)) (\<lambda>a.
     rbind (array_get buf (i + 9)) (\<lambda>b.
     rbind (array_get buf (i + 10)) (\<lambda>c.
     rbind (array_get buf (i + 11)) (\<lambda>d.
       Inr (dotted (a XOR 0x21) (b XOR 0x12) (c XOR 0xA4) (d XOR 0x42)))))))"

text \<open>
  \<^verbatim>\<open>while(i<sizeof(buf))\<close>: the comparison is unsigned, so a negative \<^verbatim>\<open>i\<close> ends the loop; the
  length is a signed \<^verbatim>\<open>short\<close>.
\<close>

partial_function (option) attribute_loop :: "8 word list \<Rightarrow> int \<Rightarrow> string option res option" where
  "attribute_loop buf i =
     (if 0 \<le> i \<and> i < int MAXLINE
      then cbind (Some (load_be16 buf (nat i))) (\<lambda>attr_type.
           cbind (Some (load_be16 buf (nat i + 2))) (\<lambda>attr_length.
             if attr_type = 0x0020 then Some (rbind (read_xor_address buf (nat i)) (\<lambda>s. Inr (Some s)))
             else attribute_loop buf (i + 4 + sint attr_length)))
      else Some (Inr None))"

record stun_env =
  stun_sendto :: int
  stun_recvfrom :: int
  stun_datagram :: "8 word list"
  stun_stack :: "8 word list"

record stun_outcome =
  stun_return :: int
  stun_text :: "string option"
  stun_closed :: bool

text \<open>
  \<open>stun_text\<close> is what is written to \<^verbatim>\<open>return_ip_port\<close>, if anything is.  The array starts as
  the bytes of the stack; a datagram overwrites its beginning.
\<close>

definition stun_buf :: "stun_env \<Rightarrow> 8 word list" where
  "stun_buf env =
     (let received = take MAXLINE (stun_datagram env) in received @ drop (length received) (stun_stack env))"

definition stunGetPublicIP :: "stun_env \<Rightarrow> stun_outcome res option" where
  "stunGetPublicIP env =
     (if stun_sendto env = - 1
      then Some (Inr \<lparr>stun_return = - 1, stun_text = None, stun_closed = False\<rparr>)
      else if stun_recvfrom env = - 1
      then Some (Inr \<lparr>stun_return = - 2, stun_text = None, stun_closed = False\<rparr>)
      else
        cbind (Some (load_be16 (stun_buf env) 0)) (\<lambda>method.
        cbind (if method = 0x0101
               then cbind (Some (load_be16 (stun_buf env) 2)) (\<lambda>n. attribute_loop (stun_buf env) 20)
               else Some (Inr None)) (\<lambda>t.
          Some (Inr \<lparr>stun_return = 0, stun_text = t, stun_closed = True\<rparr>))))"

text \<open>
  The copy of the client in the overlay node, \<^verbatim>\<open>SCNodeCode/stun_public_ip.c\<close>, also says on its
  output how it ended; \<open>stun_printed\<close> is what it prints there, except under \<^verbatim>\<open>DEBUG\<close>.
\<close>

record node_stun_outcome = stun_outcome +
  stun_printed :: string

definition node_stunGetPublicIP :: "stun_env \<Rightarrow> node_stun_outcome res option" where
  "node_stunGetPublicIP env =
     (if stun_sendto env = - 1
      then Some (Inr \<lparr>stun_return = - 1, stun_text = None, stun_closed = False,
        stun_printed = ''sendto error'' @ [CHR 0x0A]\<rparr>)
      else if stun_recvfrom env = - 1
      then Some (Inr \<lparr>stun_return = - 2, stun_text = None, stun_closed = False,
        stun_printed = ''recvfrom error'' @ [CHR 0x0A]\<rparr>)
      else
        cbind (Some (load_be16 (stun_buf env) 0)) (\<lambda>method.
        cbind (if method = 0x0101
               then cbind (Some (load_be16 (stun_buf env) 2)) (\<lambda>n. attribute_loop (stun_buf env) 20)
               else Some (Inr None)) (\<lambda>t.
          Some (Inr \<lparr>stun_return = 0, stun_text = t, stun_closed = True,
            stun_printed = ''socket closed !'' @ [CHR 0x0A]\<rparr>))))"

lemma node_stun_agrees:
  "(case node_stunGetPublicIP env of None \<Rightarrow> None | Some (Inl e) \<Rightarrow> Some (Inl e)
      | Some (Inr out) \<Rightarrow> Some (Inr (stun_outcome.truncate out))) = stunGetPublicIP env"
  by (auto simp: node_stunGetPublicIP_def stunGetPublicIP_def cbind_def stun_outcome.truncate_def
      split: option.splits sum.splits)

lemma node_stun_text:
  "stunGetPublicIP env = Some (Inr out) \<Longrightarrow>
   \<exists>out'. node_stunGetPublicIP env = Some (Inr out') \<and> stun_text out' = stun_text out"
  unfolding node_stun_agrees [symmetric]
  by (auto split: option.splits sum.splits simp: stun_outcome.truncate_def)

section \<open>Decoding\<close>

text \<open>
  Attributes as RFC 5389 writes them: type, length, value, and padding to a multiple of four
  bytes; the address attribute carries the address under the magic cookie.
\<close>

definition encode_attr :: "16 word \<times> 8 word list \<Rightarrow> 8 word list" where
  "encode_attr a = put16 (fst a) @ put16 (of_nat (length (snd a))) @ snd a @
     replicate ((4 - length (snd a) mod 4) mod 4) 0"

definition xor_mapped :: "16 word \<Rightarrow> 8 word \<Rightarrow> 8 word \<Rightarrow> 8 word \<Rightarrow> 8 word \<Rightarrow> 16 word \<times> 8 word list" where
  "xor_mapped port a b c d = (0x0020, [0, 1] @ put16 (port XOR 0x2112) @ [a XOR 0x21, b XOR 0x12, c XOR 0xA4, d XOR 0x42])"

definition encode_response :: "8 word list \<Rightarrow> (16 word \<times> 8 word list) list \<Rightarrow> 8 word list" where
  "encode_response txid attrs =
     (let body = concat (map encode_attr attrs) in
      put16 0x0101 @ put16 (of_nat (length body)) @ put32 0x2112A442 @ txid @ body)"

lemma load_be16_at:
  "load_be16 (xs @ put16 w @ ys) (length xs) = Inr w"
proof -
  obtain hi lo where p: "put16 w = [hi, lo]" by (simp add: put16_def)
  then show ?thesis by (simp add: load_be16_def nth_append be16_put16)
qed

lemma length_put16 [simp]: "length (put16 w) = 2" and length_put32 [simp]: "length (put32 v) = 4"
  by (simp_all add: put16_def put32_def)

lemma sint_of_length: "n < 32768 \<Longrightarrow> sint (of_nat n :: 16 word) = int n"
  by (simp add: signed_of_nat signed_take_bit_int_eq_self)

lemma attribute_loop_next:
  "n < MAXLINE \<Longrightarrow> load_be16 buf n = Inr t \<Longrightarrow> load_be16 buf (n + 2) = Inr l \<Longrightarrow> t \<noteq> 0x0020 \<Longrightarrow>
   attribute_loop buf (int n) = attribute_loop buf (int n + 4 + sint l)"
  by (subst attribute_loop.simps) simp

lemma attribute_loop_address:
  "n < MAXLINE \<Longrightarrow> load_be16 buf n = Inr 0x0020 \<Longrightarrow> load_be16 buf (n + 2) = Inr l \<Longrightarrow>
   read_xor_address buf n = Inr s \<Longrightarrow> attribute_loop buf (int n) = Some (Inr (Some s))"
  by (subst attribute_loop.simps) simp

text \<open>An attribute that is not the address is stepped over.\<close>

lemma attribute_loop_skip:
  assumes "length xs < MAXLINE" "t \<noteq> 0x0020" "length v < 32768" "4 dvd length v"
  shows "attribute_loop (xs @ encode_attr (t, v) @ rest) (int (length xs)) =
    attribute_loop (xs @ encode_attr (t, v) @ rest) (int (length (xs @ encode_attr (t, v))))"
proof -
  let ?buf = "xs @ encode_attr (t, v) @ rest"
  have pad: "(4 - length v mod 4) mod 4 = 0" using assms(4) by (simp add: dvd_eq_mod_eq_0)
  have b: "?buf = xs @ put16 t @ (put16 (of_nat (length v)) @ v @ rest)"
    "?buf = (xs @ put16 t) @ put16 (of_nat (length v)) @ (v @ rest)"
    by (simp_all add: encode_attr_def pad)
  have 1: "load_be16 ?buf (length xs) = Inr t" unfolding b(1) by (rule load_be16_at)
  have 2: "load_be16 ?buf (length xs + 2) = Inr (of_nat (length v))"
    using load_be16_at [of "xs @ put16 t" "of_nat (length v)" "v @ rest"] unfolding b(2) by simp
  have "attribute_loop ?buf (int (length xs)) = attribute_loop ?buf (int (length xs) + 4 + sint (of_nat (length v) :: 16 word))"
    by (rule attribute_loop_next [OF assms(1) 1 2 assms(2)])
  also have "int (length xs) + 4 + sint (of_nat (length v) :: 16 word) = int (length (xs @ encode_attr (t, v)))"
    by (simp add: sint_of_length [OF assms(3)] encode_attr_def pad)
  finally show ?thesis .
qed

lemma attribute_loop_skips:
  assumes "\<forall>(t, v) \<in> set attrs. t \<noteq> 0x0020 \<and> 4 dvd length v"
    and "length xs + length (concat (map encode_attr attrs)) < MAXLINE"
  shows "attribute_loop (xs @ concat (map encode_attr attrs) @ rest) (int (length xs)) =
    attribute_loop (xs @ concat (map encode_attr attrs) @ rest) (int (length xs + length (concat (map encode_attr attrs))))"
  using assms
proof (induction attrs arbitrary: xs)
  case (Cons a attrs)
  obtain t v where a: "a = (t, v)" by (cases a)
  have "length v \<le> length (encode_attr a)" by (simp add: a encode_attr_def)
  with Cons.prems have v: "length v < 32768" by simp
  have "attribute_loop (xs @ encode_attr a @ (concat (map encode_attr attrs) @ rest)) (int (length xs)) =
      attribute_loop (xs @ encode_attr a @ (concat (map encode_attr attrs) @ rest)) (int (length (xs @ encode_attr a)))"
    using Cons.prems v unfolding a by (intro attribute_loop_skip) auto
  with Cons.IH [of "xs @ encode_attr a"] Cons.prems show ?case by (simp add: ac_simps)
qed simp

lemma attribute_loop_found:
  assumes "length xs < MAXLINE"
  shows "attribute_loop (xs @ encode_attr (xor_mapped port a b c d) @ rest) (int (length xs)) =
    Some (Inr (Some (dotted a b c d)))"
proof -
  let ?x = "xor_mapped port a b c d"
  let ?buf = "xs @ encode_attr ?x @ rest"
  obtain p q where pq: "put16 (port XOR 0x2112) = [p, q]" by (simp add: put16_def)
  have b: "?buf = xs @ put16 0x0020 @ (put16 8 @ [0, 1, p, q, a XOR 0x21, b XOR 0x12, c XOR 0xA4, d XOR 0x42] @ rest)"
    "?buf = (xs @ put16 0x0020) @ put16 8 @ ([0, 1, p, q, a XOR 0x21, b XOR 0x12, c XOR 0xA4, d XOR 0x42] @ rest)"
    by (simp_all add: encode_attr_def xor_mapped_def pq)
  have 1: "load_be16 ?buf (length xs) = Inr 0x0020" unfolding b(1) by (rule load_be16_at)
  have 2: "load_be16 ?buf (length xs + 2) = Inr 8"
    using load_be16_at [of "xs @ put16 0x0020" 8] unfolding b(2) by simp
  let ?ys = "[0, 32, 0, 8, 0, 1, p, q, a XOR 0x21, b XOR 0x12, c XOR 0xA4, d XOR 0x42]"
  have b3: "?buf = xs @ ?ys @ rest" by (simp add: b(1) put16_def)
  have get: "array_get ?buf (length xs + k) = Inr (?ys ! k)" if "k < 12" for k
    using that unfolding b3 by (simp only: array_get_def nth_append length_append) simp
  have "read_xor_address ?buf (length xs) = Inr (dotted a b c d)"
    using get [of 6] get [of 7] get [of 8] get [of 9] get [of 10] get [of 11]
    by (simp add: read_xor_address_def load_be16_def nth_append add.commute xor.assoc)
  then show ?thesis by (rule attribute_loop_address [OF assms 1 2])
qed

section \<open>Properties\<close>

lemma response_decoded:
  assumes env: "stun_sendto env \<noteq> - 1" "stun_recvfrom env \<noteq> - 1"
    and d: "stun_datagram env = encode_response txid (pre @ xor_mapped port a b c d # post)"
    and txid: "length txid = 12"
    and pre: "\<forall>(t, v) \<in> set pre. t \<noteq> 0x0020 \<and> 4 dvd length v"
    and fits: "length (concat (map encode_attr pre)) \<le> 168"
  shows "stunGetPublicIP env =
    Some (Inr \<lparr>stun_return = 0, stun_text = Some (dotted a b c d), stun_closed = True\<rparr>)"
proof -
  define l where "l = put16 (of_nat (length (concat (map encode_attr (pre @ xor_mapped port a b c d # post)))))"
  define hdr where "hdr = put16 0x0101 @ l @ put32 0x2112A442 @ txid"
  let ?pre = "concat (map encode_attr pre)" and ?x = "encode_attr (xor_mapped port a b c d)"
  have hl: "length hdr = 20" using txid by (simp add: hdr_def l_def)
  have xl: "length ?x = 12" by (simp add: encode_attr_def xor_mapped_def)
  define rest where "rest = take (MAXLINE - (length hdr + length ?pre + length ?x)) (concat (map encode_attr post)) @
    drop (length (take MAXLINE (stun_datagram env))) (stun_stack env)"
  have dg: "stun_datagram env = hdr @ ?pre @ ?x @ concat (map encode_attr post)"
    by (simp add: d encode_response_def hdr_def l_def Let_def)
  define buf where "buf = stun_buf env"
  have tk: "take MAXLINE (stun_datagram env) = hdr @ ?pre @ ?x @
      take (MAXLINE - (length hdr + length ?pre + length ?x)) (concat (map encode_attr post))"
    unfolding dg using hl xl fits by (simp add: take_append)
  then have buf: "buf = hdr @ ?pre @ ?x @ rest" by (simp add: buf_def stun_buf_def Let_def rest_def)
  have "buf = [] @ put16 0x0101 @ (l @ put32 0x2112A442 @ txid @ ?pre @ ?x @ rest)"
    by (simp add: buf hdr_def)
  then have m: "load_be16 buf 0 = Inr 0x0101" using load_be16_at [of "[]"] by simp
  have "buf = put16 0x0101 @ l @ (put32 0x2112A442 @ txid @ ?pre @ ?x @ rest)"
    by (simp add: buf hdr_def)
  then have n: "\<exists>n. load_be16 buf 2 = Inr n" using load_be16_at [of "put16 0x0101"] by (simp add: l_def)
  have "attribute_loop buf 20 = attribute_loop buf (int (length hdr + length ?pre))"
    using attribute_loop_skips [OF pre, of hdr "?x @ rest"] hl fits by (simp add: buf)
  also have "\<dots> = Some (Inr (Some (dotted a b c d)))"
    using attribute_loop_found [of "hdr @ ?pre" port a b c d rest] hl fits by (simp add: buf)
  finally have "attribute_loop buf 20 = Some (Inr (Some (dotted a b c d)))" .
  with env m n show ?thesis
    by (auto simp: stunGetPublicIP_def simp flip: buf_def)
qed

text \<open>C19.
  From a binding response as the RFC writes it, with any attributes of whole words before
  the address attribute as long as that one ends within the first 200 bytes, the client
  obtains exactly the address the server put in.\<close>

theorem stun_decodes:
  assumes env: "stun_sendto env \<noteq> - 1" "stun_recvfrom env \<noteq> - 1"
    and d: "stun_datagram env = encode_response txid (pre @ xor_mapped port a b c d # post)"
    and txid: "length txid = 12"
    and pre: "\<forall>(t, v) \<in> set pre. t \<noteq> 0x0020 \<and> 4 dvd length v"
    and fits: "length (concat (map encode_attr pre)) \<le> 168"
  shows "stunGetPublicIP env =
    Some (Inr \<lparr>stun_return = 0, stun_text = Some (dotted a b c d), stun_closed = True\<rparr>)"
  by (rule response_decoded [OF assms])

definition sample_response :: "8 word list" where
  "sample_response = encode_response (replicate 12 7)
     ([(0x8022, [1, 2, 3, 4])] @ xor_mapped 4242 192 0 2 33 # [])"

definition sample_stun :: stun_env where
  "sample_stun = \<lparr>stun_sendto = 20, stun_recvfrom = 44, stun_datagram = sample_response, stun_stack = replicate 200 0\<rparr>"

lemma one_word: "(4 :: nat) dvd length [w, x, y, z]"
proof -
  have "length [w, x, y, z] = 4" by simp
  then show ?thesis by (simp only: dvd_refl)
qed

theorem stun_decodes_witness:
  "stunGetPublicIP sample_stun =
    Some (Inr \<lparr>stun_return = 0, stun_text = Some (dotted 192 0 2 33), stun_closed = True\<rparr>)"
  by (rule stun_decodes [where txid = "replicate 12 7" and pre = "[(0x8022, [1, 2, 3, 4])]" and post = "[]"
        and port = 4242]) (simp_all add: sample_stun_def sample_response_def encode_attr_def one_word [simplified])

lemma sample_stun_answer: "\<exists>out. stunGetPublicIP sample_stun = Some (Inr out) \<and> stun_text out = Some ''192.0.2.33''"
proof -
  have "stunGetPublicIP sample_stun =
      Some (Inr \<lparr>stun_return = 0, stun_text = Some (dotted 192 0 2 33), stun_closed = True\<rparr>)"
    by (rule response_decoded [where txid = "replicate 12 7" and pre = "[(0x8022, [1, 2, 3, 4])]" and post = "[]"
        and port = 4242]) (simp_all add: sample_stun_def sample_response_def encode_attr_def one_word [simplified])
  moreover have "dotted 192 0 2 33 = ''192.0.2.33''" by code_simp
  ultimately show ?thesis by simp
qed

text \<open>A length of -4 brings the loop back to the same attribute.\<close>

lemma attribute_loop_hangs:
  assumes "attribute_loop buf i = Some r"
  shows "load_be16 buf (nat i) = Inr t \<longrightarrow> load_be16 buf (nat i + 2) = Inr 0xFFFC \<longrightarrow> t \<noteq> 0x0020 \<longrightarrow>
    \<not> (0 \<le> i \<and> i < int MAXLINE)"
  using assms
proof (induction rule: attribute_loop.raw_induct [rotated, consumes 1, case_names step])
  case (step f buf i r)
  show ?case
  proof (intro impI notI)
    assume a: "load_be16 buf (nat i) = Inr t" "load_be16 buf (nat i + 2) = Inr 0xFFFC" "t \<noteq> 0x0020"
      "0 \<le> i \<and> i < int MAXLINE"
    have "sint (0xFFFC :: 16 word) = - 4" by simp
    with step(2) a have "f buf i = Some r" by simp
    from step(1) [OF this] a show False by blast
  qed
qed

text \<open>C38.
  A response whose first attribute is not the address and claims the length 0xFFFC keeps the
  client in its loop for ever: the length is read as the signed number -4.\<close>

theorem stun_hangs:
  assumes "stun_sendto env \<noteq> - 1" "stun_recvfrom env \<noteq> - 1"
    and "stun_datagram env = put16 0x0101 @ hdr @ put16 t @ put16 0xFFFC @ rest"
    and "length hdr = 18" "t \<noteq> 0x0020"
  shows "stunGetPublicIP env = None"
proof -
  define buf where "buf = stun_buf env"
  define more where "more = take 176 rest @ drop (length (take MAXLINE (stun_datagram env))) (stun_stack env)"
  have buf: "buf = put16 0x0101 @ hdr @ put16 t @ put16 0xFFFC @ more"
    using assms(4) by (simp add: buf_def stun_buf_def Let_def more_def assms(3))
  have m: "load_be16 buf 0 = Inr 0x0101" using load_be16_at [of "[]"] by (simp add: buf)
  obtain x y hdr' where "hdr = [x, y] @ hdr'"
    using assms(4) by (cases hdr; cases "tl hdr") auto
  then have n: "\<exists>n. load_be16 buf 2 = Inr n"
    by (simp add: buf load_be16_def array_get_def nth_append)
  have 1: "load_be16 buf 20 = Inr t"
    using load_be16_at [of "put16 0x0101 @ hdr" t] assms(4) by (simp add: buf)
  have 2: "load_be16 buf 22 = Inr 0xFFFC"
    using load_be16_at [of "put16 0x0101 @ hdr @ put16 t" "0xFFFC"] assms(4) by (simp add: buf)
  have "attribute_loop buf 20 = None"
    using attribute_loop_hangs [of buf 20 _ t] 1 2 assms(5) by (cases "attribute_loop buf 20") auto
  with assms(1,2) m n show ?thesis
    by (auto simp: stunGetPublicIP_def simp flip: buf_def)
qed

theorem stun_hangs_witness:
  "stunGetPublicIP \<lparr>stun_sendto = 20, stun_recvfrom = 24,
     stun_datagram = put16 0x0101 @ replicate 18 0 @ put16 0x0001 @ put16 0xFFFC @ [],
     stun_stack = replicate 200 0\<rparr> = None"
  by (rule stun_hangs [where hdr = "replicate 18 0" and t = 1 and rest = "[]"]) simp_all

text \<open>Without a negative length the loop advances.\<close>

lemma attribute_loop_returns:
  assumes "\<And>k l. load_be16 buf k = Inr l \<Longrightarrow> 0 \<le> sint l"
  shows "\<exists>r. attribute_loop buf i = Some r"
proof (induction "nat (int MAXLINE - i)" arbitrary: i rule: less_induct)
  case less
  show ?case
  proof (cases "0 \<le> i \<and> i < int MAXLINE")
    case True
    show ?thesis
    proof (cases "load_be16 buf (nat i + 2)")
      case (Inl e)
      then show ?thesis by (subst attribute_loop.simps) (cases "load_be16 buf (nat i)"; simp)
    next
      case (Inr l)
      have "\<exists>r. attribute_loop buf (i + 4 + sint l) = Some r"
        using assms [OF Inr] True by (intro less) simp
      with Inr show ?thesis by (subst attribute_loop.simps) (cases "load_be16 buf (nat i)"; auto)
    qed
  next
    case False
    then show ?thesis by (subst attribute_loop.simps) auto
  qed
qed

text \<open>If no two neighbouring bytes of the received array read as a negative length, the client
  returns, whatever the response is.\<close>

theorem stun_returns:
  assumes "\<And>k l. load_be16 (stun_buf env) k = Inr l \<Longrightarrow> 0 \<le> sint l"
  shows "\<exists>r. stunGetPublicIP env = Some r"
proof -
  have "\<exists>r. attribute_loop (stun_buf env) 20 = Some r"
    by (rule attribute_loop_returns) (rule assms)
  then obtain r where "attribute_loop (stun_buf env) 20 = Some r" by blast
  then show ?thesis
    by (cases r; cases "load_be16 (stun_buf env) 0"; cases "load_be16 (stun_buf env) 2")
      (auto simp: stunGetPublicIP_def)
qed

theorem stun_returns_witness:
  "\<exists>r. stunGetPublicIP \<lparr>stun_sendto = 20, stun_recvfrom = 24, stun_datagram = replicate 24 0,
     stun_stack = replicate 200 0\<rparr> = Some r"
proof (rule stun_returns)
  let ?e = "\<lparr>stun_sendto = 20, stun_recvfrom = 24, stun_datagram = replicate 24 0, stun_stack = replicate 200 0\<rparr>"
  fix k and l :: "16 word"
  assume "load_be16 (stun_buf ?e) k = Inr l"
  moreover have "stun_buf ?e = replicate 200 0"
    by (simp add: stun_buf_def Let_def flip: replicate_add)
  ultimately have "l = 0"
    by (auto simp: load_be16_def rbind_eq_Inr array_get_eq_Inr be16_def)
  then show "0 \<le> sint l" by simp
qed

end
