(* ===== verification/Depspace_Client.thy ===== *)
theory Depspace_Client
  imports Sockets
begin

text \<open>
  \<^verbatim>\<open>MACHETE/SCMultipath/register_dep.c\<close> and \<^verbatim>\<open>MACHETE/SCNodeCode/register_dep.c\<close>: the
  text protocol with the adapter of the tuple space, by which receivers and nodes register
  and by which a sender learns the overlay nodes and the receiver's addresses.
\<close>

abbreviation DEP_LENGTH :: nat where
  "DEP_LENGTH \<equiv> 512"

section \<open>Registering\<close>

text \<open>
  The loop that joins the interfaces with commas, on the rest of the array of pointers: it
  stops at a null pointer, looking one slot ahead.
\<close>

fun append_interfaces :: "string \<Rightarrow> string option list \<Rightarrow> string res" where
  "append_interfaces buf [] = Inl OutOfBounds"
| "append_interfaces buf (None # rest) = Inr buf"
| "append_interfaces buf (Some s # rest) =
     rbind (strcat DEP_LENGTH buf s) (\<lambda>buf1.
       case rest of
         [] \<Rightarrow> Inl OutOfBounds
       | None # _ \<Rightarrow> Inr buf1
       | Some _ # _ \<Rightarrow> rbind (strcat DEP_LENGTH buf1 '','') (\<lambda>buf2. append_interfaces buf2 rest))"

text \<open>\<^verbatim>\<open>device,<primary>,<n>\<close> or \<^verbatim>\<open>node,<primary>\<close>, with the line end.\<close>

definition append_tuple :: "string \<Rightarrow> int \<Rightarrow> string option list \<Rightarrow> int \<Rightarrow> string res" where
  "append_tuple buf num_interfaces interfaces type =
     rbind (strcat DEP_LENGTH buf (if type = 1 then ''device,'' else ''node,'')) (\<lambda>buf1.
     rbind (strcpy 5 (dec_int num_interfaces)) (\<lambda>num_int.
     rbind (rbind (array_get interfaces 0) nonnull) (\<lambda>primary.
     rbind (strcats DEP_LENGTH buf1 ([primary] @ (if type = 1 then ['','', num_int] else []) @ [''\<newline>'']))
       Inr)))"

definition append_addresses :: "string \<Rightarrow> string \<Rightarrow> string option list \<Rightarrow> int \<Rightarrow> string res" where
  "append_addresses command buf interfaces type =
     (if type = 1
      then rbind (strcat DEP_LENGTH buf command) (\<lambda>buf1.
           rbind (append_interfaces buf1 interfaces) (\<lambda>buf2.
           strcat DEP_LENGTH buf2 ''\<newline>''))
      else Inr buf)"

definition registration :: "int \<Rightarrow> string option list \<Rightarrow> int \<Rightarrow> string res" where
  "registration num_interfaces interfaces type =
     rbind (strcpy DEP_LENGTH ''inp '') (\<lambda>b0.
     rbind (append_tuple b0 num_interfaces interfaces type) (\<lambda>b1.
     rbind (append_addresses ''inp '' b1 interfaces type) (\<lambda>b2.
     rbind (strcat DEP_LENGTH b2 ''out '') (\<lambda>b3.
     rbind (append_tuple b3 num_interfaces interfaces type) (\<lambda>b4.
     append_addresses ''out '' b4 interfaces type)))))"

text \<open>
  The answer is looked at once; the function returns 1 whatever it says.  An empty stream
  is a \<^verbatim>\<open>recv\<close> of 0, an empty piece one of -1.
\<close>

definition first_answer :: "char list \<Rightarrow> stream \<Rightarrow> bool option res" where
  "first_answer buf s =
     (if s = [] then Inr None
      else rbind (c_string (fst (recv_into buf DEP_LENGTH s))) (\<lambda>t. Inr (Some (strstr t ''OK''))))"

definition register_to_manager :: "int \<Rightarrow> string option list \<Rightarrow> int \<Rightarrow> stream
    \<Rightarrow> (char list \<times> bool option \<times> int) res" where
  "register_to_manager num_interfaces interfaces type s =
     rbind (registration num_interfaces interfaces type) (\<lambda>text.
     rbind (first_answer (replicate DEP_LENGTH NUL) s) (\<lambda>ok.
       Inr (text @ [NUL], ok, 1)))"

text \<open>
  The node's version sends without the terminator and clears only as much of its 1024
  characters as it has used; \<open>junk\<close> is what the stack held.
\<close>

definition registerDep :: "string \<Rightarrow> char list \<Rightarrow> stream \<Rightarrow> (char list \<times> bool option \<times> int) res" where
  "registerDep primary_addr junk s =
     rbind (build_string 1024 ''out '' [''node,'', primary_addr, ''\<newline>'']) (\<lambda>text.
     rbind (first_answer (replicate (Suc (length text)) NUL @ drop (Suc (length text)) junk) s) (\<lambda>ok.
       Inr (text, ok, 1)))"

text \<open>
  An answer whose first piece is not longer than the registration, such as \<^verbatim>\<open>OK\<close>, ends in
  the cleared part of the array.
\<close>

lemma registerDep_short_answer:
  assumes "length primary_addr < 20" "s = [] \<or> length (hd s) \<le> 10 + length primary_addr"
  obtains ok where "registerDep primary_addr junk s = Inr (''out node,'' @ primary_addr @ ''\<newline>'', ok, 1)"
proof -
  let ?text = "''out node,'' @ primary_addr @ ''\<newline>''"
  let ?buf = "replicate (Suc (length ?text)) NUL @ drop (Suc (length ?text)) junk"
  obtain ok where ok: "first_answer ?buf s = Inr ok"
  proof (cases s)
    case Nil
    then show ?thesis using that by (simp add: first_answer_def)
  next
    case (Cons c cs)
    with assms have c: "length c \<le> length ?text" "length c \<le> DEP_LENGTH" by auto
    have "NUL \<in> set (drop (length c) (replicate (Suc k) NUL))" if "length c \<le> k" for k
      using that unfolding drop_replicate by simp
    from this [OF c(1)] have "NUL \<in> set (drop (length c) ?buf)" by (metis UnCI drop_append set_append)
    with Cons recv_whole [OF c(2), of cs] have "NUL \<in> set (fst (recv_into ?buf DEP_LENGTH s))"
      unfolding recv_into_def store_bytes_def by simp
    with Cons that show ?thesis unfolding first_answer_def c_string_def by simp
  qed
  with assms(1) that show ?thesis by (simp add: registerDep_def build_string_eq)
qed

section \<open>Asking for the overlay nodes\<close>

text \<open>
  The receive loop of \<^verbatim>\<open>get_overlay_nodes_from_manager\<close>.  \<open>hops\<close> are the caller's 20 arrays
  of 20 characters.  The array is only cleared after a tuple, so an answer is read over what
  the last one left.
\<close>

abbreviation IP_ADDR_LENGTH :: nat where
  "IP_ADDR_LENGTH \<equiv> 20"

definition take_hop :: "string \<Rightarrow> nat \<Rightarrow> string list \<Rightarrow> string list res" where
  "take_hop text i hops =
     (let (temp, st) = strtok '','' text in
      rbind (nonnull (fst (strtok ''>'' st))) (\<lambda>ip.
      rbind (strcpy IP_ADDR_LENGTH ip) (\<lambda>hop. array_set hops i hop)))"

function nodes_loop :: "char list \<Rightarrow> stream \<Rightarrow> nat \<Rightarrow> string list \<Rightarrow> (nat \<times> string list) res" where
  "nodes_loop buffer s i hops =
     (if s = [] then Inr (i, hops)
      else let (buf, s') = recv_into buffer DEP_LENGTH s in
        rbind (c_string buf) (\<lambda>text.
          if strstr text ''ERROR'' then Inr (i, hops)
          else if strstr text ''OK'' then nodes_loop buf s' i hops
          else if text = ''\<newline>'' then Inr (i, hops)
          else rbind (take_hop text i hops) (\<lambda>hops'.
            nodes_loop (replicate DEP_LENGTH NUL) s' (Suc i) hops')))"
  by pat_completeness auto

termination
  by (relation "measure (\<lambda>(buffer, s, i, hops). stream_size s)") (auto dest: recv_into_size [OF sym])

declare nodes_loop.simps [simp del]

definition get_overlay_nodes_from_manager :: "stream \<Rightarrow> string list \<Rightarrow> (char list \<times> nat \<times> string list) res" where
  "get_overlay_nodes_from_manager s hops =
     rbind (strcpy DEP_LENGTH ''rdall node,*\<newline>'') (\<lambda>command.
     rbind (nodes_loop (replicate DEP_LENGTH NUL) s 0 hops) (\<lambda>(n, hops').
       Inr (command @ [NUL], n, hops')))"

section \<open>Asking for the receiver's addresses\<close>

text \<open>
  Both receive loops of \<^verbatim>\<open>get_receiver_info_from_manager\<close>: answers with OK are skipped
  without clearing the array, the first other one ends the loop.
\<close>

function skip_ok :: "char list \<Rightarrow> stream \<Rightarrow> (string \<times> stream) res" where
  "skip_ok buffer s =
     (if s = [] then rbind (c_string buffer) (\<lambda>text. Inr (text, []))
      else let (buf, s') = recv_into buffer DEP_LENGTH s in
        rbind (c_string buf) (\<lambda>text. if strstr text ''OK'' then skip_ok buf s' else Inr (text, s')))"
  by pat_completeness auto

termination
  by (relation "measure (\<lambda>(buffer, s). stream_size s)") (auto dest: recv_into_size split: prod.splits)

declare skip_ok.simps [simp del]

text \<open>\<^verbatim>\<open>strtok(p, s)\<close> with the state to go on with when \<^verbatim>\<open>p\<close> is null.\<close>

definition strtok_or :: "string \<Rightarrow> string option \<Rightarrow> string \<Rightarrow> string option \<times> string" where
  "strtok_or delims p st = (case p of None \<Rightarrow> strtok delims st | Some s \<Rightarrow> strtok delims s)"

text \<open>The number of addresses: the third part, up to \<^verbatim>\<open>>\<close>.\<close>

definition parse_size :: "string \<Rightarrow> int res" where
  "parse_size text =
     (let (t1, st1) = strtok '','' text;
          (t2, st2) = strtok '','' st1;
          (size_str, st3) = strtok '','' st2;
          (n, st4) = strtok_or ''>'' size_str st3 in
      rbind (nonnull n) (\<lambda>n. Inr (atoi n)))"

text \<open>The second command: a template with as many fields as there are addresses.\<close>

definition address_command :: "string \<Rightarrow> int \<Rightarrow> string res" where
  "address_command prim_dest size0 =
     build_string DEP_LENGTH ''rdp '' (prim_dest # replicate (nat (size0 - 1)) '',*'' @ [''\<newline>''])"

fun take_addresses :: "nat \<Rightarrow> string \<Rightarrow> nat \<Rightarrow> string list \<Rightarrow> string list res" where
  "take_addresses 0 st i dsts = Inr dsts"
| "take_addresses (Suc k) st i dsts =
     (let (t, st') = strtok '','' st in
      rbind (nonnull t) (\<lambda>t.
      rbind (strcpy IP_ADDR_LENGTH t) (\<lambda>d.
      rbind (array_set dsts i d) (\<lambda>dsts'.
      take_addresses k st' (Suc i) dsts'))))"

text \<open>
  The text between the second pair of brackets that \<^verbatim>\<open>strtok\<close> finds: first the part before
  \<^verbatim>\<open><\<close>, then what follows it, cut at \<^verbatim>\<open>>\<close>.  Address 0 is always taken.
\<close>

definition parse_addresses :: "string \<Rightarrow> int \<Rightarrow> string list \<Rightarrow> string list res" where
  "parse_addresses text size0 dsts =
     (let (t0, st0) = strtok ''<'' text;
          (t1, st1) = strtok ''<'' st0;
          (t2, st2) = strtok_or ''>'' t1 st1;
          st3 = (case t2 of None \<Rightarrow> st2 | Some t \<Rightarrow> t) in
      take_addresses (max 1 (nat size0)) st3 0 dsts)"

definition get_receiver_info_from_manager ::
    "string \<Rightarrow> stream \<Rightarrow> string list \<Rightarrow> (char list list \<times> int \<times> string list) res" where
  "get_receiver_info_from_manager prim_dest s dsts =
     rbind (build_string DEP_LENGTH ''rdp device,'' [prim_dest, '',*\<newline>'']) (\<lambda>command1.
     rbind (skip_ok (replicate DEP_LENGTH NUL) s) (\<lambda>(text1, s1).
     rbind (parse_size text1) (\<lambda>size0.
     rbind (address_command prim_dest size0) (\<lambda>command2.
     rbind (skip_ok (replicate DEP_LENGTH NUL) s1) (\<lambda>(text2, s2).
     rbind (parse_addresses text2 size0 dsts) (\<lambda>dsts'.
       Inr ([command1 @ [NUL], command2 @ [NUL]], size0, dsts')))))))"

section \<open>Answers that arrive line by line\<close>

lemma strstr_suffix: "strstr t needle \<Longrightarrow> strstr (s @ t) needle"
  by (induction s) auto

lemma strstr_infix [simp]: "strstr (s @ needle @ t) needle"
proof (rule strstr_suffix)
  show "strstr (needle @ t) needle"
    by (cases needle; cases "needle @ t") auto
qed

abbreviation padded :: "string \<Rightarrow> char list" where
  "padded w \<equiv> w @ replicate (DEP_LENGTH - length w) NUL"

lemma c_string_padded: "cstr c \<Longrightarrow> length c < DEP_LENGTH \<Longrightarrow> c_string (padded c) = Inr c"
  by (cases "DEP_LENGTH - length c") (auto simp: c_string_terminated)

lemma recv_piece:
  assumes "length w \<le> length c" "length c < DEP_LENGTH"
  shows "recv_into (padded w) DEP_LENGTH (c # s) = (padded c, s)"
  using assms by (simp add: recv_into_def store_bytes_def)

lemma padded_Nil: "padded [] = replicate DEP_LENGTH NUL"
  by simp

text \<open>A line that names a node: anything, a comma, the address up to \<^verbatim>\<open>>\<close>.\<close>

definition node_line :: "string \<times> string \<times> string \<Rightarrow> string" where
  "node_line l = (case l of (pre, ip, post) \<Rightarrow> pre @ '','' @ ip @ ''>'' @ post)"

definition node_line_ok :: "string \<times> string \<times> string \<Rightarrow> bool" where
  "node_line_ok l = (case l of (pre, ip, post) \<Rightarrow>
     token '','' pre \<and> token ''>'' ip \<and> length ip < IP_ADDR_LENGTH \<and> cstr (node_line l) \<and>
     length (node_line l) < DEP_LENGTH \<and> \<not> strstr (node_line l) ''OK'' \<and> \<not> strstr (node_line l) ''ERROR'')"

definition line_ip :: "string \<times> string \<times> string \<Rightarrow> string" where
  "line_ip l = fst (snd l)"

lemma take_hop_line:
  assumes "node_line_ok l"
  shows "take_hop (node_line l) i hops = array_set hops i (line_ip l)"
proof -
  obtain pre ip post where l: "l = (pre, ip, post)" by (cases l)
  have "strtok '','' (pre @ CHR '','' # (ip @ ''>'' @ post)) = (Some pre, ip @ ''>'' @ post)"
    using assms(1) l by (intro strtok_next) (simp_all add: node_line_ok_def)
  moreover have "strtok ''>'' (ip @ CHR ''>'' # post) = (Some ip, post)"
    using assms(1) l by (intro strtok_next) (simp_all add: node_line_ok_def)
  ultimately show ?thesis
    using assms l by (simp add: take_hop_def node_line_def node_line_ok_def line_ip_def strcpy_def)
qed

lemma nodes_loop_line:
  assumes "node_line_ok l" "length w \<le> 3"
  shows "nodes_loop (padded w) (node_line l # s) i hops =
    rbind (array_set hops i (line_ip l)) (nodes_loop (replicate DEP_LENGTH NUL) s (Suc i))"
proof -
  obtain pre ip post where l: "l = (pre, ip, post)" by (cases l)
  have ne: "pre \<noteq> []" "ip \<noteq> []" using assms(1) l by (auto simp: node_line_ok_def token_def)
  have len: "4 \<le> length (node_line l)"
    using ne by (cases pre; cases ip) (simp_all add: l node_line_def)
  have ok: "cstr (node_line l)" "length (node_line l) < DEP_LENGTH" "\<not> strstr (node_line l) ''OK''"
    "\<not> strstr (node_line l) ''ERROR''" using assms(1) by (auto simp: node_line_ok_def split: prod.splits)
  have "node_line l \<noteq> ''\<newline>''" using len by auto
  then show ?thesis
    using recv_piece [of w "node_line l" s] c_string_padded [OF ok(1,2)] ok len assms(2)
      take_hop_line [OF assms(1)]
    by (subst nodes_loop.simps) simp
qed

text \<open>The lines are stored one by one; the array has no other bound than its end.\<close>

lemma nodes_loop_overrun:
  assumes "list_all node_line_ok ls" "i \<le> length hops" "length hops < i + length ls"
  shows "nodes_loop (replicate DEP_LENGTH NUL) (map node_line ls @ s) i hops = Inl OutOfBounds"
  using assms
proof (induction ls arbitrary: i hops)
  case (Cons l ls)
  have "nodes_loop (replicate DEP_LENGTH NUL) (map node_line (l # ls) @ s) i hops =
      rbind (array_set hops i (line_ip l)) (nodes_loop (replicate DEP_LENGTH NUL) (map node_line ls @ s) (Suc i))"
    using nodes_loop_line [of l "[]"] Cons.prems by simp
  with Cons.IH [of "Suc i" "hops[i := line_ip l]"] Cons.prems show ?case
    by (cases "i < length hops") simp_all
qed simp

lemma nodes_loop_lines:
  assumes "list_all node_line_ok ls" "i + length ls \<le> length hops"
  shows "nodes_loop (replicate DEP_LENGTH NUL) (map node_line ls @ ''\<newline>'' # s) i hops =
    Inr (i + length ls, take i hops @ map line_ip ls @ drop (i + length ls) hops)"
  using assms
proof (induction ls arbitrary: i hops)
  case Nil
  have "c_string (padded ''\<newline>'') = Inr ''\<newline>''" by (rule c_string_padded) simp_all
  then show ?case
    using recv_piece [of "[]" "''\<newline>''" s] by (subst nodes_loop.simps) simp
next
  case (Cons l ls)
  have "nodes_loop (replicate DEP_LENGTH NUL) (map node_line (l # ls) @ ''\<newline>'' # s) i hops =
      nodes_loop (replicate DEP_LENGTH NUL) (map node_line ls @ ''\<newline>'' # s) (Suc i) (hops[i := line_ip l])"
    using nodes_loop_line [of l "[]"] Cons.prems by simp
  with Cons.IH [of "Suc i" "hops[i := line_ip l]"] Cons.prems show ?case
    by (simp add: take_Suc_conv_app_nth)
qed

lemma nodes_loop_OK:
  "nodes_loop (replicate DEP_LENGTH NUL) (''OK\<newline>'' # s) i hops = nodes_loop (padded ''OK\<newline>'') s i hops"
proof -
  have "c_string (padded ''OK\<newline>'') = Inr ''OK\<newline>''" by (rule c_string_padded) simp_all
  then show ?thesis
    using recv_piece [of "[]" "''OK\<newline>''" s] by (subst nodes_loop.simps) simp
qed

section \<open>Properties of the node query\<close>

lemma rdall_command: "strcpy DEP_LENGTH ''rdall node,*\<newline>'' = Inr ''rdall node,*\<newline>''"
  by simp

lemma nodes_loop_after_OK:
  assumes "ls \<noteq> []" "list_all node_line_ok ls"
  shows "nodes_loop (replicate DEP_LENGTH NUL) (''OK\<newline>'' # map node_line ls @ s) i hops =
    nodes_loop (replicate DEP_LENGTH NUL) (map node_line ls @ s) i hops"
proof -
  obtain l ls' where ls: "ls = l # ls'" "node_line_ok l" using assms by (cases ls) auto
  from nodes_loop_line [OF ls(2), of "''OK\<newline>''"] nodes_loop_line [OF ls(2), of "[]"] show ?thesis
    by (simp add: ls(1) nodes_loop_OK)
qed

lemma overlay_nodes_learned:
  assumes "ls \<noteq> []" "list_all node_line_ok ls" "length ls \<le> length hops"
  shows "get_overlay_nodes_from_manager (''OK\<newline>'' # map node_line ls @ ''\<newline>'' # s) hops =
    Inr (''rdall node,*\<newline>'' @ [NUL], length ls, map line_ip ls @ drop (length ls) hops)"
  using nodes_loop_lines [OF assms(2), of 0 hops s] assms(3)
  by (simp add: get_overlay_nodes_from_manager_def nodes_loop_after_OK [OF assms(1,2)] rdall_command)

lemma overlay_nodes_overrun:
  assumes "list_all node_line_ok ls" "length hops < length ls"
  shows "get_overlay_nodes_from_manager (''OK\<newline>'' # map node_line ls @ s) hops = Inl OutOfBounds"
  using nodes_loop_overrun [OF assms(1), of 0 hops] assms nodes_loop_after_OK [of ls s]
  by (cases "ls = []") (simp_all add: get_overlay_nodes_from_manager_def rdall_command)

text \<open>C20.
  When the adapter's answer arrives line by line (OK, one line per node, an empty line), the
  sender learns exactly the advertised nodes, in order, whatever else the lines hold.\<close>

theorem overlay_nodes_exact:
  assumes "ls \<noteq> []" "list_all node_line_ok ls" "length ls \<le> length hops"
  shows "get_overlay_nodes_from_manager (''OK\<newline>'' # map node_line ls @ ''\<newline>'' # s) hops =
    Inr (''rdall node,*\<newline>'' @ [NUL], length ls, map line_ip ls @ drop (length ls) hops)"
  by (rule overlay_nodes_learned [OF assms])

definition sample_lines :: "(string \<times> string \<times> string) list" where
  "sample_lines = [(''<node'', ''10.0.0.7'', ''\<newline>''), (''<node'', ''10.0.0.8'', ''\<newline>'')]"

theorem overlay_nodes_exact_witness:
  "get_overlay_nodes_from_manager (''OK\<newline>'' # map node_line sample_lines @ ''\<newline>'' # []) [''a'', ''b'', ''c''] =
    Inr (''rdall node,*\<newline>'' @ [NUL], 2, [''10.0.0.7'', ''10.0.0.8'', ''c''])"
  using overlay_nodes_exact [of sample_lines "[''a'', ''b'', ''c'']" "[]"]
  by (simp add: sample_lines_def node_line_ok_def node_line_def line_ip_def token_def numeral_2_eq_2)

text \<open>With no overlay node registered the sender crashes: the empty line that ends the answer is
  read over the OK that is still in the buffer, is not recognised, and is parsed for a node.\<close>

theorem no_overlay_nodes_crashes:
  "get_overlay_nodes_from_manager (''OK\<newline>'' # ''\<newline>'' # s) hops = Inl NullDeref"
proof -
  let ?t = "[CHR 0x0A, CHR ''K'', CHR 0x0A]"
  have r: "recv_into (padded ''OK\<newline>'') DEP_LENGTH (''\<newline>'' # s) = (padded ?t, s)"
    by (simp add: recv_into_def store_bytes_def)
  have "c_string (padded ?t) = Inr ?t" by (rule c_string_padded) simp_all
  moreover have "strtok '','' ?t = (Some ?t, [])" by (rule strtok_last) (simp add: token_def)
  ultimately have "nodes_loop (padded ''OK\<newline>'') (''\<newline>'' # s) 0 hops = Inl NullDeref"
    using r by (subst nodes_loop.simps) (simp add: take_hop_def)
  then show ?thesis
    by (simp add: get_overlay_nodes_from_manager_def nodes_loop_OK rdall_command)
qed

text \<open>The parser depends on how the network cuts the answer: if the nodes arrive in one piece
  with the OK, that piece is skipped and the sender finds none of them.\<close>

theorem coalesced_answer_lost:
  assumes "cstr (pre @ ''OK'' @ post)" "length (pre @ ''OK'' @ post) < DEP_LENGTH"
    and "\<not> strstr (pre @ ''OK'' @ post) ''ERROR''"
  shows "get_overlay_nodes_from_manager [pre @ ''OK'' @ post] hops =
    Inr (''rdall node,*\<newline>'' @ [NUL], 0, hops)"
proof -
  let ?c = "pre @ ''OK'' @ post"
  have "recv_into (padded []) DEP_LENGTH [?c] = (padded ?c, [])"
    by (rule recv_piece) (use assms(2) in simp_all)
  moreover have "strstr ?c ''OK''" by (rule strstr_infix)
  ultimately have "nodes_loop (replicate DEP_LENGTH NUL) [?c] 0 hops = nodes_loop (padded ?c) [] 0 hops"
    using c_string_padded [OF assms(1,2)] assms(3) by (subst nodes_loop.simps) simp
  also have "\<dots> = Inr (0, hops)" by (subst nodes_loop.simps) simp
  finally show ?thesis by (simp add: get_overlay_nodes_from_manager_def rdall_command)
qed

theorem coalesced_answer_lost_witness:
  "get_overlay_nodes_from_manager [[] @ ''OK'' @ ''\<newline><node,10.0.0.7>\<newline>\<newline>''] [''a''] =
    Inr (''rdall node,*\<newline>'' @ [NUL], 0, [''a''])"
  by (rule coalesced_answer_lost) simp_all

section \<open>The receiver's addresses\<close>

fun comma_join :: "string list \<Rightarrow> string" where
  "comma_join [] = []"
| "comma_join [a] = a"
| "comma_join (a # as) = a @ '','' @ comma_join as"

lemma comma_join_Cons: "as \<noteq> [] \<Longrightarrow> comma_join (a # as) = a @ CHR '','' # comma_join as"
  by (cases as) auto

lemma take_addresses_join:
  assumes "list_all (token '','') as" "list_all (\<lambda>a. length a < IP_ADDR_LENGTH) as" "as \<noteq> []"
    and "i + length as \<le> length dsts"
  shows "take_addresses (length as) (comma_join as) i dsts =
    Inr (take i dsts @ as @ drop (i + length as) dsts)"
  using assms
proof (induction as arbitrary: i dsts)
  case (Cons a as)
  show ?case
  proof (cases "as = []")
    case True
    with Cons.prems show ?thesis by (simp add: strcpy_def upd_conv_take_nth_drop)
  next
    case False
    with Cons show ?thesis
      by (simp add: comma_join_Cons strcpy_def take_Suc_conv_app_nth)
  qed
qed simp

lemma take_addresses_overrun:
  assumes "list_all (token '','') as" "list_all (\<lambda>a. length a < IP_ADDR_LENGTH) as"
    and "i \<le> length dsts" "length dsts < i + length as"
  shows "take_addresses (length as) (comma_join as) i dsts = Inl OutOfBounds"
  using assms
proof (induction as arbitrary: i dsts)
  case (Cons a as)
  show ?case
  proof (cases "as = []")
    case True
    with Cons.prems show ?thesis by (simp add: strcpy_def)
  next
    case False
    with Cons.IH [of "Suc i" "dsts[i := a]"] Cons.prems show ?thesis
      by (cases "i < length dsts") (simp_all add: comma_join_Cons strcpy_def)
  qed
qed simp

lemma skip_ok_line:
  assumes "cstr c" "length c < DEP_LENGTH" "3 \<le> length c" "\<not> strstr c ''OK''"
  shows "skip_ok (replicate DEP_LENGTH NUL) (''OK\<newline>'' # c # s) = Inr (c, s)"
proof -
  have "c_string (padded ''OK\<newline>'') = Inr ''OK\<newline>''" by (rule c_string_padded) simp_all
  then have "skip_ok (replicate DEP_LENGTH NUL) (''OK\<newline>'' # c # s) = skip_ok (padded ''OK\<newline>'') (c # s)"
    using recv_piece [of "[]" "''OK\<newline>''" "c # s"] by (subst skip_ok.simps) simp
  also have "\<dots> = Inr (c, s)"
    using recv_piece [of "''OK\<newline>''" c s] c_string_padded [OF assms(1,2)] assms
    by (subst skip_ok.simps) simp
  finally show ?thesis .
qed

definition size_line :: "string \<Rightarrow> string \<Rightarrow> int \<Rightarrow> string \<Rightarrow> string" where
  "size_line pre addr n post = pre @ '','' @ addr @ '','' @ dec_int n @ ''>'' @ post"

lemma parse_size_line:
  assumes "token '','' pre" "token '','' addr" "0 \<le> n" "CHR '','' \<notin> set post"
  shows "parse_size (size_line pre addr n post) = Inr n"
proof -
  have nd: "\<not> is_digit (CHR '','')" "\<not> is_digit (CHR ''>'')" by (simp_all add: is_digit_def)
  have t: "token '','' (dec_int n)" "token ''>'' (dec_int n)"
    using assms(3) nd by (auto intro: dec_nonneg_token)
  have "token '','' (dec_int n @ ''>'' @ post)"
    using t(1) assms(4) by (simp add: token_def)
  moreover have "strtok ''>'' (dec_int n @ CHR ''>'' # post) = (Some (dec_int n), post)"
    using t(2) by (intro strtok_next) simp_all
  ultimately show ?thesis
    using assms by (simp add: size_line_def parse_size_def strtok_or_def atoi_dec_int)
qed

definition address_line :: "string \<Rightarrow> string list \<Rightarrow> string \<Rightarrow> string" where
  "address_line pre as post = pre @ ''<'' @ comma_join as @ ''>'' @ post"

lemma comma_join_set: "c \<in> set (comma_join as) \<Longrightarrow> c = CHR '','' \<or> (\<exists>a\<in>set as. c \<in> set a)"
  by (induction as rule: comma_join.induct) auto

lemma comma_join_ne: "as \<noteq> [] \<Longrightarrow> list_all (token '','') as \<Longrightarrow> comma_join as \<noteq> []"
  by (cases as; cases "tl as") (auto simp: token_def)

definition address_ok :: "string \<Rightarrow> bool" where
  "address_ok a \<longleftrightarrow> token '','' a \<and> length a < IP_ADDR_LENGTH \<and> set a \<inter> set ''<>'' = {}"

lemma parse_address_line:
  assumes "list_all address_ok as" "as \<noteq> []" "token ''<'' pre" "CHR ''<'' \<notin> set post"
  shows "parse_addresses (address_line pre as post) (int (length as)) dsts =
    (if length as \<le> length dsts then Inr (as @ drop (length as) dsts) else Inl OutOfBounds)"
proof -
  let ?j = "comma_join as"
  have tk: "list_all (token '','') as" "list_all (\<lambda>a. length a < IP_ADDR_LENGTH) as"
    using assms(1) by (auto simp: list_all_iff address_ok_def)
  have ne: "?j \<noteq> []" using comma_join_ne assms(2) tk(1) by blast
  have clean: "set ?j \<inter> set ''<>'' = {}"
    using assms(1) by (auto simp: list_all_iff address_ok_def dest!: comma_join_set)
  have 0: "strtok ''<'' (pre @ CHR ''<'' # (?j @ ''>'' @ post)) = (Some pre, ?j @ ''>'' @ post)"
    using assms(3) by (intro strtok_next) simp_all
  have 1: "strtok ''<'' (?j @ ''>'' @ post) = (Some (?j @ ''>'' @ post), [])"
    using ne clean assms(4) by (intro strtok_last) (auto simp: token_def)
  have 2: "strtok ''>'' (?j @ CHR ''>'' # post) = (Some ?j, post)"
    using ne clean by (intro strtok_next) (auto simp: token_def)
  have "max 1 (nat (int (length as))) = length as" using assms(2) by (cases as) auto
  then show ?thesis
    using 0 1 2 take_addresses_join [OF tk assms(2), of 0 dsts] take_addresses_overrun [OF tk, of 0 dsts]
    by (simp add: parse_addresses_def address_line_def strtok_or_def)
qed

text \<open>The part of a line that must hold for its being read at all.\<close>

definition plain_line :: "string \<Rightarrow> bool" where
  "plain_line c \<longleftrightarrow> cstr c \<and> 3 \<le> length c \<and> length c < DEP_LENGTH \<and> \<not> strstr c ''OK''"

lemma receiver_info_bounded:
  assumes "plain_line (size_line pre1 addr (int (length as)) post1)" "plain_line (address_line pre2 as post2)"
    and "token '','' pre1" "token '','' addr" "CHR '','' \<notin> set post1"
    and "as \<noteq> []" "list_all address_ok as" "token ''<'' pre2" "CHR ''<'' \<notin> set post2"
    and "length prim + 2 * length as < 490"
  shows "get_receiver_info_from_manager prim
      [''OK\<newline>'', size_line pre1 addr (int (length as)) post1, ''OK\<newline>'', address_line pre2 as post2] dsts =
    (if length as \<le> length dsts
     then Inr ([''rdp device,'' @ prim @ '',*\<newline>'' @ [NUL],
          ''rdp '' @ prim @ concat (replicate (length as - 1) '',*'') @ ''\<newline>'' @ [NUL]],
         int (length as), as @ drop (length as) dsts)
     else Inl OutOfBounds)"
proof -
  have nd: "nat (int (length as) - 1) = length as - Suc 0" by simp
  have c2: "address_command prim (int (length as)) =
      Inr (''rdp '' @ prim @ concat (replicate (length as - 1) '',*'') @ ''\<newline>'')"
    using assms(6,10) nd
    by (simp add: address_command_def build_string_eq length_concat sum_list_replicate)
  have "skip_ok (replicate DEP_LENGTH NUL) (''OK\<newline>'' # size_line pre1 addr (int (length as)) post1 # s) =
      Inr (size_line pre1 addr (int (length as)) post1, s)" for s
    using assms(1) by (intro skip_ok_line) (auto simp: plain_line_def)
  moreover have "skip_ok (replicate DEP_LENGTH NUL) (''OK\<newline>'' # address_line pre2 as post2 # s) =
      Inr (address_line pre2 as post2, s)" for s
    using assms(2) by (intro skip_ok_line) (auto simp: plain_line_def)
  ultimately show ?thesis
    using parse_size_line [OF assms(3,4) _ assms(5), of "int (length as)"]
      parse_address_line [OF assms(7,6,8,9)] assms(10) c2
    by (simp add: get_receiver_info_from_manager_def build_string_eq)
qed

lemma receiver_info_learned:
  assumes "plain_line (size_line pre1 addr (int (length as)) post1)" "plain_line (address_line pre2 as post2)"
    and "token '','' pre1" "token '','' addr" "CHR '','' \<notin> set post1"
    and "as \<noteq> []" "list_all address_ok as" "token ''<'' pre2" "CHR ''<'' \<notin> set post2"
    and "length as \<le> length dsts" "length prim + 2 * length as < 490"
  shows "get_receiver_info_from_manager prim
      [''OK\<newline>'', size_line pre1 addr (int (length as)) post1, ''OK\<newline>'', address_line pre2 as post2] dsts =
    Inr ([''rdp device,'' @ prim @ '',*\<newline>'' @ [NUL],
          ''rdp '' @ prim @ concat (replicate (length as - 1) '',*'') @ ''\<newline>'' @ [NUL]],
         int (length as), as @ drop (length as) dsts)"
  using receiver_info_bounded [OF assms(1-9,11), of dsts] assms(10) by simp

text \<open>C21.
  A sender that asks for a receiver's addresses, with each answer in a line of its own,
  obtains exactly the registered addresses in order, and its second command asks for as
  many fields as there are addresses.\<close>

theorem receiver_info_exact:
  assumes "plain_line (size_line pre1 addr (int (length as)) post1)" "plain_line (address_line pre2 as post2)"
    and "token '','' pre1" "token '','' addr" "CHR '','' \<notin> set post1"
    and "as \<noteq> []" "list_all address_ok as" "token ''<'' pre2" "CHR ''<'' \<notin> set post2"
    and "length as \<le> length dsts" "length prim + 2 * length as < 490"
  shows "get_receiver_info_from_manager prim
      [''OK\<newline>'', size_line pre1 addr (int (length as)) post1, ''OK\<newline>'', address_line pre2 as post2] dsts =
    Inr ([''rdp device,'' @ prim @ '',*\<newline>'' @ [NUL],
          ''rdp '' @ prim @ concat (replicate (length as - 1) '',*'') @ ''\<newline>'' @ [NUL]],
         int (length as), as @ drop (length as) dsts)"
  by (rule receiver_info_learned [OF assms])

lemma dec_two: "dec_int 2 = ''2''"
  by code_simp

theorem receiver_info_exact_witness:
  "get_receiver_info_from_manager ''10.0.1.1''
      [''OK\<newline>'', size_line ''t<device'' ''10.0.1.1'' (int (length [''10.0.1.1'', ''10.0.2.1''])) ''>'',
       ''OK\<newline>'', address_line ''t'' [''10.0.1.1'', ''10.0.2.1''] ''>''] [''x'', ''y'', ''z''] =
    Inr ([''rdp device,'' @ ''10.0.1.1'' @ '',*\<newline>'' @ [NUL],
          ''rdp '' @ ''10.0.1.1'' @ concat (replicate (length [''10.0.1.1'', ''10.0.2.1''] - 1) '',*'') @ ''\<newline>'' @ [NUL]],
         int (length [''10.0.1.1'', ''10.0.2.1'']),
         [''10.0.1.1'', ''10.0.2.1''] @ drop (length [''10.0.1.1'', ''10.0.2.1'']) [''x'', ''y'', ''z''])"
  by (rule receiver_info_exact)
    (simp_all add: dec_two size_line_def plain_line_def address_line_def address_ok_def token_def)

section \<open>Registration\<close>

lemma append_interfaces_join:
  assumes "ips \<noteq> []" "length buf < DEP_LENGTH"
  shows "append_interfaces buf (map Some ips @ None # rest) =
    (if length buf + length (comma_join ips) < DEP_LENGTH then Inr (buf @ comma_join ips) else Inl BufferOverflow)"
  using assms
proof (induction ips arbitrary: buf)
  case (Cons a ips)
  show ?case
  proof (cases ips)
    case Nil
    then show ?thesis by (simp add: strcat_def rbind_if)
  next
    case (Cons b bs)
    let ?rest = "map Some ips @ None # rest"
    have "append_interfaces buf (map Some (a # ips) @ None # rest) =
        rbind (strcat DEP_LENGTH buf a) (\<lambda>b1. rbind (strcat DEP_LENGTH b1 '','') (\<lambda>b2. append_interfaces b2 ?rest))"
      by (simp add: Cons)
    also have "\<dots> = (if length buf + length a + 1 < DEP_LENGTH
        then append_interfaces (buf @ a @ '','') ?rest else Inl BufferOverflow)"
      by (simp add: strcat_def)
    also have "\<dots> = (if length buf + length (comma_join (a # ips)) < DEP_LENGTH
        then Inr (buf @ comma_join (a # ips)) else Inl BufferOverflow)"
    proof (cases "length buf + length a + 1 < DEP_LENGTH")
      case True
      with Cons.IH [of "buf @ a @ '',''"] Cons show ?thesis
        by (simp add: comma_join_Cons del: map_append list.map append_interfaces.simps)
    next
      case False
      with Cons show ?thesis by (simp add: comma_join_Cons)
    qed
    finally show ?thesis .
  qed
qed simp

definition device_tuple :: "string list \<Rightarrow> string" where
  "device_tuple ips = ''device,'' @ hd ips @ '','' @ dec_int (int (length ips)) @ ''\<newline>''"

definition device_registration :: "string list \<Rightarrow> string" where
  "device_registration ips =
     ''inp '' @ device_tuple ips @ ''inp '' @ comma_join ips @ ''\<newline>'' @
     ''out '' @ device_tuple ips @ ''out '' @ comma_join ips @ ''\<newline>''"

lemma append_tuple_device:
  assumes "ips \<noteq> []" "length ips < 10000" "length buf < DEP_LENGTH"
  shows "append_tuple buf (int (length ips)) (map Some ips @ None # rest) 1 =
    (if length buf + length (device_tuple ips) < DEP_LENGTH then Inr (buf @ device_tuple ips) else Inl BufferOverflow)"
proof -
  obtain a as where ips: "ips = a # as" using assms(1) by (cases ips) auto
  have "length (dec_int (int (length ips))) < 5"
    using length_dec_nat [of "length ips" 4] assms(2) by (simp add: dec_int_nonneg)
  with assms show ?thesis
    by (auto simp: append_tuple_def ips device_tuple_def strcat_def strcats_eq strcpy_def)
qed

lemma append_addresses_device:
  assumes "ips \<noteq> []" "length buf < DEP_LENGTH"
  shows "append_addresses cmd buf (map Some ips @ None # rest) 1 =
    (if length buf + length cmd + length (comma_join ips) + 1 < DEP_LENGTH
     then Inr (buf @ cmd @ comma_join ips @ ''\<newline>'') else Inl BufferOverflow)"
  using assms append_interfaces_join [OF assms(1), of "buf @ cmd" rest]
  by (simp add: append_addresses_def strcat_def rbind_if)

lemma registration_of_device:
  assumes "ips \<noteq> []" "length ips < 10000"
  shows "registration (int (length ips)) (map Some ips @ None # rest) 1 =
    (if length (device_registration ips) < DEP_LENGTH then Inr (device_registration ips) else Inl BufferOverflow)"
  using assms
  by (simp add: registration_def strcpy_def strcat_def append_tuple_device append_addresses_device
      device_registration_def rbind_if)

text \<open>C35.
  A receiver's registration is, when it fits the 512 characters, exactly the four commands
  that replace its two tuples; when it does not, the buffer overflows: a receiver with many
  addresses cannot register.\<close>

theorem registration_exact:
  assumes "ips \<noteq> []" "length ips < 10000"
  shows "registration (int (length ips)) (map Some ips @ None # rest) 1 =
    (if length (device_registration ips) < DEP_LENGTH then Inr (device_registration ips) else Inl BufferOverflow)"
  by (rule registration_of_device [OF assms])

theorem registration_exact_witness:
  "registration (int (length [''10.0.1.1'', ''10.0.2.1''])) (map Some [''10.0.1.1'', ''10.0.2.1''] @ None # []) 1 =
    (if length (device_registration [''10.0.1.1'', ''10.0.2.1'']) < DEP_LENGTH
     then Inr (device_registration [''10.0.1.1'', ''10.0.2.1'']) else Inl BufferOverflow)"
  by (rule registration_exact) simp_all

end
