(* ===== verification/Sending_Handler.thy ===== *)
theory Sending_Handler
  imports Path_Monitoring Nat_Rules Virtual_Interfaces Connectivity Stun Depspace_Client
begin

text \<open>
  \<^verbatim>\<open>MACHETE/SCMultipath/sending_handler.c\<close>, with \<^verbatim>\<open>connection_manager.c\<close>: the sender.  It
  finds overlay nodes and receiver addresses, pairs every source with every destination
  over one node, installs the rules of each such flow, monitors the paths, and undoes all
  of it.
\<close>

section \<open>State\<close>

datatype machete_reaction =
    SHUTDOWN_COMMUNICATION
  | SHUTDOWN_COMMUNICATION_AND_STARTS_AGAIN_WOUT_BAD_PATH
  | REUSE_PATHS_LEFT
  | CREATE_NEW_PATH
  | DO_NOTHING_AND_IGNORE_ALERTS
  | Unknown_Reaction int

record setup_sender_arg =
  receiver_addr :: string
  receiver_port :: int
  depspace_proxy_addr :: string
  depspace_proxy_port :: int
  overlay_port :: int
  min_number_of_nodes :: int
  use_stun_server :: int
  reaction_spec :: machete_reaction
  max_alerts :: int

datatype clock_pointer = Clock_Null | Clock_Running | Clock_Freed

text \<open>
  The globals of the file and of the modules it drives.  \<open>connection_timer\<close>: the pointer
  \<^verbatim>\<open>begin_connection_time\<close>, null until the first connection and dangling after its end.  \<open>commands\<close> and \<open>exchanges\<close> record, in order, what is
  passed to \<^verbatim>\<open>system\<close> and the exchanges with overlay nodes.
\<close>

record sender =
  hops :: "string list"
  srcs :: "string list"
  dsts :: "string list"
  primary_interface :: string
  numSrcs :: int
  numHops :: int
  numDsts :: int
  dar_ip :: string
  dar_port :: int
  monitor :: path_monitor
  log_open :: bool
  connection_timer :: clock_pointer
  connection_open :: bool
  handler_registered :: bool
  commands :: "string list"
  exchanges :: "node_io list list"

text \<open>
  The environment of the flows: STUN servers, the nodes' answers, which nodes then keep the
  connection open and stay silent, and uninitialised memory.
\<close>

record flow_env =
  stun_of :: "nat \<Rightarrow> nat \<Rightarrow> stun_env"
  replies :: "nat \<Rightarrow> nat \<Rightarrow> stream"
  silent :: "nat \<Rightarrow> nat \<Rightarrow> bool"
  junk :: "char list"

section \<open>Flows\<close>

text \<open>The loops over sources and destinations, and the node of each pair.\<close>

definition flows :: "sender \<Rightarrow> (nat \<times> nat) list" where
  "flows s = List.product [0..<nat (numSrcs s)] [0..<nat (numDsts s)]"

definition hop_index :: "sender \<Rightarrow> nat \<times> nat \<Rightarrow> nat" where
  "hop_index s f = (case f of (i, j) \<Rightarrow> (i * nat (numDsts s) + j) mod nat (numHops s))"

definition flow_hop :: "sender \<Rightarrow> nat \<times> nat \<Rightarrow> string res" where
  "flow_hop s f = rbind (guard (numHops s \<noteq> 0) DivByZero) (\<lambda>_. array_get (hops s) (hop_index s f))"

definition public_source :: "int \<Rightarrow> stun_env \<Rightarrow> string \<Rightarrow> string res option" where
  "public_source use_stun_server0 env src =
     (if use_stun_server0 \<noteq> 0
      then cbind (stunGetPublicIP env) (\<lambda>out.
        Some (Inr (case stun_text out of None \<Rightarrow> src | Some t \<Rightarrow> t)))
      else Some (Inr src))"

definition setup_flow :: "int \<Rightarrow> int \<Rightarrow> int \<Rightarrow> flow_env \<Rightarrow> nat \<times> nat \<Rightarrow> sender \<Rightarrow> sender res option" where
  "setup_flow overlay_port0 receiver_port0 use_stun_server0 env f s =
     (case f of (i, j) \<Rightarrow>
     cbind (Some (flow_hop s f)) (\<lambda>hop.
     cbind (Some (guard (log_open s) UseAfterFree)) (\<lambda>_.
     cbind (Some (array_get (srcs s) i)) (\<lambda>src.
     cbind (Some (array_get (dsts s) j)) (\<lambda>dst.
     cbind (Some (set_sender_own_rules_iptables src dst hop)) (\<lambda>cmds.
     cbind (public_source use_stun_server0 (stun_of env i j) src) (\<lambda>src'.
     cbind (Some (rbind (array_get ((srcs s)[i := src']) 0) (strcpy IP_ADDR_LENGTH))) (\<lambda>dar_ip'.
     cbind (Some (build_hop_forward_rules_spec src' dst receiver_port0 1)) (\<lambda>forwarding_rule.
     cbind (Some (build_hop_run_darshana_spec dar_ip' DAR_PORT dst (atoi DARSHANA_SERVER_PORT) 1)) (\<lambda>darshana_rule.
     cbind (Some (setup_overlay_node hop overlay_port0 (rule_array forwarding_rule (junk env))
                   (rule_array darshana_rule (junk env)) (silent env i j) (replies env i j))) (\<lambda>(io, f0, d0).
     cbind (Some (run_sender_darshana dar_ip' DAR_PORT src' hop DARSHANA_SERVER_PORT (hop_index s f) (monitor s))) (\<lambda>m.
     cbind (monitor_path src' hop dst m) (\<lambda>m'.
       Some (Inr (s\<lparr>srcs := (srcs s)[i := src'], dar_ip := dar_ip', dar_port := DAR_PORT, monitor := m',
         commands := commands s @ cmds, exchanges := exchanges s @ [io]\<rparr>)))))))))))))))"

definition setup_each_flow :: "int \<Rightarrow> int \<Rightarrow> int \<Rightarrow> flow_env \<Rightarrow> sender \<Rightarrow> sender res option" where
  "setup_each_flow overlay_port0 receiver_port0 use_stun_server0 env s =
     crun_steps (setup_flow overlay_port0 receiver_port0 use_stun_server0 env) (flows s) s"

definition clean_node :: "int \<Rightarrow> int \<Rightarrow> flow_env \<Rightarrow> nat \<times> nat \<Rightarrow> sender \<Rightarrow> sender res" where
  "clean_node overlay_port0 receiver_port0 env f s =
     (case f of (i, j) \<Rightarrow>
     rbind (flow_hop s f) (\<lambda>hop.
     rbind (array_get (srcs s) i) (\<lambda>src.
     rbind (array_get (dsts s) j) (\<lambda>dst.
     rbind (build_hop_forward_rules_spec src dst receiver_port0 0) (\<lambda>forwarding_rule.
     rbind (build_hop_run_darshana_spec (dar_ip s) (dar_port s) dst (atoi DARSHANA_SERVER_PORT) 0) (\<lambda>darshana_rule.
     rbind (setup_overlay_node hop overlay_port0 (rule_array forwarding_rule (junk env))
              (rule_array darshana_rule (junk env)) (silent env i j) (replies env i j)) (\<lambda>(io, f0, d0).
     rbind (kill_sender_darshana_pthreads (hop_index s f) (monitor s)) (\<lambda>m.
       Inr (s\<lparr>monitor := m, exchanges := exchanges s @ [io]\<rparr>)))))))))"

definition clean_own :: "nat \<times> nat \<Rightarrow> sender \<Rightarrow> sender res" where
  "clean_own f s =
     (case f of (i, j) \<Rightarrow>
     rbind (flow_hop s f) (\<lambda>hop.
     rbind (array_get (srcs s) i) (\<lambda>src.
     rbind (array_get (dsts s) j) (\<lambda>dst.
     rbind (remove_sender_own_rules_iptables src dst hop) (\<lambda>cmds.
       Inr (s\<lparr>commands := commands s @ cmds\<rparr>))))))"

text \<open>Its third argument, whether STUN is used, is not read: that part is commented out.\<close>

definition clean_rules :: "int \<Rightarrow> int \<Rightarrow> int \<Rightarrow> flow_env \<Rightarrow> sender \<Rightarrow> sender res" where
  "clean_rules overlay_port0 receiver_port0 use_stun_server0 env s =
     rbind (run_steps (clean_node overlay_port0 receiver_port0 env) (flows s) s) (\<lambda>s'.
     rbind (guard (log_open s') UseAfterFree) (\<lambda>_.
     run_steps clean_own (flows s') s'))"

end
