(* ===== verification/Sender_Properties.thy ===== *)
theory Sender_Properties
  imports Sending_Handler
begin

text \<open>
  The sender's flows: its own NAT rules over a whole session, and which nodes and paths the
  flows use.
\<close>

section \<open>The sender's NAT rules\<close>

definition flow_key :: "sender \<Rightarrow> nat \<times> nat \<Rightarrow> string \<times> string \<times> string" where
  "flow_key s f = (srcs s ! fst f, dsts s ! snd f, hops s ! hop_index s f)"

text \<open>Two states of the sender with the same flows.\<close>

definition same_flows :: "sender \<Rightarrow> sender \<Rightarrow> bool" where
  "same_flows s u \<longleftrightarrow> srcs u = srcs s \<and> dsts u = dsts s \<and> hops u = hops s \<and>
     numSrcs u = numSrcs s \<and> numDsts u = numDsts s \<and> numHops u = numHops s"

lemma same_flows_simps:
  assumes "same_flows s u"
  shows "flows u = flows s" "hop_index u = hop_index s" "flow_key u = flow_key s"
  using assms by (auto simp: same_flows_def flows_def hop_index_def flow_key_def fun_eq_iff)

lemma same_flows_refl [simp]: "same_flows s s"
  by (simp add: same_flows_def)

lemma same_flows_trans: "same_flows s u \<Longrightarrow> same_flows u v \<Longrightarrow> same_flows s v"
  by (simp add: same_flows_def)

lemma flow_hop_Inr: "flow_hop s f = Inr hop \<Longrightarrow> hop = hops s ! hop_index s f"
  by (auto simp: flow_hop_def rbind_eq_Inr array_get_eq_Inr)

lemma setup_flow_step:
  assumes "setup_flow op rp 0 env f u = Some (Inr u')"
  shows "same_flows u u' \<and> sender_fits (flow_key u f) \<and>
    commands u' = commands u @ map append_cmd (sender_rules (flow_key u f))"
proof -
  obtain i j where f: "f = (i, j)" by (cases f)
  obtain hop src dst cmds where 1: "flow_hop u f = Inr hop" "array_get (srcs u) i = Inr src"
      "array_get (dsts u) j = Inr dst" "set_sender_own_rules_iptables src dst hop = Inr cmds"
    and 2: "srcs u' = (srcs u)[i := src]" "dsts u' = dsts u" "hops u' = hops u" "numSrcs u' = numSrcs u"
      "numDsts u' = numDsts u" "numHops u' = numHops u" "commands u' = commands u @ cmds"
    using assms by (auto simp: setup_flow_def f cbind_eq_Inr public_source_def split: prod.splits)
  have k: "flow_key u f = (src, dst, hop)"
    using 1 flow_hop_Inr [OF 1(1)] by (simp add: flow_key_def f array_get_eq_Inr)
  have "srcs u' = srcs u" using 1(2) 2(1) by (auto simp: array_get_eq_Inr)
  moreover have "sender_fits (src, dst, hop)" "cmds = map append_cmd (sender_rules (src, dst, hop))"
    using 1(4) by (auto simp: set_sender_own_rules_iptables_eq split: if_splits)
  ultimately show ?thesis using 2 k by (simp add: same_flows_def)
qed

lemma setup_each_flow_trace:
  assumes "setup_each_flow op rp 0 env s = Some (Inr s')"
  shows "same_flows s s' \<and> list_all sender_fits (map (flow_key s) (flows s)) \<and>
    commands s' = commands s @ map append_cmd (sender_nat.all_rules (map (flow_key s) (flows s)))"
proof -
  have step: "same_flows s u' \<and> commands u' = commands u @ map append_cmd (sender_rules (flow_key s f)) \<and>
      sender_fits (flow_key s f)"
    if "setup_flow op rp 0 env f u = Some (Inr u')" "same_flows s u" for f u u'
    using setup_flow_step [OF that(1)] same_flows_simps [OF that(2)] same_flows_trans [OF that(2)] by simp
  have tr: "same_flows s s' \<and> commands s' = commands s @
      concat (map (\<lambda>f. map append_cmd (sender_rules (flow_key s f))) (flows s))"
    by (rule crun_steps_trace [where I = "same_flows s", OF assms [unfolded setup_each_flow_def] same_flows_refl])
      (use step in blast)
  have "list_all sender_fits (map (flow_key s) xs)"
    if "crun_steps (setup_flow op rp 0 env) xs u = Some (Inr s')" "same_flows s u" for xs u
    using that
  proof (induction xs arbitrary: u)
    case (Cons f xs)
    then obtain v where "setup_flow op rp 0 env f u = Some (Inr v)" "crun_steps (setup_flow op rp 0 env) xs v = Some (Inr s')"
      by (auto simp: cbind_eq_Inr)
    with Cons step show ?case by simp
  qed simp
  with tr assms show ?thesis
    by (simp add: setup_each_flow_def sender_nat.all_rules_def map_concat comp_def)
qed

text \<open>The Darshana client of a flow; every flow starts one.\<close>

definition flow_darshana :: "string \<Rightarrow> string \<times> string \<times> string \<Rightarrow> string" where
  "flow_darshana dar k = (case k of (src, dst, hop) \<Rightarrow> projr (darshana_command dar DAR_PORT src hop DARSHANA_SERVER_PORT))"

lemma setup_flow_darshana:
  assumes "setup_flow op rp 0 env f u = Some (Inr u')"
  shows "darshana_runs (monitor u') = darshana_runs (monitor u) @ [flow_darshana (srcs u ! 0) (flow_key u f)]"
proof -
  obtain i j where f: "f = (i, j)" by (cases f)
  obtain hop src dst dar m m' where 1: "flow_hop u f = Inr hop" "array_get (srcs u) i = Inr src"
      "array_get (dsts u) j = Inr dst" "rbind (array_get ((srcs u)[i := src]) 0) (strcpy IP_ADDR_LENGTH) = Inr dar"
    and m: "run_sender_darshana dar DAR_PORT src hop DARSHANA_SERVER_PORT (hop_index u f) (monitor u) = Inr m"
      "monitor_path src hop dst m = Some (Inr m')" "monitor u' = m'"
    using assms by (auto simp: setup_flow_def f cbind_eq_Inr public_source_def split: prod.splits)
  have "(srcs u)[i := src] = srcs u" using 1(2) by (auto simp: array_get_eq_Inr)
  then have dar: "dar = srcs u ! 0"
    using 1(4) by (auto simp: rbind_eq_Inr array_get_eq_Inr strcpy_def split: if_splits)
  have k: "flow_key u f = (src, dst, hop)"
    using 1 flow_hop_Inr [OF 1(1)] by (simp add: flow_key_def f array_get_eq_Inr)
  have "darshana_runs m = darshana_runs (monitor u) @ [flow_darshana dar (src, dst, hop)]"
    using m(1) by (auto simp: run_sender_darshana_def rbind_eq_Inr flow_darshana_def)
  moreover have "darshana_runs m' = darshana_runs m"
    using m(2) by (auto simp: monitor_path_def cbind_eq_Inr)
  ultimately show ?thesis by (simp add: m(3) dar k)
qed

lemma setup_each_flow_darshana:
  assumes "setup_each_flow op rp 0 env s = Some (Inr s')"
  shows "darshana_runs (monitor s') = darshana_runs (monitor s) @
    map (\<lambda>f. flow_darshana (srcs s ! 0) (flow_key s f)) (flows s)"
proof -
  have step: "same_flows s u' \<and>
      darshana_runs (monitor u') = darshana_runs (monitor u) @ [flow_darshana (srcs s ! 0) (flow_key s f)]"
    if "setup_flow op rp 0 env f u = Some (Inr u')" "same_flows s u" for f u u'
    using setup_flow_step [OF that(1)] setup_flow_darshana [OF that(1)] same_flows_simps [OF that(2)]
      same_flows_trans [OF that(2)] that(2) by (simp add: same_flows_def)
  have "same_flows s s' \<and> darshana_runs (monitor s') = darshana_runs (monitor s) @
      concat (map (\<lambda>f. [flow_darshana (srcs s ! 0) (flow_key s f)]) (flows s))"
    by (rule crun_steps_trace [where I = "same_flows s" and tr = "\<lambda>s. darshana_runs (monitor s)",
        OF assms [unfolded setup_each_flow_def] same_flows_refl]) (use step in blast)
  then show ?thesis by (simp add: concat_map_singleton)
qed

lemma clean_rules_trace:
  assumes "clean_rules op rp us env s = Inr s'"
  shows "commands s' = commands s @ map delete_cmd (sender_nat.all_rules (map (flow_key s) (flows s)))"
proof -
  obtain u where u: "run_steps (clean_node op rp env) (flows s) s = Inr u" "run_steps clean_own (flows u) u = Inr s'"
    using assms by (auto simp: clean_rules_def rbind_eq_Inr)
  have "same_flows s u \<and> commands u = commands s @ concat (map (\<lambda>f. []) (flows s))"
    by (rule run_steps_trace [where I = "same_flows s", OF u(1) same_flows_refl])
      (auto simp: clean_node_def rbind_eq_Inr same_flows_def split: prod.splits)
  then have su: "same_flows s u" and cu: "commands u = commands s" by simp_all
  have step: "same_flows s v' \<and> commands v' = commands v @ map delete_cmd (sender_rules (flow_key s f))"
    if cl: "clean_own f v = Inr v'" and sf: "same_flows s v" for f v v'
  proof -
    obtain i j where f: "f = (i, j)" by (cases f)
    obtain hop src dst cmds where 1: "flow_hop v f = Inr hop" "array_get (srcs v) i = Inr src"
      "array_get (dsts v) j = Inr dst" "remove_sender_own_rules_iptables src dst hop = Inr cmds"
      and v': "v' = v\<lparr>commands := commands v @ cmds\<rparr>"
      using cl by (auto simp: clean_own_def f rbind_eq_Inr)
    have "flow_key v f = (src, dst, hop)"
      using 1 flow_hop_Inr [OF 1(1)] by (simp add: flow_key_def f array_get_eq_Inr)
    moreover have "cmds = map delete_cmd (sender_rules (src, dst, hop))"
      using 1(4) by (auto simp: remove_sender_own_rules_iptables_eq split: if_splits)
    ultimately show ?thesis
      using same_flows_simps(3) [OF sf] sf v' by (simp add: same_flows_def)
  qed
  have "same_flows s s' \<and> commands s' = commands u @
      concat (map (\<lambda>f. map delete_cmd (sender_rules (flow_key s f))) (flows u))"
    by (rule run_steps_trace [where I = "same_flows s", OF u(2) su]) (use step in blast)
  then show ?thesis
    using cu same_flows_simps(1) [OF su] by (simp add: sender_nat.all_rules_def map_concat comp_def)
qed

text \<open>The clean-up cancels, flow by flow, the thread that the node of the flow was given last.\<close>

lemma clean_rules_cancels:
  assumes "clean_rules op rp us env s = Inr s'"
  shows "cancelled (monitor s') = cancelled (monitor s) @ map (hop_index s) (flows s)"
proof -
  obtain u where u: "run_steps (clean_node op rp env) (flows s) s = Inr u" "run_steps clean_own (flows u) u = Inr s'"
    using assms by (auto simp: clean_rules_def rbind_eq_Inr)
  have step: "same_flows s v' \<and> cancelled (monitor v') = cancelled (monitor v) @ [hop_index s f]"
    if "clean_node op rp env f v = Inr v'" "same_flows s v" for f v v'
  proof -
    have "same_flows v v' \<and> cancelled (monitor v') = cancelled (monitor v) @ [hop_index v f]"
      using that(1) by (auto simp: clean_node_def kill_sender_darshana_pthreads_def rbind_eq_Inr same_flows_def split: prod.splits)
    then show ?thesis using same_flows_simps(2) [OF that(2)] same_flows_trans [OF that(2)] by simp
  qed
  have "same_flows s u \<and> cancelled (monitor u) = cancelled (monitor s) @ concat (map (\<lambda>f. [hop_index s f]) (flows s))"
    by (rule run_steps_trace [where I = "same_flows s" and tr = "\<lambda>s. cancelled (monitor s)", OF u(1) same_flows_refl])
      (use step in blast)
  moreover have "monitor s' = monitor u"
    by (rule run_steps_invariant [OF u(2), where P = "\<lambda>v. monitor v = monitor u"])
      (auto simp: clean_own_def rbind_eq_Inr split: prod.splits)
  ultimately show ?thesis by (simp add: concat_map_singleton)
qed

section \<open>Setting up all flows\<close>

text \<open>What the addresses, the arrays and the nodes' answers have to be for the set-up to succeed.\<close>

definition addr_ok :: "string \<Rightarrow> bool" where
  "addr_ok a \<longleftrightarrow> token ''-'' a \<and> cstr a \<and> plain a \<and> length a < IP_ADDR_LENGTH"

definition sender_ready :: "sender \<Rightarrow> bool" where
  "sender_ready s \<longleftrightarrow> log_open s \<and> 0 < numHops s \<and> srcs s \<noteq> [] \<and>
     nat (numSrcs s) \<le> length (srcs s) \<and> nat (numDsts s) \<le> length (dsts s) \<and>
     nat (numHops s) \<le> length (hops s) \<and> nat (numHops s) \<le> length (sender_darshanas (monitor s)) \<and>
     (\<forall>i<nat (numSrcs s). addr_ok (srcs s ! i)) \<and> (\<forall>j<nat (numDsts s). addr_ok (dsts s ! j)) \<and>
     (\<forall>h<nat (numHops s). addr_ok (hops s ! h))"

definition replies_ok :: "flow_env \<Rightarrow> bool" where
  "replies_ok env \<longleftrightarrow> RULE_SIZE \<le> Suc (length (junk env)) \<and>
     (\<forall>i j ip p fr dr. length fr = RULE_SIZE \<longrightarrow> length dr = RULE_SIZE \<longrightarrow>
        (\<exists>x. setup_overlay_node ip p fr dr (silent env i j) (replies env i j) = Inr x))"

text \<open>The exchange with the node of a flow, for a rule type.\<close>

definition flow_exchange :: "int \<Rightarrow> int \<Rightarrow> string \<Rightarrow> flow_env \<Rightarrow> int \<Rightarrow> string \<times> string \<times> string \<Rightarrow> node_io list" where
  "flow_exchange op rp dar env ty k = (case k of (src, dst, hop) \<Rightarrow>
     [Connect hop op,
      Send_Rule (rule_array (projr (build_hop_forward_rules_spec src dst rp ty)) (junk env)),
      Send_Rule (rule_array (projr (build_hop_run_darshana_spec dar DAR_PORT dst 11130 ty)) (junk env)),
      Close_Node])"

definition flow_path :: "string \<times> string \<times> string \<Rightarrow> path_status" where
  "flow_path k = (case k of (src, dst, hop) \<Rightarrow> new_path_status src hop dst)"

lemma server_port: "atoi DARSHANA_SERVER_PORT = 11130"
  by code_simp

lemma flow_in_range:
  assumes "sender_ready s" "f \<in> set (flows s)"
  shows "fst f < length (srcs s)" "snd f < length (dsts s)" "hop_index s f < length (hops s)"
    "hop_index s f < length (sender_darshanas (monitor s))"
proof -
  have "hop_index s f < nat (numHops s)"
    using assms(1) by (simp add: hop_index_def sender_ready_def split_beta)
  with assms show "fst f < length (srcs s)" "snd f < length (dsts s)" "hop_index s f < length (hops s)"
    "hop_index s f < length (sender_darshanas (monitor s))"
    by (auto simp: sender_ready_def flows_def)
qed

lemma flow_addresses:
  assumes "sender_ready s" "f \<in> set (flows s)" "flow_key s f = (src, dst, hop)"
  shows "addr_ok src" "addr_ok dst" "addr_ok hop" "addr_ok (srcs s ! 0)"
proof -
  have "fst f < nat (numSrcs s)" "snd f < nat (numDsts s)" "hop_index s f < nat (numHops s)"
    using assms(1,2) by (auto simp: flows_def hop_index_def sender_ready_def)
  with assms show "addr_ok src" "addr_ok dst" "addr_ok hop" "addr_ok (srcs s ! 0)"
    by (auto simp: sender_ready_def flow_key_def)
qed

lemma darshana_command_ok:
  assumes "length dar < IP_ADDR_LENGTH" "length src < IP_ADDR_LENGTH" "length hop < IP_ADDR_LENGTH"
  shows "\<exists>c. darshana_command dar DAR_PORT src hop DARSHANA_SERVER_PORT = Inr c"
proof -
  have "length (dec_int 10101) \<le> 5" by (rule dec_int_port_length) simp_all
  with assms show ?thesis
    by (simp add: darshana_command_def build_string_eq DARSHANA_RELATIVE_PATH_def DARSHANA_SERVER_PORT_def
        DARSHANA_MONITORING_MODE_def DARSHANA_METRICS_THRESHOLDS_def DAR_PORT_def)
qed

text \<open>The exchange with the node of a flow.\<close>

lemma flow_node_told:
  assumes env: "replies_ok env" and rp: "0 \<le> rp" "rp < 100000" and ty: "ty = 0 \<or> ty = 1"
    and ok: "addr_ok src" "addr_ok dst" "addr_ok dar"
  obtains fr dr f0 d0 where "build_hop_forward_rules_spec src dst rp ty = Inr fr"
    "build_hop_run_darshana_spec dar DAR_PORT dst 11130 ty = Inr dr"
    "setup_overlay_node hop op (rule_array fr (junk env)) (rule_array dr (junk env)) (silent env i j) (replies env i j) =
      Inr (flow_exchange op rp dar env ty (src, dst, hop), f0, d0)"
proof -
  have fk: "forward_key_ok (src, dst, rp, ty)"
    using ok rp ty by (auto simp: forward_key_ok_def addr_ok_def)
  have dk: "darshana_key_ok (dar, DAR_PORT, dst, 11130, ty)"
    using ok ty by (auto simp: darshana_key_ok_def addr_ok_def DAR_PORT_def)
  obtain fr dr where fr: "build_hop_forward_rules_spec src dst rp ty = Inr fr"
    and dr: "build_hop_run_darshana_spec dar DAR_PORT dst 11130 ty = Inr dr"
    using build_hop_forward_rules_spec_eq [OF fk] build_hop_run_darshana_spec_eq [OF dk] by blast
  have lens: "length (rule_array fr (junk env)) = RULE_SIZE" "length (rule_array dr (junk env)) = RULE_SIZE"
    using env by (simp_all add: length_rule_array replies_ok_def)
  obtain io f0 d0 where ex: "setup_overlay_node hop op (rule_array fr (junk env)) (rule_array dr (junk env))
      (silent env i j) (replies env i j) = Inr (io, f0, d0)"
    using env lens unfolding replies_ok_def by (metis prod.exhaust)
  have "io = flow_exchange op rp dar env ty (src, dst, hop)"
    using setup_overlay_node_result [OF ex lens] by (simp add: flow_exchange_def fr dr)
  with ex that [OF fr dr] show thesis by blast
qed

text \<open>One flow, whatever public address the source turns out to have.\<close>

lemma setup_flow_result:
  assumes ready: "sender_ready s" and f: "f \<in> set (flows s)" and env: "replies_ok env"
    and rp: "0 \<le> rp" "rp < 100000" and mon: "monitored (monitor s) as ps"
    and k: "flow_key s f = (src, dst, hop)"
    and pub: "public_source us (stun_of env (fst f) (snd f)) src = Some (Inr pub)" "addr_ok pub"
  shows "\<exists>c d. setup_flow op rp us env f s = Some (Inr (s\<lparr>srcs := (srcs s)[fst f := pub],
      dar_ip := (srcs s)[fst f := pub] ! 0, dar_port := DAR_PORT,
      monitor := (monitor s)\<lparr>sender_darshanas := (sender_darshanas (monitor s))[hop_index s f := Some c],
        darshana_runs := darshana_runs (monitor s) @ [c],
        dar_state := d\<rparr>,
      commands := commands s @ map append_cmd (sender_rules (src, dst, hop)),
      exchanges := exchanges s @ [flow_exchange op rp ((srcs s)[fst f := pub] ! 0) env 1 (pub, dst, hop)]\<rparr>)) \<and>
    dar_rel d as (ps @ [flow_path (pub, dst, hop)])"
proof -
  obtain i j where ij: "f = (i, j)" by (cases f)
  note range = flow_in_range [OF ready f, unfolded ij fst_conv snd_conv]
  have at: "src = srcs s ! i" "dst = dsts s ! j" "hop = hops s ! hop_index s f"
    using k by (simp_all add: flow_key_def ij)
  let ?dar = "(srcs s)[i := pub] ! 0"
  note ok = flow_addresses [OF ready f k]
  have dar: "addr_ok ?dar" using ok(4) pub(2) range(1) by (cases i) (simp_all add: nth_list_update)
  have len: "length src < 20" "length pub < 20" "length dst < 20" "length hop < 20" "length ?dar < 20"
    using ok pub(2) dar by (simp_all add: addr_ok_def)
  have hop: "flow_hop s f = Inr hop"
    using ready range(3) by (simp add: flow_hop_def sender_ready_def at ij)
  have cmds: "set_sender_own_rules_iptables src dst hop = Inr (map append_cmd (sender_rules (src, dst, hop)))"
    using len by (simp add: set_sender_own_rules_iptables_eq sender_fits_def)
  obtain fr dr f0 d0 where fr: "build_hop_forward_rules_spec pub dst rp 1 = Inr fr"
    and dr: "build_hop_run_darshana_spec ?dar DAR_PORT dst 11130 1 = Inr dr"
    and ex: "setup_overlay_node hop op (rule_array fr (junk env)) (rule_array dr (junk env)) (silent env i j) (replies env i j) =
      Inr (flow_exchange op rp ?dar env 1 (pub, dst, hop), f0, d0)"
    using flow_node_told [OF env rp disjI2 [OF refl] pub(2) ok(2) dar] .
  obtain c where c: "darshana_command ?dar DAR_PORT pub hop DARSHANA_SERVER_PORT = Inr c"
    using darshana_command_ok len by blast
  define m where "m = (monitor s)\<lparr>sender_darshanas := (sender_darshanas (monitor s))[hop_index s f := Some c],
    darshana_runs := darshana_runs (monitor s) @ [c]\<rparr>"
  have m: "run_sender_darshana ?dar DAR_PORT pub hop DARSHANA_SERVER_PORT (hop_index s f) (monitor s) = Inr m"
    using range(4) by (simp add: run_sender_darshana_def c m_def ij)
  have "monitored m as ps" using mon by (simp add: m_def)
  then obtain d where d: "monitor_path pub hop dst m = Some (Inr (m\<lparr>dar_state := d\<rparr>))"
    "dar_rel d as (ps @ [new_path_status pub hop dst])"
    using monitor_path_appends by blast
  have "array_get ((srcs s)[i := pub]) 0 = Inr ?dar" using range(1) by (intro array_get_in) auto
  then have "setup_flow op rp us env f s = Some (Inr (s\<lparr>srcs := (srcs s)[i := pub],
      dar_ip := ?dar, dar_port := DAR_PORT, monitor := m\<lparr>dar_state := d\<rparr>,
      commands := commands s @ map append_cmd (sender_rules (src, dst, hop)), exchanges := exchanges s @ [flow_exchange op rp ?dar env 1 (pub, dst, hop)]\<rparr>))"
    using ready range hop cmds ex m d(1) fr dr len(5) pub(1)
    by (simp add: setup_flow_def ij sender_ready_def at [symmetric] server_port strcpy_def)
  then show ?thesis
    using d(2) unfolding ij m_def flow_path_def by auto
qed

lemma setup_flow_ok:
  assumes ready: "sender_ready s" and f: "f \<in> set (flows s)" and env: "replies_ok env"
    and rp: "0 \<le> rp" "rp < 100000" and mon: "monitored (monitor s) as ps"
  shows "\<exists>s'. setup_flow op rp 0 env f s = Some (Inr s') \<and> same_flows s s' \<and> sender_ready s' \<and>
    dar_ip s' = srcs s ! 0 \<and> dar_port s' = DAR_PORT \<and>
    monitored (monitor s') as (ps @ [flow_path (flow_key s f)]) \<and>
    exchanges s' = exchanges s @ [flow_exchange op rp (srcs s ! 0) env 1 (flow_key s f)] \<and>
    sender_darshanas (monitor s') ! hop_index s f \<noteq> None \<and>
    (\<forall>h. sender_darshanas (monitor s) ! h \<noteq> None \<longrightarrow> sender_darshanas (monitor s') ! h \<noteq> None)"
proof -
  obtain src dst hop where k: "flow_key s f = (src, dst, hop)" by (metis prod.exhaust)
  have src: "(srcs s)[fst f := src] = srcs s" using k by (auto simp: flow_key_def)
  have "public_source 0 (stun_of env (fst f) (snd f)) src = Some (Inr src)" by (simp add: public_source_def)
  from setup_flow_result [OF ready f env rp mon k this flow_addresses(1) [OF ready f k], unfolded src]
  obtain c d where cd: "setup_flow op rp 0 env f s = Some (Inr (s\<lparr>srcs := srcs s,
      dar_ip := srcs s ! 0, dar_port := DAR_PORT,
      monitor := (monitor s)\<lparr>sender_darshanas := (sender_darshanas (monitor s))[hop_index s f := Some c],
        darshana_runs := darshana_runs (monitor s) @ [c],
        dar_state := d\<rparr>,
      commands := commands s @ map append_cmd (sender_rules (src, dst, hop)),
      exchanges := exchanges s @ [flow_exchange op rp (srcs s ! 0) env 1 (src, dst, hop)]\<rparr>))"
    "dar_rel d as (ps @ [flow_path (src, dst, hop)])"
    by blast
  note h = flow_in_range(4) [OF ready f]
  show ?thesis
    by (rule exI, intro conjI, rule cd(1)) (use ready cd(2) h k in \<open>auto simp: same_flows_def sender_ready_def nth_list_update\<close>)
qed

lemma setup_steps_ok:
  assumes env: "replies_ok env" and rp: "0 \<le> rp" "rp < 100000"
  shows "set xs \<subseteq> set (flows s) \<Longrightarrow> same_flows s u \<Longrightarrow> sender_ready u \<Longrightarrow> monitored (monitor u) as ps \<Longrightarrow>
    \<exists>u'. crun_steps (setup_flow op rp 0 env) xs u = Some (Inr u') \<and> same_flows s u' \<and> sender_ready u' \<and>
      monitored (monitor u') as (ps @ map (\<lambda>f. flow_path (flow_key s f)) xs) \<and>
      exchanges u' = exchanges u @ map (\<lambda>f. flow_exchange op rp (srcs s ! 0) env 1 (flow_key s f)) xs \<and>
      (xs \<noteq> [] \<longrightarrow> dar_ip u' = srcs s ! 0 \<and> dar_port u' = DAR_PORT) \<and>
      (\<forall>f\<in>set xs. sender_darshanas (monitor u') ! hop_index s f \<noteq> None) \<and>
      (\<forall>h. sender_darshanas (monitor u) ! h \<noteq> None \<longrightarrow> sender_darshanas (monitor u') ! h \<noteq> None)"
proof (induction xs arbitrary: u ps)
  case (Cons f xs)
  note sf = same_flows_simps [OF Cons.prems(2)]
  have srcs_u: "srcs u = srcs s" using Cons.prems(2) by (simp add: same_flows_def)
  have "f \<in> set (flows u)" using Cons.prems(1) by (simp add: sf)
  from setup_flow_ok [OF Cons.prems(3) this env rp Cons.prems(4), of op] obtain v where
    v: "setup_flow op rp 0 env f u = Some (Inr v)" "same_flows u v" "sender_ready v"
      "dar_ip v = srcs s ! 0" "dar_port v = DAR_PORT"
      "monitored (monitor v) as (ps @ [flow_path (flow_key s f)])"
      "exchanges v = exchanges u @ [flow_exchange op rp (srcs s ! 0) env 1 (flow_key s f)]"
      "sender_darshanas (monitor v) ! hop_index s f \<noteq> None"
      "\<forall>h. sender_darshanas (monitor u) ! h \<noteq> None \<longrightarrow> sender_darshanas (monitor v) ! h \<noteq> None"
    unfolding sf srcs_u by blast
  have sv: "same_flows s v" by (rule same_flows_trans [OF Cons.prems(2) v(2)])
  from Cons.IH [OF _ sv v(3,6)] Cons.prems(1) obtain w where
    w: "crun_steps (setup_flow op rp 0 env) xs v = Some (Inr w)" "same_flows s w" "sender_ready w"
      "monitored (monitor w) as ((ps @ [flow_path (flow_key s f)]) @ map (\<lambda>f. flow_path (flow_key s f)) xs)"
      "exchanges w = exchanges v @ map (\<lambda>f. flow_exchange op rp (srcs s ! 0) env 1 (flow_key s f)) xs"
      "xs \<noteq> [] \<longrightarrow> dar_ip w = srcs s ! 0 \<and> dar_port w = DAR_PORT"
      "\<forall>f\<in>set xs. sender_darshanas (monitor w) ! hop_index s f \<noteq> None"
      "\<forall>h. sender_darshanas (monitor v) ! h \<noteq> None \<longrightarrow> sender_darshanas (monitor w) ! h \<noteq> None"
    by auto
  have "dar_ip w = srcs s ! 0 \<and> dar_port w = DAR_PORT"
    using w(1,6) v(4,5) by (cases xs) auto
  moreover have "crun_steps (setup_flow op rp 0 env) (f # xs) u = Some (Inr w)" by (simp add: v(1) w(1))
  ultimately show ?case using v(7-9) w(2-5,7,8) by auto
qed auto

lemma setup_each_flow_ok:
  assumes "sender_ready s" "replies_ok env" "0 \<le> rp" "rp < 100000" "monitored (monitor s) as ps"
  shows "\<exists>s'. setup_each_flow op rp 0 env s = Some (Inr s') \<and> same_flows s s' \<and> sender_ready s' \<and>
      monitored (monitor s') as (ps @ map (\<lambda>f. flow_path (flow_key s f)) (flows s)) \<and>
      exchanges s' = exchanges s @ map (\<lambda>f. flow_exchange op rp (srcs s ! 0) env 1 (flow_key s f)) (flows s) \<and>
      (flows s \<noteq> [] \<longrightarrow> dar_ip s' = srcs s ! 0 \<and> dar_port s' = DAR_PORT) \<and>
      (\<forall>f\<in>set (flows s). sender_darshanas (monitor s') ! hop_index s f \<noteq> None)"
  using setup_steps_ok [OF assms(2-4) order_refl same_flows_refl assms(1,5), of op]
  unfolding setup_each_flow_def by blast

section \<open>Cleaning all flows\<close>

lemma clean_node_ok:
  assumes ready: "sender_ready s" and f: "f \<in> set (flows s)" and env: "replies_ok env"
    and rp: "0 \<le> rp" "rp < 100000" and dar: "addr_ok (dar_ip s)" "dar_port s = DAR_PORT"
    and th: "sender_darshanas (monitor s) ! hop_index s f \<noteq> None"
  shows "\<exists>m. clean_node op rp env f s = Inr (s\<lparr>monitor := m,
      exchanges := exchanges s @ [flow_exchange op rp (dar_ip s) env 0 (flow_key s f)]\<rparr>) \<and>
    sender_darshanas m = sender_darshanas (monitor s)"
proof -
  obtain i j where ij: "f = (i, j)" by (cases f)
  note range = flow_in_range [OF ready f, unfolded ij fst_conv snd_conv]
  obtain src dst hop where k: "flow_key s f = (src, dst, hop)" by (metis prod.exhaust)
  then have at: "src = srcs s ! i" "dst = dsts s ! j" "hop = hops s ! hop_index s f"
    by (simp_all add: flow_key_def ij)
  note ok = flow_addresses [OF ready f k]
  have hop: "flow_hop s f = Inr hop"
    using ready range(3) by (simp add: flow_hop_def sender_ready_def at ij)
  obtain fr dr f0 d0 where fr: "build_hop_forward_rules_spec src dst rp 0 = Inr fr"
    and dr: "build_hop_run_darshana_spec (dar_ip s) DAR_PORT dst 11130 0 = Inr dr"
    and ex: "setup_overlay_node hop op (rule_array fr (junk env)) (rule_array dr (junk env)) (silent env i j) (replies env i j) =
      Inr (flow_exchange op rp (dar_ip s) env 0 (src, dst, hop), f0, d0)"
    using flow_node_told [OF env rp disjI1 [OF refl] ok(1,2) dar(1)] .
  obtain c where "sender_darshanas (monitor s) ! hop_index s f = Some c" using th by blast
  then have kill: "kill_sender_darshana_pthreads (hop_index s f) (monitor s) =
      Inr ((monitor s)\<lparr>cancelled := cancelled (monitor s) @ [hop_index s f]\<rparr>)"
    using range(4) by (simp add: kill_sender_darshana_pthreads_def ij)
  have "clean_node op rp env f s = Inr (s\<lparr>monitor := (monitor s)\<lparr>cancelled := cancelled (monitor s) @ [hop_index s f]\<rparr>,
      exchanges := exchanges s @ [flow_exchange op rp (dar_ip s) env 0 (flow_key s f)]\<rparr>)"
    using range(1,2) hop ex fr dr k kill dar(2) by (simp add: clean_node_def ij at [symmetric] server_port)
  then show ?thesis
    by (intro exI [of _ "(monitor s)\<lparr>cancelled := cancelled (monitor s) @ [hop_index s f]\<rparr>"]) simp
qed

lemma clean_nodes_ok:
  assumes env: "replies_ok env" and rp: "0 \<le> rp" "rp < 100000"
  shows "set xs \<subseteq> set (flows s) \<Longrightarrow> same_flows s u \<Longrightarrow> sender_ready u \<Longrightarrow> addr_ok (dar_ip u) \<Longrightarrow> dar_port u = DAR_PORT \<Longrightarrow>
    \<forall>f\<in>set xs. sender_darshanas (monitor u) ! hop_index s f \<noteq> None \<Longrightarrow>
    \<exists>u'. run_steps (clean_node op rp env) xs u = Inr u' \<and> same_flows s u' \<and> sender_ready u' \<and>
      exchanges u' = exchanges u @ map (\<lambda>f. flow_exchange op rp (dar_ip u) env 0 (flow_key s f)) xs"
proof (induction xs arbitrary: u)
  case (Cons f xs)
  note sf = same_flows_simps [OF Cons.prems(2)]
  have "f \<in> set (flows u)" "sender_darshanas (monitor u) ! hop_index u f \<noteq> None"
    using Cons.prems(1,6) by (simp_all add: sf)
  from clean_node_ok [OF Cons.prems(3) this(1) env rp Cons.prems(4,5) this(2), of op] obtain m where
    m: "clean_node op rp env f u = Inr (u\<lparr>monitor := m,
        exchanges := exchanges u @ [flow_exchange op rp (dar_ip u) env 0 (flow_key s f)]\<rparr>)"
      "sender_darshanas m = sender_darshanas (monitor u)"
    unfolding sf by blast
  define v where "v = u\<lparr>monitor := m, exchanges := exchanges u @ [flow_exchange op rp (dar_ip u) env 0 (flow_key s f)]\<rparr>"
  have "same_flows s v" using Cons.prems(2) by (simp add: v_def same_flows_def)
  moreover have "sender_ready v" using Cons.prems(3) m(2) by (simp add: v_def sender_ready_def)
  ultimately have "\<exists>u'. run_steps (clean_node op rp env) xs v = Inr u' \<and> same_flows s u' \<and> sender_ready u' \<and>
      exchanges u' = exchanges v @ map (\<lambda>f. flow_exchange op rp (dar_ip v) env 0 (flow_key s f)) xs"
    using Cons.prems m(2) by (intro Cons.IH) (simp_all add: v_def)
  then show ?case using m(1) by (auto simp: v_def)
qed auto

lemma clean_own_commands:
  assumes "sender_ready s" "f \<in> set (flows s)"
  shows "clean_own f s = Inr (s\<lparr>commands := commands s @ map delete_cmd (sender_rules (flow_key s f))\<rparr>)"
proof -
  obtain i j where ij: "f = (i, j)" by (cases f)
  note range = flow_in_range [OF assms, unfolded ij fst_conv snd_conv]
  obtain src dst hop where k: "flow_key s f = (src, dst, hop)" by (metis prod.exhaust)
  then have at: "src = srcs s ! i" "dst = dsts s ! j" "hop = hops s ! hop_index s f"
    by (simp_all add: flow_key_def ij)
  have "flow_hop s f = Inr hop"
    using assms range(3) by (simp add: flow_hop_def sender_ready_def at ij)
  moreover have "sender_fits (src, dst, hop)"
    using flow_addresses [OF assms k] by (simp add: sender_fits_def addr_ok_def)
  ultimately show ?thesis
    unfolding k using range(1,2) by (simp add: clean_own_def ij at [symmetric] remove_sender_own_rules_iptables_eq)
qed

lemma clean_own_ok: "sender_ready s \<Longrightarrow> f \<in> set (flows s) \<Longrightarrow> \<exists>cs. clean_own f s = Inr (s\<lparr>commands := cs\<rparr>)"
  using clean_own_commands by blast

lemma clean_owns_ok:
  "set xs \<subseteq> set (flows s) \<Longrightarrow> sender_ready s \<Longrightarrow> \<exists>cs. run_steps clean_own xs s = Inr (s\<lparr>commands := cs\<rparr>)"
proof (induction xs arbitrary: s)
  case Nil
  have "run_steps clean_own [] s = Inr (s\<lparr>commands := commands s\<rparr>)" by simp
  then show ?case ..
next
  case (Cons f xs)
  from clean_own_ok [of s f] Cons.prems obtain cs where cs: "clean_own f s = Inr (s\<lparr>commands := cs\<rparr>)" by auto
  have "flows (s\<lparr>commands := cs\<rparr>) = flows s" "sender_ready (s\<lparr>commands := cs\<rparr>)"
    using Cons.prems by (simp_all add: flows_def sender_ready_def)
  with Cons.IH [of "s\<lparr>commands := cs\<rparr>"] Cons.prems cs show ?case by simp
qed

section \<open>Properties of a session\<close>

text \<open>C10.
  The set-up without STUN pairs every source with every destination exactly once, in order, over the node
  that the round robin gives the pair: each pair gets its NAT rules at the sender, its
  exchange with that node, a Darshana client towards it, and one monitored path.\<close>

theorem setup_flows_exact:
  assumes "sender_ready s" "replies_ok env" "0 \<le> rp" "rp < 100000" "monitored (monitor s) as ps"
  shows "\<exists>s'. setup_each_flow op rp 0 env s = Some (Inr s') \<and>
    commands s' = commands s @ map append_cmd (concat (map (\<lambda>f. sender_rules (flow_key s f)) (flows s))) \<and>
    exchanges s' = exchanges s @ map (\<lambda>f. flow_exchange op rp (srcs s ! 0) env 1 (flow_key s f)) (flows s) \<and>
    monitored (monitor s') as (ps @ map (\<lambda>f. flow_path (flow_key s f)) (flows s)) \<and>
    darshana_runs (monitor s') = darshana_runs (monitor s) @ map (\<lambda>f. flow_darshana (srcs s ! 0) (flow_key s f)) (flows s) \<and>
    flows s = [(i, j). i \<leftarrow> [0..<nat (numSrcs s)], j \<leftarrow> [0..<nat (numDsts s)]]"
proof -
  have prod: "List.product xs ys = [(i, j). i \<leftarrow> xs, j \<leftarrow> ys]" for xs ys :: "nat list"
    by (induction xs) auto
  obtain s' where s': "setup_each_flow op rp 0 env s = Some (Inr s')"
    "monitored (monitor s') as (ps @ map (\<lambda>f. flow_path (flow_key s f)) (flows s))"
    "exchanges s' = exchanges s @ map (\<lambda>f. flow_exchange op rp (srcs s ! 0) env 1 (flow_key s f)) (flows s)"
    using setup_each_flow_ok [OF assms, of op] by blast
  with setup_each_flow_trace [OF s'(1)] setup_each_flow_darshana [OF s'(1)] show ?thesis
    by (auto simp: sender_nat.all_rules_def comp_def flows_def prod)
qed

definition sample_sender :: sender where
  "sample_sender = \<lparr>hops = [''10.0.0.7'', ''10.0.0.8''], srcs = [''10.0.0.1'', ''10.0.0.2''], dsts = [''10.0.0.5''],
     primary_interface = ''eth0'', numSrcs = 2, numHops = 2, numDsts = 1, dar_ip = [], dar_port = 0,
     monitor = \<lparr>dar_state = empty_dar, alert_receiver_socket_fd = 0, dar_socket_open = False,
       dar_pthread_running = False, sender_darshanas = [None, None], darshana_runs = [], cancelled = []\<rparr>,
     log_open = True, connection_timer = Clock_Null, connection_open = False, handler_registered = False,
     commands = [], exchanges = []\<rparr>"

definition quiet_env :: flow_env where
  "quiet_env = \<lparr>stun_of = (\<lambda>i j. sample_stun), replies = (\<lambda>i j. []), silent = (\<lambda>i j. False), junk = replicate 199 (CHR ''x'')\<rparr>"

lemma all_less_2: "(\<forall>i<(2 :: nat). P i) \<longleftrightarrow> P 0 \<and> P 1"
  by (auto simp: less_2_cases_iff)

lemma sample_sender_ready: "sender_ready sample_sender" "monitored (monitor sample_sender) [] []"
  using empty_dar_rel by (simp_all add: all_less_2 sample_sender_def sender_ready_def addr_ok_def token_def plain_char_def)

lemma quiet_env_ok: "replies_ok quiet_env"
  by (auto simp: replies_ok_def quiet_env_def setup_overlay_node_def)

theorem setup_flows_exact_witness:
  "\<exists>s'. setup_each_flow 5000 6000 0 quiet_env sample_sender = Some (Inr s') \<and>
    commands s' = commands sample_sender @
      map append_cmd (concat (map (\<lambda>f. sender_rules (flow_key sample_sender f)) (flows sample_sender))) \<and>
    monitored (monitor s') [] [new_path_status ''10.0.0.1'' ''10.0.0.7'' ''10.0.0.5'',
      new_path_status ''10.0.0.2'' ''10.0.0.8'' ''10.0.0.5'']"
proof -
  have f: "flows sample_sender = [(0, 0), (1, 0)]" by (simp add: flows_def sample_sender_def upt_rec)
  have paths: "map (\<lambda>f. flow_path (flow_key sample_sender f)) (flows sample_sender) =
      [new_path_status ''10.0.0.1'' ''10.0.0.7'' ''10.0.0.5'', new_path_status ''10.0.0.2'' ''10.0.0.8'' ''10.0.0.5'']"
    unfolding f by (simp add: flow_path_def flow_key_def hop_index_def sample_sender_def)
  have "0 \<le> (6000 :: int)" "(6000 :: int) < 100000" by simp_all
  from setup_flows_exact [OF sample_sender_ready(1) quiet_env_ok this sample_sender_ready(2), of 5000]
  show ?thesis unfolding paths by (metis append_Nil)
qed

section \<open>The round robin over the nodes\<close>

lemma product_append: "List.product (xs @ ys) zs = List.product xs zs @ List.product ys zs"
  by (induction xs) simp_all

lemma count_list_upt: "count_list [0..<n] h = (if h < n then 1 else 0)"
  by (induction n) auto

lemma upt_split: "[0..<a + b] = [0..<a] @ map (\<lambda>k. k + a) [0..<b]"
  using upt_add_eq_append [of 0 a b] map_add_upt [of a b] by (simp add: add.commute)

lemma product_index:
  "map (\<lambda>(i, j). i * n + j) (List.product [0..<m] [0..<n]) = [0..<m * n]"
proof (induction m)
  case (Suc m)
  have u: "[0..<Suc m] = [0..<m] @ [m]" by simp
  have "map (\<lambda>(i, j). i * n + j) (List.product [0..<Suc m] [0..<n]) =
      map (\<lambda>(i, j). i * n + j) (List.product [0..<m] [0..<n]) @ map (\<lambda>j. m * n + j) [0..<n]"
    unfolding u product_append by (simp add: comp_def)
  also have "\<dots> = [0..<m * n] @ map (\<lambda>k. k + m * n) [0..<n]"
    unfolding Suc by (simp add: add.commute)
  also have "\<dots> = [0..<Suc m * n]"
    unfolding upt_split [symmetric] by (simp add: add.commute)
  finally show ?case .
qed simp

lemma count_mod:
  assumes "h < H" "r < H"
  shows "count_list (map (\<lambda>k. k mod H) [0..<q * H + r]) h = q + (if h < r then 1 else 0)"
proof (induction q)
  case 0
  have "map (\<lambda>k. k mod H) [0..<r] = [0..<r]"
    using assms(2) by (intro map_idI) auto
  then show ?case by (simp add: count_list_upt)
next
  case (Suc q)
  have "[0..<Suc q * H + r] = [0..<H] @ map (\<lambda>k. k + H) [0..<q * H + r]"
    using upt_split [of H "q * H + r"] by (simp add: add.assoc)
  moreover have "map (\<lambda>k. k mod H) [0..<H] = [0..<H]" by (intro map_idI) auto
  ultimately have "map (\<lambda>k. k mod H) [0..<Suc q * H + r] = [0..<H] @ map (\<lambda>k. k mod H) [0..<q * H + r]"
    by (simp add: comp_def)
  with Suc assms(1) show ?case by (simp add: count_list_upt)
qed

text \<open>The nodes share the flows evenly: with N flows and H nodes, node h carries N div H of them
  and one more exactly if h < N mod H; in particular every node is used when N is at least
  H.\<close>

theorem hop_balance:
  assumes "0 < numHops s" "h < nat (numHops s)"
  shows "count_list (map (hop_index s) (flows s)) h =
    length (flows s) div nat (numHops s) + (if h < length (flows s) mod nat (numHops s) then 1 else 0)"
proof -
  let ?H = "nat (numHops s)" and ?N = "nat (numSrcs s) * nat (numDsts s)"
  have N: "length (flows s) = ?N" by (simp add: flows_def)
  have "map (hop_index s) (flows s) = map (\<lambda>k. k mod ?H) (map (\<lambda>(i, j). i * nat (numDsts s) + j) (flows s))"
    by (simp add: hop_index_def comp_def split_beta)
  also have "\<dots> = map (\<lambda>k. k mod ?H) [0..<?N div ?H * ?H + ?N mod ?H]"
    by (simp only: flows_def product_index div_mult_mod_eq)
  finally show ?thesis using count_mod [OF assms(2), of "?N mod ?H" "?N div ?H"] assms by (simp add: N)
qed

theorem hop_balance_witness:
  "count_list (map (hop_index sample_sender) (flows sample_sender)) 1 = 1"
  using hop_balance [of sample_sender 1] by (simp add: sample_sender_def flows_def)

section \<open>Sessions with STUN\<close>

text \<open>The session of a sender with one source and one destination.\<close>

lemma one_flow:
  assumes "numSrcs s = 1" "numDsts s = 1"
  shows "flows s = [(0, 0)]" "hop_index s (0, 0) = 0"
  using assms by (simp_all add: flows_def hop_index_def)

lemma stun_session:
  assumes ready: "sender_ready s" and one: "numSrcs s = 1" "numDsts s = 1"
    and env: "replies_ok env" "replies_ok env'" and rp: "0 \<le> rp" "rp < 100000" and mon: "monitored (monitor s) as ps"
    and k: "flow_key s (0, 0) = (src, dst, hop)"
    and pub: "public_source us (stun_of env 0 0) src = Some (Inr pub)" "addr_ok pub"
  shows "\<exists>s1 s2. setup_each_flow op rp us env s = Some (Inr s1) \<and> clean_rules op rp us env' s1 = Inr s2 \<and>
    commands s2 = commands s @ map append_cmd (sender_rules (src, dst, hop)) @ map delete_cmd (sender_rules (pub, dst, hop))"
proof -
  have f: "(0, 0) \<in> set (flows s)" using one_flow [OF one] by simp
  note range = flow_in_range [OF ready f, unfolded fst_conv snd_conv]
  from setup_flow_result [OF ready f env(1) rp mon k, unfolded fst_conv snd_conv, OF pub, of op]
  obtain s1 where s1: "setup_flow op rp us env (0, 0) s = Some (Inr s1)"
    "srcs s1 = (srcs s)[0 := pub]" "dsts s1 = dsts s" "hops s1 = hops s" "numSrcs s1 = 1" "numDsts s1 = 1"
    "numHops s1 = numHops s" "log_open s1 = log_open s" "dar_ip s1 = pub" "dar_port s1 = DAR_PORT"
    "length (sender_darshanas (monitor s1)) = length (sender_darshanas (monitor s))"
    "sender_darshanas (monitor s1) ! 0 \<noteq> None"
    "commands s1 = commands s @ map append_cmd (sender_rules (src, dst, hop))"
    using one range one_flow [OF one] by auto
  have all: "addr_ok ((srcs s)[0 := pub] ! 0)" using range(1) pub(2) by simp
  have ready1: "sender_ready s1" using ready all one by (simp add: sender_ready_def s1)
  have f1: "(0, 0) \<in> set (flows s1)" using one_flow [OF s1(5,6)] by simp
  have key1: "flow_key s1 (0, 0) = (pub, dst, hop)"
    using k range one by (simp add: flow_key_def s1 hop_index_def)
  have th: "sender_darshanas (monitor s1) ! hop_index s1 (0, 0) \<noteq> None"
    using s1(12) one_flow(2) [OF s1(5,6)] by simp
  obtain m io where u: "clean_node op rp env' (0, 0) s1 = Inr (s1\<lparr>monitor := m, exchanges := io\<rparr>)"
    "sender_darshanas m = sender_darshanas (monitor s1)"
    using clean_node_ok [OF ready1 f1 env(2) rp _ s1(10) th, of op] pub(2) s1(9) by auto
  let ?u = "s1\<lparr>monitor := m, exchanges := io\<rparr>"
  have flows_u: "flows ?u = [(0, 0)]" using one_flow(1) [OF s1(5,6)] by (simp add: flows_def)
  have "sender_ready ?u" using ready1 u(2) by (simp add: sender_ready_def)
  from clean_owns_ok [OF order_refl this] obtain cs where
    cs: "run_steps clean_own (flows ?u) ?u = Inr (?u\<lparr>commands := cs\<rparr>)" by blast
  have clean: "clean_rules op rp us env' s1 = Inr (?u\<lparr>commands := cs\<rparr>)"
    using ready1 u(1) cs one_flow(1) [OF s1(5,6)] flows_u by (simp add: clean_rules_def sender_ready_def)
  have "sender_nat.all_rules (map (flow_key s1) (flows s1)) = sender_rules (pub, dst, hop)"
    unfolding one_flow(1) [OF s1(5,6)] sender_nat.all_rules_def by (simp add: key1)
  then have "cs = commands s1 @ map delete_cmd (sender_rules (pub, dst, hop))"
    using clean_rules_trace [OF clean] by simp
  moreover have "setup_each_flow op rp us env s = Some (Inr s1)"
    using s1(1) by (simp add: setup_each_flow_def one_flow(1) [OF one])
  ultimately show ?thesis using clean s1(13) by auto
qed

text \<open>C36.
  With STUN a session leaves its own rules behind.  For one source and one destination: the rules
  are installed for the local address of the source and removed for the public address that STUN
  found, so the OUTPUT chain keeps one more copy of the installed rule than it had, unless the two
  texts denote the same rule.\<close>

theorem stun_leaves_rules:
  assumes "sender_ready s" "numSrcs s = 1" "numDsts s = 1" "replies_ok env" "replies_ok env'"
    and "0 \<le> rp" "rp < 100000" "monitored (monitor s) as ps" "flow_key s (0, 0) = (src, dst, hop)"
    and stun: "us \<noteq> 0" "stunGetPublicIP (stun_of env 0 0) = Some (Inr out)" "stun_text out = Some pub" "addr_ok pub"
    and sem: "iptables_semantics exec denote chain"
    and rule: "denote (snd (sender_rules (src, dst, hop) ! 1)) = Some r"
      "denote (snd (sender_rules (pub, dst, hop) ! 1)) \<noteq> Some r"
  shows "\<exists>s1 s2 cs. setup_each_flow op rp us env s = Some (Inr s1) \<and> clean_rules op rp us env' s1 = Inr s2 \<and>
    commands s2 = commands s @ cs \<and>
    count_list (chain (fold exec cs t) ''OUTPUT'') r = Suc (count_list (chain t ''OUTPUT'') r)"
proof -
  have p: "public_source us (stun_of env 0 0) src = Some (Inr pub)"
    using stun by (simp add: public_source_def)
  obtain s1 s2 where s: "setup_each_flow op rp us env s = Some (Inr s1)" "clean_rules op rp us env' s1 = Inr s2"
    "commands s2 = commands s @ map append_cmd (sender_rules (src, dst, hop)) @ map delete_cmd (sender_rules (pub, dst, hop))"
    using stun_session [OF assms(1-9) p stun(4)] by blast
  have "(0, 0) \<in> set (flows s)" using one_flow [OF assms(2,3)] by simp
  from flow_addresses [OF assms(1) this assms(9)]
  have proper: "proper_rules (sender_rules (src, dst, hop))" "proper_rules (sender_rules (pub, dst, hop))"
    using stun(4) by (simp_all add: sender_rules_proper addr_ok_def)
  have a: "count (mset (denoted denote ''OUTPUT'' (sender_rules (src, dst, hop)))) r = 1"
    using rule(1) by (simp add: sender_rules_def denoted_simps)
  have d: "count (mset (denoted denote ''OUTPUT'' (sender_rules (pub, dst, hop)))) r = 0"
    using rule(2) by (auto simp: sender_rules_def denoted_simps split: option.splits)
  have "count (mset (chain (fold exec (map append_cmd (sender_rules (src, dst, hop)) @
      map delete_cmd (sender_rules (pub, dst, hop))) t) ''OUTPUT'')) r = Suc (count (mset (chain t ''OUTPUT'')) r)"
    unfolding fold_append comp_apply exec_deletes [OF sem proper(2)] exec_appends [OF sem proper(1)]
    by (simp only: count_diff mset_append count_union a d)
  then show ?thesis using s unfolding count_mset by (intro exI conjI) (rule s(1), rule s(2), rule s(3), simp)
qed

definition small_sender :: sender where
  "small_sender = sample_sender\<lparr>numSrcs := 1\<rparr>"

theorem stun_leaves_rules_witness:
  "\<exists>s1 s2 cs. setup_each_flow 5000 6000 1 quiet_env small_sender = Some (Inr s1) \<and>
    clean_rules 5000 6000 1 quiet_env s1 = Inr s2 \<and> commands s2 = commands small_sender @ cs \<and>
    count_list (id (fold text_exec cs (\<lambda>c. [])) ''OUTPUT'')
      ''-p tcp -s 10.0.0.1 -d 10.0.0.5 -j DNAT --to-destination 10.0.0.7'' = Suc 0"
proof -
  have "sender_ready small_sender" "monitored (monitor small_sender) [] []"
    using sample_sender_ready by (simp_all add: all_less_2 small_sender_def sender_ready_def sample_sender_def)
  moreover have "flow_key small_sender (0, 0) = (''10.0.0.1'', ''10.0.0.5'', ''10.0.0.7'')"
    by (simp add: flow_key_def small_sender_def sample_sender_def hop_index_def)
  moreover obtain out where "stunGetPublicIP sample_stun = Some (Inr out)" "stun_text out = Some ''192.0.2.33''"
    using sample_stun_answer by blast
  ultimately show ?thesis
    using stun_leaves_rules [where s = small_sender and env = quiet_env and env' = quiet_env and us = 1 and op = 5000
        and rp = 6000 and pub = "''192.0.2.33''" and exec = text_exec and denote = Some and chain = id
        and t = "\<lambda>c. []" and r = "''-p tcp -s 10.0.0.1 -d 10.0.0.5 -j DNAT --to-destination 10.0.0.7''"]
      quiet_env_ok text_exec_semantics
    by (simp add: small_sender_def sample_sender_def quiet_env_def sender_rules_def addr_ok_def token_def plain_char_def)
qed

end
