(* ===== verification/Sender_Session.thy ===== *)
theory Sender_Session
  imports Sender_Properties
begin

text \<open>
  The life of a sender: \<^verbatim>\<open>setup_sender\<close> and \<^verbatim>\<open>teardown_sender\<close> of \<^verbatim>\<open>sending_handler.c\<close>,
  the connection of \<^verbatim>\<open>connection_manager.c\<close>, the public functions of \<^verbatim>\<open>machete_sender.c\<close>, and
  the signal by which the alert receiver reports a compromised path.
\<close>

section \<open>Environment\<close>

text \<open>
  What the calls to the outside return: the answers of the DepSpace adapter, which nodes
  answer a ping, the interfaces that the \<open>t\<close>-th \<^verbatim>\<open>getifaddrs\<close> lists, the pings of the search
  for a free address, the time, and the results of system calls.  \<open>heap_text\<close> is what junk0
  memory holds.
\<close>

record session_env =
  dep_nodes :: stream
  dep_receiver :: stream
  node_alive :: "nat \<Rightarrow> string \<Rightarrow> bool"
  interface_lists :: "nat \<Rightarrow> ifaddrs list"
  alias_answers :: "nat \<Rightarrow> nat \<Rightarrow> string \<Rightarrow> bool"
  time_now :: "nat \<Rightarrow> int"
  flow_environment :: flow_env
  dar_sockfd :: int
  dar_bind_result :: int
  dar_thread_result :: int
  signal_ok :: bool
  connect_result :: int
  heap_text :: string

section \<open>Finding the sources\<close>

definition reserve_memory_for_structures :: "string \<Rightarrow> sender \<Rightarrow> sender" where
  "reserve_memory_for_structures junk0 s =
     s\<lparr>hops := replicate MAX_FLOWS junk0, srcs := replicate MAX_FLOWS junk0, dsts := replicate MAX_FLOWS junk0,
       primary_interface := junk0, dar_ip := junk0\<rparr>"

definition add_source :: "session_env \<Rightarrow> nat \<Rightarrow> sender \<Rightarrow> string list res option" where
  "add_source env t s =
     (if strchr (primary_interface s) (CHR ''e'')
      then cbind (create_virtual_ifconfig (alias_answers env t) (interface_lists env t) (numSrcs s) (primary_interface s))
             (\<lambda>c. Some (Inr [c]))
      else Some (create_virtual_interface (time_now env t) (primary_interface s)))"

text \<open>The loop that creates interfaces until there are as many flows as nodes.\<close>

partial_function (option) extend_sources :: "session_env \<Rightarrow> nat \<Rightarrow> sender \<Rightarrow> (nat \<times> sender) res option" where
  "extend_sources env t s =
     (if numSrcs s * numDsts s < numHops s
      then cbind (add_source env t s) (\<lambda>cs.
        extend_sources env (Suc t) (s\<lparr>numSrcs := numSrcs s + 1, commands := commands s @ cs\<rparr>))
      else Some (Inr (t, s)))"

definition read_interfaces :: "session_env \<Rightarrow> nat \<Rightarrow> sender \<Rightarrow> sender res" where
  "read_interfaces env t s =
     rbind (get_local_interfaces (interface_lists env t) (primary_interface s) (srcs s)) (\<lambda>(p, ss, n).
       Inr (s\<lparr>primary_interface := p, srcs := ss, numSrcs := int n\<rparr>))"

definition setup_machete_info :: "session_env \<Rightarrow> sender \<Rightarrow> sender res option" where
  "setup_machete_info env s =
     cbind (Some (read_interfaces env 0 s)) (\<lambda>s1.
     cbind (extend_sources env 1 s1) (\<lambda>(t, s2).
       Some (read_interfaces env t s2)))"

section \<open>Setting up\<close>

text \<open>The part of \<^verbatim>\<open>setup_sender\<close> up to the flows.\<close>

definition find_flows :: "session_env \<Rightarrow> setup_sender_arg \<Rightarrow> sender \<Rightarrow> sender res option" where
  "find_flows env arg s0 =
     (let s = reserve_memory_for_structures (heap_text env) s0 in
     cbind (Some (guard (log_open s) UseAfterFree)) (\<lambda>_.
     cbind (Some (get_overlay_nodes_from_manager (dep_nodes env) (hops s))) (\<lambda>(cmd, n, hops1).
     cbind (probe_overlay_nodes (node_alive env) (int n) hops1) (\<lambda>(n2, hops2).
     cbind (Some (validate_number_of_hops n2 (min_number_of_nodes arg))) (\<lambda>report.
     cbind (Some (get_receiver_info_from_manager (receiver_addr arg) (dep_receiver env) (dsts s))) (\<lambda>(cmds, nd, dsts1).
       setup_machete_info env (s\<lparr>hops := hops2, numHops := n2, dsts := dsts1, numDsts := nd\<rparr>)))))))"

definition start_monitoring :: "session_env \<Rightarrow> setup_sender_arg \<Rightarrow> sender \<Rightarrow> sender res" where
  "start_monitoring env arg s =
     rbind (start_path_monitoring_module (dar_sockfd env) (dar_bind_result env) (dar_thread_result env)
              (max_alerts arg) (monitor s)) (\<lambda>m.
       Inr (s\<lparr>monitor := m\<rparr>))"

definition register_handler :: "session_env \<Rightarrow> sender \<Rightarrow> sender" where
  "register_handler env s = s\<lparr>handler_registered := handler_registered s \<or> signal_ok env\<rparr>"

definition init_socket_communication_with_receiver :: "session_env \<Rightarrow> sender \<Rightarrow> sender res" where
  "init_socket_communication_with_receiver env s =
     (let s1 = s\<lparr>connection_timer := Clock_Running\<rparr> in
      rbind (guard (0 \<le> connect_result env) (Exit (- 1))) (\<lambda>_. Inr (s1\<lparr>connection_open := True\<rparr>)))"

definition setup_sender :: "session_env \<Rightarrow> setup_sender_arg \<Rightarrow> sender \<Rightarrow> sender res option" where
  "setup_sender env arg s =
     cbind (find_flows env arg s) (\<lambda>s1.
     cbind (setup_each_flow (overlay_port arg) (receiver_port arg) (use_stun_server arg) (flow_environment env) s1) (\<lambda>s2.
     cbind (Some (start_monitoring env arg s2)) (\<lambda>s3.
       Some (init_socket_communication_with_receiver env (register_handler env s3)))))"

section \<open>Tearing down\<close>

text \<open>
  Ending the clock of the connection reads a cell that is freed afterwards, and writes to the
  log.
\<close>

definition close_socket_communication_with_receiver :: "sender \<Rightarrow> sender res" where
  "close_socket_communication_with_receiver s =
     rbind (case connection_timer s of Clock_Null \<Rightarrow> Inl NullDeref | Clock_Freed \<Rightarrow> Inl UseAfterFree
              | Clock_Running \<Rightarrow> Inr ()) (\<lambda>_.
     rbind (guard (log_open s) UseAfterFree) (\<lambda>_.
       Inr (s\<lparr>connection_open := False, connection_timer := Clock_Freed\<rparr>)))"

definition teardown_sender :: "flow_env \<Rightarrow> ifaddrs list \<Rightarrow> setup_sender_arg \<Rightarrow> sender \<Rightarrow> sender res" where
  "teardown_sender env ifap arg s =
     rbind (close_socket_communication_with_receiver s) (\<lambda>s1.
     rbind (stop_path_monitoring_module (monitor s1)) (\<lambda>m.
     rbind (clean_rules (overlay_port arg) (receiver_port arg) (use_stun_server arg) env (s1\<lparr>monitor := m\<rparr>)) (\<lambda>s2.
     rbind (clean_virtual_interfaces ifap) (\<lambda>cs.
       Inr (s2\<lparr>commands := commands s2 @ cs, log_open := False\<rparr>)))))"

section \<open>The signal\<close>

datatype signal_outcome = Exit_Process int | Resume

definition handle_dar_signal :: "flow_env \<Rightarrow> ifaddrs list \<Rightarrow> setup_sender_arg \<Rightarrow> sender \<Rightarrow> (sender \<times> signal_outcome) res" where
  "handle_dar_signal env ifap arg s =
     (if reaction_spec arg = SHUTDOWN_COMMUNICATION then
        rbind (teardown_sender env ifap arg s) (\<lambda>s'. Inr (s', Exit_Process 1))
      else if reaction_spec arg = SHUTDOWN_COMMUNICATION_AND_STARTS_AGAIN_WOUT_BAD_PATH then
        rbind (teardown_sender env ifap arg s) (\<lambda>s'. Inr (s', Resume))
      else if reaction_spec arg = REUSE_PATHS_LEFT then Inr (s, Resume)
      else if reaction_spec arg = CREATE_NEW_PATH then Inr (s, Resume)
      else if reaction_spec arg = DO_NOTHING_AND_IGNORE_ALERTS then Inr (s, Resume)
      else rbind (teardown_sender env ifap arg s) (\<lambda>s'. Inr (s', Exit_Process 1)))"

section \<open>The public functions\<close>

text \<open>\<open>experiment_run\<close> is a global of the file; it is not part of the sender's state.\<close>

definition machete_setup_sender_spec ::
    "session_env \<Rightarrow> string \<Rightarrow> int \<Rightarrow> string \<Rightarrow> int \<Rightarrow> int \<Rightarrow> int \<Rightarrow> int \<Rightarrow> int \<Rightarrow> int \<Rightarrow> sender \<Rightarrow>
      (int \<times> setup_sender_arg \<times> sender) res option" where
  "machete_setup_sender_spec env dst_address dst_port depspace_proxy_ip depspace_proxy_port0 overlay_port0
       min_number_of_nodes0 use_stun_server0 max_dar_alerts0 experiment_run s =
     (let argument = \<lparr>receiver_addr = dst_address, receiver_port = dst_port,
            depspace_proxy_addr = depspace_proxy_ip, depspace_proxy_port = depspace_proxy_port0,
            overlay_port = overlay_port0, min_number_of_nodes = min_number_of_nodes0,
            use_stun_server = use_stun_server0, reaction_spec = SHUTDOWN_COMMUNICATION,
            max_alerts = max_dar_alerts0\<rparr> in
      cbind (setup_sender env argument (s\<lparr>log_open := True\<rparr>)) (\<lambda>s'.
        Some (Inr (experiment_run + 1, argument, s'))))"

definition machete_teardown_sender_spec :: "flow_env \<Rightarrow> ifaddrs list \<Rightarrow> setup_sender_arg \<Rightarrow> sender \<Rightarrow> sender res" where
  "machete_teardown_sender_spec env ifap arg s = teardown_sender env ifap arg s"

definition machete_setup_sender :: "string \<Rightarrow> int \<Rightarrow> int" where
  "machete_setup_sender receiver_ip receiver_port0 = - 1"

definition machete_teardown_sender :: "int \<Rightarrow> unit" where
  "machete_teardown_sender receiver_sock_fd = ()"

end
