(* ===== verification/Session_Properties.thy ===== *)
theory Session_Properties
  imports Sender_Session
begin

text \<open>
  What a session of the sender does from the first query to the last command: which flows it
  finds, what its teardown leaves, and how an alert ends it.
\<close>

section \<open>Creating sources\<close>

lemma add_source_commands [simp]:
  "add_source env t (s\<lparr>commands := cs, numSrcs := n\<rparr>) = add_source env t (s\<lparr>numSrcs := n\<rparr>)"
  by (simp add: add_source_def)

lemma extend_sources_returns:
  assumes "0 < numDsts s"
    and "\<And>k. (numSrcs s + int k) * numDsts s < numHops s \<Longrightarrow>
      add_source env (t + k) (s\<lparr>numSrcs := numSrcs s + int k\<rparr>) = Some (Inr (c k))"
  shows "\<exists>m. extend_sources env t s = Some (Inr (t + m, s\<lparr>numSrcs := numSrcs s + int m,
      commands := commands s @ concat (map c [0..<m])\<rparr>)) \<and>
    numHops s \<le> (numSrcs s + int m) * numDsts s \<and> (m = 0 \<or> (numSrcs s + int m - 1) * numDsts s < numHops s)"
  using assms
proof (induction "nat (numHops s - numSrcs s * numDsts s)" arbitrary: t s c rule: less_induct)
  case less
  show ?case
  proof (cases "numSrcs s * numDsts s < numHops s")
    case False
    then show ?thesis by (intro exI [of _ 0], subst extend_sources.simps) simp
  next
    case True
    let ?s = "s\<lparr>numSrcs := numSrcs s + 1, commands := commands s @ c 0\<rparr>"
    have a: "add_source env t s = Some (Inr (c 0))" using less.prems(2) [of 0] True by simp
    have "nat (numHops ?s - numSrcs ?s * numDsts ?s) < nat (numHops s - numSrcs s * numDsts s)"
      using True less.prems(1) by (simp add: algebra_simps)
    moreover have "add_source env (Suc t + k) (?s\<lparr>numSrcs := numSrcs ?s + int k\<rparr>) = Some (Inr (c (Suc k)))"
      if "(numSrcs ?s + int k) * numDsts ?s < numHops ?s" for k
      using less.prems(2) [of "Suc k"] that by (simp add: ac_simps)
    ultimately obtain m where m: "extend_sources env (Suc t) ?s = Some (Inr (Suc t + m, ?s\<lparr>numSrcs := numSrcs ?s + int m,
        commands := commands ?s @ concat (map (\<lambda>k. c (Suc k)) [0..<m])\<rparr>))"
      "numHops ?s \<le> (numSrcs ?s + int m) * numDsts ?s" "m = 0 \<or> (numSrcs ?s + int m - 1) * numDsts ?s < numHops ?s"
      using less.hyps [of ?s "Suc t" "\<lambda>k. c (Suc k)"] less.prems(1) by auto
    have "extend_sources env t s = extend_sources env (Suc t) ?s"
      using True a by (subst extend_sources.simps) simp
    moreover have "concat (map c [0..<Suc m]) = c 0 @ concat (map (\<lambda>k. c (Suc k)) [0..<m])"
      by (simp add: map_upt_Suc del: upt_Suc)
    ultimately show ?thesis using m True
      by (intro exI [of _ "Suc m"]) (auto simp: ac_simps)
  qed
qed

text \<open>Without destinations every source brings no flow.\<close>

lemma extend_sources_never:
  assumes "extend_sources env t s = Some r"
  shows "numDsts s = 0 \<longrightarrow> 0 < numHops s \<longrightarrow> (\<forall>x. r \<noteq> Inr x)"
  using assms
proof (induction rule: extend_sources.raw_induct [rotated, consumes 1, case_names step])
  case (step f env t s r)
  show ?case
  proof (intro impI)
    assume n: "numDsts s = 0" "0 < numHops s"
    with step(2) have "cbind (add_source env t s) (\<lambda>cs.
        f env (Suc t) (s\<lparr>numSrcs := numSrcs s + 1, commands := commands s @ cs\<rparr>)) = Some r"
      by simp
    then consider e where "r = Inl e"
      | cs where "f env (Suc t) (s\<lparr>numSrcs := numSrcs s + 1, commands := commands s @ cs\<rparr>) = Some r"
      by (auto simp: cbind_def split: option.splits sum.splits)
    then show "\<forall>x. r \<noteq> Inr x"
    proof cases
      case 2
      from step(1) [OF this] n show ?thesis by simp
    qed simp
  qed
qed

text \<open>C27.
  The sender creates just enough sources: with at least one destination, and as long as each
  interface can be created, the loop ends with the least number of further sources that gives
  every node a flow, and runs their commands in order; without a destination it never ends
  well.\<close>

theorem sources_extended:
  assumes "0 < numDsts s"
    and "\<And>k. (numSrcs s + int k) * numDsts s < numHops s \<Longrightarrow>
      add_source env (t + k) (s\<lparr>numSrcs := numSrcs s + int k\<rparr>) = Some (Inr (c k))"
  shows "(\<exists>m. extend_sources env t s = Some (Inr (t + m, s\<lparr>numSrcs := numSrcs s + int m,
      commands := commands s @ concat (map c [0..<m])\<rparr>)) \<and>
    numHops s \<le> (numSrcs s + int m) * numDsts s \<and> (m = 0 \<or> (numSrcs s + int m - 1) * numDsts s < numHops s)) \<and>
    (\<forall>u x. numDsts u = 0 \<longrightarrow> 0 < numHops u \<longrightarrow> extend_sources env t u \<noteq> Some (Inr x))"
  using extend_sources_returns [OF assms] extend_sources_never by blast

definition lone_sender :: sender where
  "lone_sender = sample_sender\<lparr>numSrcs := 1\<rparr>"

definition alias_env :: session_env where
  "alias_env = \<lparr>dep_nodes = [], dep_receiver = [], node_alive = (\<lambda>t a. True), interface_lists = (\<lambda>t. one_interface),
     alias_answers = (\<lambda>t n a. False), time_now = (\<lambda>t. 0), flow_environment = quiet_env, dar_sockfd = 3,
     dar_bind_result = 0, dar_thread_result = 0, signal_ok = True, connect_result = 0, heap_text = []\<rparr>"

theorem sources_extended_witness:
  "\<exists>m. extend_sources alias_env 1 lone_sender = Some (Inr (1 + m, lone_sender\<lparr>numSrcs := numSrcs lone_sender + int m,
      commands := commands lone_sender @
        concat (map (\<lambda>k. [''ifconfig '' @ ''eth0'' @ '':'' @ dec_int 251 @ '' '' @ ipv4 10 0 0 251]) [0..<m])\<rparr>)) \<and>
    numHops lone_sender \<le> (numSrcs lone_sender + int m) * numDsts lone_sender \<and>
    (m = 0 \<or> (numSrcs lone_sender + int m - 1) * numDsts lone_sender < numHops lone_sender)"
proof -
  have a: "create_virtual_ifconfig (\<lambda>n a. False) one_interface 1 ''eth0'' =
      Some (Inr (''ifconfig '' @ ''eth0'' @ '':'' @ dec_int 251 @ '' '' @ ipv4 10 0 0 251))"
    using alias_created [OF one_interface_primary, of 1 0 "\<lambda>n a. False"] by simp
  have "add_source alias_env (1 + k) (lone_sender\<lparr>numSrcs := numSrcs lone_sender + int k\<rparr>) =
      Some (Inr [''ifconfig '' @ ''eth0'' @ '':'' @ dec_int 251 @ '' '' @ ipv4 10 0 0 251])"
    if "(numSrcs lone_sender + int k) * numDsts lone_sender < numHops lone_sender" for k
    using that a by (cases k) (simp_all add: lone_sender_def sample_sender_def add_source_def alias_env_def strchr_def)
  from sources_extended [OF _ this] show ?thesis by (simp add: lone_sender_def sample_sender_def)
qed

section \<open>The flows a session finds\<close>

definition addresses :: "ifaddrs list \<Rightarrow> string list" where
  "addresses ifap = map (\<lambda>ifa. snd (the (ifa_addr ifa))) (filter usable ifap)"

text \<open>
  Answers of the DepSpace adapter line by line: the nodes of \<open>ls\<close>, and the addresses \<open>as\<close> of
  the receiver, with whatever else the lines hold.
\<close>

definition adapter_lines :: "session_env \<Rightarrow> (string \<times> string \<times> string) list \<Rightarrow> string list \<Rightarrow> bool" where
  "adapter_lines env ls as \<longleftrightarrow> ls \<noteq> [] \<and> list_all node_line_ok ls \<and> as \<noteq> [] \<and> list_all address_ok as \<and>
     (\<exists>s. dep_nodes env = ''OK\<newline>'' # map node_line ls @ ''\<newline>'' # s) \<and>
     (\<exists>pre1 addr post1 pre2 post2.
        plain_line (size_line pre1 addr (int (length as)) post1) \<and> plain_line (address_line pre2 as post2) \<and>
        token '','' pre1 \<and> token '','' addr \<and> CHR '','' \<notin> set post1 \<and> token ''<'' pre2 \<and> CHR ''<'' \<notin> set post2 \<and>
        dep_receiver env = [''OK\<newline>'', size_line pre1 addr (int (length as)) post1, ''OK\<newline>'', address_line pre2 as post2])"

text \<open>Within the extents of the sender's arrays.\<close>

definition adapter_answers :: "session_env \<Rightarrow> (string \<times> string \<times> string) list \<Rightarrow> string list \<Rightarrow> bool" where
  "adapter_answers env ls as \<longleftrightarrow> adapter_lines env ls as \<and> length ls \<le> MAX_FLOWS \<and> length as \<le> MAX_FLOWS"

lemma adapter_answersD:
  "adapter_answers env ls as \<Longrightarrow> adapter_lines env ls as \<and> ls \<noteq> [] \<and> as \<noteq> [] \<and> length ls \<le> MAX_FLOWS \<and> length as \<le> MAX_FLOWS"
  by (simp add: adapter_answers_def adapter_lines_def)

definition found_flows :: "session_env \<Rightarrow> ifaddrs list \<Rightarrow> string list \<Rightarrow> string list \<Rightarrow> sender \<Rightarrow> sender" where
  "found_flows env ifap nodes as s =
     (let tail = \<lambda>xs. xs @ replicate (MAX_FLOWS - length xs) (heap_text env) in
      s\<lparr>hops := tail nodes, srcs := tail (addresses ifap), dsts := tail as,
        primary_interface := last (heap_text env # map ifa_name (filter usable ifap)),
        numSrcs := int (length (addresses ifap)), numHops := int (length nodes), numDsts := int (length as),
        dar_ip := heap_text env\<rparr>)"

lemma probe_all_alive:
  assumes "\<forall>i<n. alive (nodes ! i)" "n \<le> length nodes"
  shows "probe_overlay_nodes (\<lambda>_. alive) (int n) nodes = Some (Inr (int n, nodes))"
proof -
  have "probe_loop (\<lambda>_. alive) t (int n) i nodes = Some (Inr (int n, nodes))" if "i \<le> n" for i t
    using that
  proof (induction "n - i" arbitrary: i t)
    case 0
    then show ?case by (subst probe_loop.simps) simp
  next
    case (Suc d)
    then have "i < n" "alive (nodes ! i)" using assms(1) by auto
    with Suc assms(2) show ?case by (subst probe_loop.simps) simp
  qed
  then show ?thesis by (simp add: probe_overlay_nodes_def)
qed

lemma read_interfaces_found:
  assumes "list_all inet_ok (interface_lists env t)" "length (addresses (interface_lists env t)) \<le> length (srcs s)"
  shows "read_interfaces env t s = Inr (s\<lparr>
    primary_interface := last (primary_interface s # map ifa_name (filter usable (interface_lists env t))),
    srcs := addresses (interface_lists env t) @ drop (length (addresses (interface_lists env t))) (srcs s),
    numSrcs := int (length (addresses (interface_lists env t)))\<rparr>)"
  using local_interfaces_found [OF assms(1), of "srcs s" "primary_interface s"] assms(2)
  by (simp add: read_interfaces_def addresses_def)

text \<open>The two queries for the receiver, in the answers of the adapter.\<close>

lemma receiver_bounded:
  assumes "adapter_lines env ls as" "length (receiver_addr arg) + 2 * length as < 490"
  shows "\<exists>c1 c2. get_receiver_info_from_manager (receiver_addr arg) (dep_receiver env) ds =
      (if length as \<le> length ds then Inr ([c1, c2], int (length as), as @ drop (length as) ds) else Inl OutOfBounds)"
proof -
  obtain pre1 addr post1 pre2 post2 where
    "plain_line (size_line pre1 addr (int (length as)) post1)" "plain_line (address_line pre2 as post2)"
    "token '','' pre1" "token '','' addr" "CHR '','' \<notin> set post1" "as \<noteq> []" "list_all address_ok as"
    "token ''<'' pre2" "CHR ''<'' \<notin> set post2" "length (receiver_addr arg) + 2 * length as < 490"
    "dep_receiver env = [''OK\<newline>'', size_line pre1 addr (int (length as)) post1, ''OK\<newline>'', address_line pre2 as post2]"
    using assms by (auto simp: adapter_lines_def)
  then show ?thesis using receiver_info_bounded by metis
qed

text \<open>
  The first part of the set-up when every node answers and the sources suffice.
\<close>

lemma flows_found:
  assumes dep: "adapter_answers env ls as" and alive: "node_alive env = (\<lambda>_. alive)" "\<forall>l\<in>set ls. alive (line_ip l)"
    and ifs: "\<forall>t. interface_lists env t = ifap" "list_all inet_ok ifap" "length (addresses ifap) \<le> MAX_FLOWS"
      "length ls \<le> length (addresses ifap) * length as"
    and arg: "length (receiver_addr arg) + 2 * length as < 490" "min_number_of_nodes arg \<le> int (length ls)" and log: "log_open s"
  shows "find_flows env arg s = Some (Inr (found_flows env ifap (map line_ip ls) as s))"
proof -
  let ?h = "replicate MAX_FLOWS (heap_text env)"
  obtain r where d: "ls \<noteq> []" "list_all node_line_ok ls" "length ls \<le> MAX_FLOWS" "as \<noteq> []" "length as \<le> MAX_FLOWS"
    "dep_nodes env = ''OK\<newline>'' # map node_line ls @ ''\<newline>'' # r"
    using dep by (auto simp: adapter_answers_def adapter_lines_def)
  have n: "get_overlay_nodes_from_manager (dep_nodes env) ?h =
      Inr (''rdall node,*\<newline>'' @ [NUL], length ls, map line_ip ls @ drop (length ls) ?h)"
    unfolding d(6) by (rule overlay_nodes_learned [OF d(1,2)]) (use d(3) in simp)
  obtain c1 c2 where i: "get_receiver_info_from_manager (receiver_addr arg) (dep_receiver env) ?h =
      Inr ([c1, c2], int (length as), as @ drop (length as) ?h)"
    using receiver_bounded [of env ls as arg ?h] adapter_answersD [OF dep] arg(1) by auto
  have p: "probe_overlay_nodes (node_alive env) (int (length ls)) (map line_ip ls @ drop (length ls) ?h) =
      Some (Inr (int (length ls), map line_ip ls @ drop (length ls) ?h))"
    unfolding alive(1) by (rule probe_all_alive) (use alive(2) in \<open>auto simp: nth_append\<close>)
  obtain report where v: "validate_number_of_hops (int (length ls)) (min_number_of_nodes arg) = Inr report"
    using arg(2) by (cases "int (length ls) = min_number_of_nodes arg") (auto simp: validate_number_of_hops_def)
  let ?s = "(reserve_memory_for_structures (heap_text env) s)\<lparr>hops := map line_ip ls @ drop (length ls) ?h,
      numHops := int (length ls), dsts := as @ drop (length as) ?h, numDsts := int (length as)\<rparr>"
  let ?n = "length (addresses ifap)" and ?p = "last (heap_text env # map ifa_name (filter usable ifap))"
  let ?u = "?s\<lparr>primary_interface := ?p, srcs := addresses ifap @ drop ?n ?h, numSrcs := int ?n\<rparr>"
  have 1: "read_interfaces env 0 ?s = Inr ?u"
    using read_interfaces_found [of env 0 ?s] ifs by (simp add: reserve_memory_for_structures_def)
  have 2: "extend_sources env 1 ?u = Some (Inr (1, ?u))"
    using ifs(4) by (subst extend_sources.simps) (simp flip: of_nat_mult)
  have 3: "read_interfaces env 1 ?u = Inr ?u"
    using read_interfaces_found [of env 1 ?u] ifs by (cases "filter usable ifap") (simp_all add: addresses_def)
  have "find_flows env arg s = Some (Inr ?u)"
    using n i p v log 1 2 3 by (simp add: find_flows_def reserve_memory_for_structures_def setup_machete_info_def)
  also have "?u = found_flows env ifap (map line_ip ls) as s"
    by (simp add: found_flows_def reserve_memory_for_structures_def)
  finally show ?thesis .
qed

lemma found_flows_ready:
  assumes "list_all addr_ok nodes" "list_all addr_ok (addresses ifap)" "list_all addr_ok as"
    and "nodes \<noteq> []" "length nodes \<le> MAX_FLOWS" "length (addresses ifap) \<le> MAX_FLOWS" "length as \<le> MAX_FLOWS"
    and "log_open s" "length (sender_darshanas (monitor s)) = MAX_FLOWS"
  shows "sender_ready (found_flows env ifap nodes as s)"
proof -
  have "addresses ifap @ replicate (MAX_FLOWS - length (addresses ifap)) x \<noteq> []" for x
    using assms(6) by (cases "addresses ifap") auto
  with assms show ?thesis
    by (auto simp: sender_ready_def found_flows_def Let_def nth_append list_all_length)
qed

definition flow_keys :: "string list \<Rightarrow> string list \<Rightarrow> string list \<Rightarrow> (string \<times> string \<times> string) list" where
  "flow_keys ss ds hs = map (\<lambda>(i, j). (ss ! i, ds ! j, hs ! ((i * length ds + j) mod length hs)))
     (List.product [0..<length ss] [0..<length ds])"

lemma found_flow_keys:
  assumes "nodes \<noteq> []"
  shows "map (flow_key (found_flows env ifap nodes as s)) (flows (found_flows env ifap nodes as s)) =
    flow_keys (addresses ifap) as nodes"
proof -
  let ?s = "found_flows env ifap nodes as s"
  have "flow_key ?s (i, j) = (addresses ifap ! i, as ! j, nodes ! ((i * length as + j) mod length nodes))"
    if "i < length (addresses ifap)" "j < length as" for i j
  proof -
    have "(i * length as + j) mod length nodes < length nodes" using assms by simp
    with that show ?thesis
      by (simp add: flow_key_def found_flows_def Let_def hop_index_def nth_append)
  qed
  then show ?thesis by (auto simp: flow_keys_def flows_def found_flows_def Let_def)
qed

section \<open>A whole session\<close>

text \<open>What the set-up needs: the adapter's answers, live nodes, and addresses that fit.\<close>

definition session_ready ::
    "session_env \<Rightarrow> setup_sender_arg \<Rightarrow> (string \<times> string \<times> string) list \<Rightarrow> string list \<Rightarrow> ifaddrs list \<Rightarrow> sender \<Rightarrow> bool" where
  "session_ready env arg ls as ifap s \<longleftrightarrow>
     adapter_answers env ls as \<and> node_alive env = (\<lambda>t a. True) \<and> (\<forall>t. interface_lists env t = ifap) \<and>
     list_all inet_ok ifap \<and> length (addresses ifap) \<le> MAX_FLOWS \<and> length ls \<le> length (addresses ifap) * length as \<and>
     list_all addr_ok (map line_ip ls) \<and> list_all addr_ok (addresses ifap) \<and> list_all addr_ok as \<and>
     length (receiver_addr arg) < 450 \<and> min_number_of_nodes arg \<le> int (length ls) \<and>
     0 \<le> receiver_port arg \<and> receiver_port arg < 100000 \<and> use_stun_server arg = 0 \<and>
     replies_ok (flow_environment env) \<and> 0 \<le> dar_sockfd env \<and> 0 \<le> dar_bind_result env \<and>
     dar_thread_result env = 0 \<and> 0 \<le> connect_result env \<and>
     length (sender_darshanas (monitor s)) = MAX_FLOWS"

lemma flow_keys_ne: "ls \<noteq> [] \<Longrightarrow> length ls \<le> length ss * length ds \<Longrightarrow> flow_keys ss ds hs \<noteq> []"
proof -
  assume "ls \<noteq> []" "length ls \<le> length ss * length ds"
  then have "0 < length ls" "length (flow_keys ss ds hs) = length ss * length ds" by (simp_all add: flow_keys_def)
  with \<open>length ls \<le> length ss * length ds\<close> have "0 < length (flow_keys ss ds hs)" by linarith
  then show "flow_keys ss ds hs \<noteq> []" by auto
qed

text \<open>The last steps of the set-up: the alert receiver, the signal handler and the connection.\<close>

lemma monitoring_connects:
  assumes "0 \<le> dar_sockfd env" "0 \<le> dar_bind_result env" "dar_thread_result env = 0" "0 \<le> connect_result env"
    and "monitored (monitor u) al ps" "log_open u"
  obtains m v where "start_monitoring env arg u = Inr v"
    "init_socket_communication_with_receiver env (register_handler env v) =
      Inr (u\<lparr>monitor := m, connection_timer := Clock_Running, connection_open := True,
        handler_registered := handler_registered u \<or> signal_ok env\<rparr>)"
    "sender_darshanas m = sender_darshanas (monitor u)" "dar_pthread_running m" "monitored m [] []"
proof -
  obtain m where m: "start_path_monitoring_module (dar_sockfd env) (dar_bind_result env) (dar_thread_result env)
      (max_alerts arg) (monitor u) = Inr m"
    "sender_darshanas m = sender_darshanas (monitor u)" "dar_pthread_running m"
    using assms(1-4) by (simp add: start_path_monitoring_module_def start_dar_handler_def init_dar_socket_def)
  show thesis
    by (rule that [of "u\<lparr>monitor := m\<rparr>" m, OF _ _ m(2,3) start_forgets [OF assms(5) m(1)]])
      (use m(1) assms in \<open>simp_all add: start_monitoring_def register_handler_def init_socket_communication_with_receiver_def\<close>)
qed

text \<open>The flows are set up; then the monitoring starts from scratch and the sender connects.\<close>

lemma session_set_up:
  assumes ready: "session_ready env arg ls as ifap s" and log: "log_open s" and mon: "monitored (monitor s) al ps"
  shows "\<exists>u s'. setup_each_flow (overlay_port arg) (receiver_port arg) 0 (flow_environment env)
        (found_flows env ifap (map line_ip ls) as s) = Some (Inr u) \<and>
      sender_ready u \<and> same_flows (found_flows env ifap (map line_ip ls) as s) u \<and>
      commands u = commands s @ map append_cmd (sender_nat.all_rules (flow_keys (addresses ifap) as (map line_ip ls))) \<and>
      monitored (monitor u) al (ps @ map flow_path (flow_keys (addresses ifap) as (map line_ip ls))) \<and>
      exchanges u = exchanges s @ map (flow_exchange (overlay_port arg) (receiver_port arg) (addresses ifap ! 0)
        (flow_environment env) 1) (flow_keys (addresses ifap) as (map line_ip ls)) \<and>
      dar_ip u = addresses ifap ! 0 \<and> dar_port u = DAR_PORT \<and>
      (\<forall>f\<in>set (flows u). sender_darshanas (monitor u) ! hop_index u f \<noteq> None) \<and>
      setup_sender env arg (s\<lparr>log_open := True\<rparr>) = Some (Inr s') \<and>
      (\<exists>m. s' = u\<lparr>monitor := m, connection_timer := Clock_Running, connection_open := True,
        handler_registered := handler_registered u \<or> signal_ok env\<rparr> \<and>
        sender_darshanas m = sender_darshanas (monitor u) \<and> dar_pthread_running m \<and> monitored m [] [])"
proof -
  note r = ready [unfolded session_ready_def]
  let ?f = "found_flows env ifap (map line_ip ls) as s"
  have d: "ls \<noteq> []" "length ls \<le> MAX_FLOWS" "length as \<le> MAX_FLOWS" using r by (auto dest: adapter_answersD)
  have log': "s\<lparr>log_open := True\<rparr> = s" using log by simp
  have find: "find_flows env arg s = Some (Inr ?f)"
    using r log d by (intro flows_found [where alive = "\<lambda>a. True"]) auto
  have ready': "sender_ready ?f" using r d log by (intro found_flows_ready) auto
  have keys: "map (flow_key ?f) (flows ?f) = flow_keys (addresses ifap) as (map line_ip ls)"
    using d by (intro found_flow_keys) simp
  have ne: "flows ?f \<noteq> []" using flow_keys_ne [OF d(1), of "addresses ifap" as "map line_ip ls"] r keys by auto
  have src0: "srcs ?f ! 0 = addresses ifap ! 0"
    using d r by (cases "addresses ifap") (auto simp: found_flows_def Let_def)
  have mon': "monitored (monitor ?f) al ps" using mon by (simp add: found_flows_def Let_def)
  obtain u where u: "setup_each_flow (overlay_port arg) (receiver_port arg) 0 (flow_environment env) ?f = Some (Inr u)"
    "same_flows ?f u" "sender_ready u" "monitored (monitor u) al (ps @ map (\<lambda>g. flow_path (flow_key ?f g)) (flows ?f))"
    "exchanges u = exchanges ?f @ map (\<lambda>g. flow_exchange (overlay_port arg) (receiver_port arg) (srcs ?f ! 0)
      (flow_environment env) 1 (flow_key ?f g)) (flows ?f)"
    "dar_ip u = srcs ?f ! 0" "dar_port u = DAR_PORT" "\<forall>g\<in>set (flows ?f). sender_darshanas (monitor u) ! hop_index ?f g \<noteq> None"
    using setup_each_flow_ok [OF ready' _ _ _ mon', of "flow_environment env" "receiver_port arg" "overlay_port arg"] r ne
    by blast
  have cmds: "commands u = commands s @ map append_cmd (sender_nat.all_rules (flow_keys (addresses ifap) as (map line_ip ls)))"
    using setup_each_flow_trace [OF u(1)] keys by (simp add: found_flows_def Let_def)
  have ex: "exchanges u = exchanges s @ map (flow_exchange (overlay_port arg) (receiver_port arg) (addresses ifap ! 0)
      (flow_environment env) 1) (flow_keys (addresses ifap) as (map line_ip ls))"
    unfolding u(5) keys [symmetric] src0 by (simp add: found_flows_def Let_def comp_def)
  have "log_open u" using u(3) by (simp add: sender_ready_def)
  with r u(4) obtain m v where m: "start_monitoring env arg u = Inr v"
    "init_socket_communication_with_receiver env (register_handler env v) =
      Inr (u\<lparr>monitor := m, connection_timer := Clock_Running, connection_open := True,
        handler_registered := handler_registered u \<or> signal_ok env\<rparr>)"
    "sender_darshanas m = sender_darshanas (monitor u)" "dar_pthread_running m" "monitored m [] []"
    using monitoring_connects by blast
  have "setup_sender env arg s = Some (Inr (u\<lparr>monitor := m, connection_timer := Clock_Running, connection_open := True,
      handler_registered := handler_registered u \<or> signal_ok env\<rparr>))"
    using find u(1) m(1,2) r by (simp add: setup_sender_def)
  moreover have "map (\<lambda>g. flow_path (flow_key ?f g)) (flows ?f) = map flow_path (flow_keys (addresses ifap) as (map line_ip ls))"
    unfolding keys [symmetric] by simp
  ultimately show ?thesis
    unfolding log' using u cmds ex m(3-5) same_flows_simps [OF u(2)] src0
    by (intro exI [of _ u] exI [of _ "u\<lparr>monitor := m, connection_timer := Clock_Running, connection_open := True,
      handler_registered := handler_registered u \<or> signal_ok env\<rparr>"] conjI) auto
qed

lemma run_steps_keeps_connection:
  assumes "run_steps (clean_node op rp env) xs s = Inr u"
  shows "connection_open u = connection_open s \<and> connection_timer u = connection_timer s"
  using assms
proof (induction xs arbitrary: s)
  case (Cons x xs)
  then obtain v where v: "clean_node op rp env x s = Inr v" "run_steps (clean_node op rp env) xs v = Inr u"
    by (auto simp: rbind_eq_Inr)
  from v(1) have "connection_open v = connection_open s \<and> connection_timer v = connection_timer s"
    by (auto simp: clean_node_def rbind_eq_Inr split: prod.splits)
  with Cons.IH [OF v(2)] show ?case by simp
qed simp

text \<open>The messages of the teardown, for a sender with or without flows.\<close>

lemma clean_all_nodes:
  assumes ready: "sender_ready s" and env: "replies_ok env" and rp: "0 \<le> rp" "rp < 100000"
    and dar: "dar_ip s = srcs s ! 0" "dar_port s = DAR_PORT"
    and th: "\<forall>f\<in>set (flows s). sender_darshanas (monitor s) ! hop_index s f \<noteq> None"
  obtains u where "run_steps (clean_node op rp env) (flows s) s = Inr u" "sender_ready u"
    "exchanges u = exchanges s @ map (\<lambda>f. flow_exchange op rp (dar_ip s) env 0 (flow_key s f)) (flows s)"
    "connection_open u = connection_open s" "connection_timer u = connection_timer s"
proof (cases "flows s = []")
  case True
  with ready that [of s] show thesis by simp
next
  case False
  then obtain f where f: "f \<in> set (flows s)" by (cases "flows s") auto
  moreover obtain src dst hop where "flow_key s f = (src, dst, hop)" by (metis prod.exhaust)
  ultimately have "addr_ok (srcs s ! 0)" by (rule flow_addresses(4) [OF ready])
  then have "addr_ok (dar_ip s)" using dar by simp
  from clean_nodes_ok [OF env rp order_refl same_flows_refl ready this dar(2), of op] th
  obtain u where u: "run_steps (clean_node op rp env) (flows s) s = Inr u" "sender_ready u"
      "exchanges u = exchanges s @ map (\<lambda>f. flow_exchange op rp (dar_ip s) env 0 (flow_key s f)) (flows s)"
    by auto
  with run_steps_keeps_connection [OF u(1)] that show thesis by blast
qed

text \<open>Tearing down a sender that is connected.\<close>

lemma connected_tears_down:
  assumes ready: "sender_ready s" and log: "connection_timer s = Clock_Running"
    and rp: "0 \<le> receiver_port arg" "receiver_port arg < 100000" and env: "replies_ok env"
    and dar: "dar_ip s = srcs s ! 0" "dar_port s = DAR_PORT" "dar_pthread_running (monitor s)"
    and th: "\<forall>f\<in>set (flows s). sender_darshanas (monitor s) ! hop_index s f \<noteq> None"
    and ifs: "list_all inet_ok ifap"
  shows "\<exists>s' cs. teardown_sender env ifap arg s = Inr s' \<and> clean_virtual_interfaces ifap = Inr cs \<and>
    commands s' = commands s @ map delete_cmd (sender_nat.all_rules (map (flow_key s) (flows s))) @ cs \<and>
    exchanges s' = exchanges s @ map (flow_exchange (overlay_port arg) (receiver_port arg) (dar_ip s) env 0)
      (map (flow_key s) (flows s)) \<and>
    \<not> connection_open s' \<and> connection_timer s' = Clock_Freed \<and> \<not> log_open s'"
proof -
  define v where "v = s\<lparr>connection_open := False, connection_timer := Clock_Freed,
    monitor := (monitor s)\<lparr>dar_socket_open := False\<rparr>\<rparr>"
  have lo: "log_open s" using ready by (simp add: sender_ready_def)
  have same: "same_flows s v" by (simp add: v_def same_flows_def)
  note sf = same_flows_simps [OF same]
  have rv: "sender_ready v" using ready by (simp add: v_def sender_ready_def)
  obtain u where u: "run_steps (clean_node (overlay_port arg) (receiver_port arg) env) (flows v) v = Inr u"
    "sender_ready u"
    "exchanges u = exchanges v @ map (\<lambda>f. flow_exchange (overlay_port arg) (receiver_port arg) (dar_ip v) env 0 (flow_key v f)) (flows v)"
    "connection_open u = connection_open v" "connection_timer u = connection_timer v"
    by (rule clean_all_nodes [OF rv env rp]) (use dar th in \<open>simp_all add: v_def sf [unfolded v_def]\<close>)
  obtain cs where cs: "run_steps clean_own (flows u) u = Inr (u\<lparr>commands := cs\<rparr>)"
    using clean_owns_ok [OF order_refl u(2)] by blast
  have clean: "clean_rules (overlay_port arg) (receiver_port arg) (use_stun_server arg) env v = Inr (u\<lparr>commands := cs\<rparr>)"
    using u(1,2) cs by (simp add: clean_rules_def sender_ready_def)
  obtain ds where ds: "clean_virtual_interfaces ifap = Inr ds" using clean_loop [OF ifs] by blast
  have "commands (u\<lparr>commands := cs\<rparr>) = commands v @ map delete_cmd (sender_nat.all_rules (map (flow_key s) (flows s)))"
    using clean_rules_trace [OF clean] sf by simp
  moreover have "teardown_sender env ifap arg s = Inr (u\<lparr>commands := cs @ ds, log_open := False\<rparr>)"
    using clean ds log lo dar(3) by (simp add: teardown_sender_def close_socket_communication_with_receiver_def
        stop_path_monitoring_module_def' pthread_kill_0_def v_def)
  moreover have "exchanges u = exchanges s @ map (flow_exchange (overlay_port arg) (receiver_port arg) (dar_ip s) env 0)
      (map (flow_key s) (flows s))"
    unfolding u(3) sf by (simp add: v_def comp_def)
  ultimately show ?thesis using ds u(4,5) by (auto simp: v_def)
qed

text \<open>A connected session, and the sender it makes ready for its teardown.\<close>

lemma connected_session:
  assumes ready: "session_ready env arg ls as ifap s" and log: "log_open s" and mon: "monitored (monitor s) al ps"
  shows "\<exists>s1. setup_sender env arg s = Some (Inr s1) \<and> sender_ready s1 \<and> connection_timer s1 = Clock_Running \<and>
    connection_open s1 \<and> dar_ip s1 = srcs s1 ! 0 \<and> dar_ip s1 = addresses ifap ! 0 \<and> dar_port s1 = DAR_PORT \<and>
    exchanges s1 = exchanges s @ map (flow_exchange (overlay_port arg) (receiver_port arg) (addresses ifap ! 0)
      (flow_environment env) 1) (map (flow_key s1) (flows s1)) \<and> dar_pthread_running (monitor s1) \<and>
    (\<forall>f\<in>set (flows s1). sender_darshanas (monitor s1) ! hop_index s1 f \<noteq> None) \<and>
    map (flow_key s1) (flows s1) = flow_keys (addresses ifap) as (map line_ip ls) \<and>
    commands s1 = commands s @ map append_cmd (sender_nat.all_rules (map (flow_key s1) (flows s1))) \<and>
    list_all sender_fits (map (flow_key s1) (flows s1)) \<and>
    list_all (\<lambda>(src, dst, hop). plain src \<and> plain dst \<and> plain hop) (map (flow_key s1) (flows s1)) \<and>
    monitored (monitor s1) [] []"
proof -
  let ?f = "found_flows env ifap (map line_ip ls) as s" and ?k = "flow_keys (addresses ifap) as (map line_ip ls)"
  obtain u s1 where u: "setup_each_flow (overlay_port arg) (receiver_port arg) 0 (flow_environment env) ?f = Some (Inr u)"
      "sender_ready u" "same_flows ?f u" "commands u = commands s @ map append_cmd (sender_nat.all_rules ?k)"
      "dar_ip u = addresses ifap ! 0" "dar_port u = DAR_PORT"
      "\<forall>f\<in>set (flows u). sender_darshanas (monitor u) ! hop_index u f \<noteq> None"
      "exchanges u = exchanges s @ map (flow_exchange (overlay_port arg) (receiver_port arg) (addresses ifap ! 0)
        (flow_environment env) 1) ?k"
    and s1: "setup_sender env arg (s\<lparr>log_open := True\<rparr>) = Some (Inr s1)"
      "\<exists>m. s1 = u\<lparr>monitor := m, connection_timer := Clock_Running, connection_open := True,
        handler_registered := handler_registered u \<or> signal_ok env\<rparr> \<and>
        sender_darshanas m = sender_darshanas (monitor u) \<and> dar_pthread_running m \<and> monitored m [] []"
    using session_set_up [OF assms] by blast
  have log': "s\<lparr>log_open := True\<rparr> = s" using log by simp
  obtain m where m: "s1 = u\<lparr>monitor := m, connection_timer := Clock_Running, connection_open := True,
        handler_registered := handler_registered u \<or> signal_ok env\<rparr>"
      "sender_darshanas m = sender_darshanas (monitor u)" "dar_pthread_running m" "monitored m [] []"
    using s1(2) by blast
  have same: "same_flows u s1" unfolding m(1) by (simp add: same_flows_def)
  note su = same_flows_simps [OF same] and sf = same_flows_simps [OF u(3)]
  have r1: "sender_ready s1" unfolding m(1) using u(2) m(2) by (simp add: sender_ready_def)
  have "ls \<noteq> []" "0 < length (addresses ifap) * length as"
    using assms(1) by (auto simp: session_ready_def dest: adapter_answersD)
  then have k: "map (flow_key s1) (flows s1) = ?k"
    using found_flow_keys [of "map line_ip ls" env ifap as s] by (simp add: su sf)
  have "srcs s1 ! 0 = addresses ifap ! 0"
    using u(3) \<open>0 < length (addresses ifap) * length as\<close>
    by (cases "addresses ifap") (simp_all add: m(1) same_flows_def found_flows_def Let_def)
  moreover have "list_all sender_fits ?k"
    using setup_each_flow_trace [OF u(1)] k by (simp add: su sf)
  moreover have "list_all (\<lambda>(src, dst, hop). plain src \<and> plain dst \<and> plain hop) ?k"
    unfolding k [symmetric] using flow_addresses [OF r1] by (fastforce simp: list_all_iff addr_ok_def)
  ultimately show ?thesis
    using s1(1) [unfolded log'] r1 u(4-8) k m(2-4) su(1,2) by (intro exI [of _ s1]) (simp add: m(1))
qed

text \<open>A concrete session: two interfaces, two nodes and a receiver with one address.\<close>

definition demo_env :: session_env where
  "demo_env = \<lparr>dep_nodes = ''OK\<newline>'' # map node_line sample_lines @ ''\<newline>'' # [],
     dep_receiver = [''OK\<newline>'', size_line ''t<device'' ''10.0.0.5'' (int (length [''10.0.0.5''])) ''>'',
       ''OK\<newline>'', address_line ''t'' [''10.0.0.5''] ''>''],
     node_alive = (\<lambda>t a. True), interface_lists = (\<lambda>t. sample_interfaces), alias_answers = (\<lambda>t n a. False),
     time_now = (\<lambda>t. 0), flow_environment = quiet_env, dar_sockfd = 3, dar_bind_result = 0, dar_thread_result = 0,
     signal_ok = True, connect_result = 0, heap_text = []\<rparr>"

definition demo_arg :: setup_sender_arg where
  "demo_arg = \<lparr>receiver_addr = ''10.0.0.5'', receiver_port = 6000, depspace_proxy_addr = ''127.0.0.1'',
     depspace_proxy_port = 8888, overlay_port = 5000, min_number_of_nodes = 1, use_stun_server = 0,
     reaction_spec = SHUTDOWN_COMMUNICATION, max_alerts = 1\<rparr>"

definition demo_sender :: sender where
  "demo_sender = sample_sender\<lparr>monitor := (monitor sample_sender)\<lparr>sender_darshanas := replicate MAX_FLOWS None\<rparr>\<rparr>"

lemma dec_one: "dec_int 1 = ''1''"
  by code_simp

lemma demo_answers: "adapter_answers demo_env sample_lines [''10.0.0.5'']"
proof -
  have "\<exists>pre1 addr post1 pre2 post2.
      plain_line (size_line pre1 addr (int (length [''10.0.0.5''])) post1) \<and>
      plain_line (address_line pre2 [''10.0.0.5''] post2) \<and>
      token '','' pre1 \<and> token '','' addr \<and> CHR '','' \<notin> set post1 \<and> token ''<'' pre2 \<and> CHR ''<'' \<notin> set post2 \<and>
      dep_receiver demo_env = [''OK\<newline>'', size_line pre1 addr (int (length [''10.0.0.5''])) post1,
        ''OK\<newline>'', address_line pre2 [''10.0.0.5''] post2]"
    by (intro exI [of _ "''t<device''"] exI [of _ "''10.0.0.5''"] exI [of _ "''>''"] exI [of _ "''t''"] exI [of _ "''>''"])
      (simp add: demo_env_def dec_one size_line_def plain_line_def address_line_def token_def)
  moreover have "list_all node_line_ok sample_lines" "length sample_lines \<le> MAX_FLOWS" "sample_lines \<noteq> []"
    by (simp_all add: sample_lines_def node_line_ok_def node_line_def token_def)
  moreover have "\<exists>s. dep_nodes demo_env = ''OK\<newline>'' # map node_line sample_lines @ ''\<newline>'' # s"
    by (simp add: demo_env_def)
  ultimately show ?thesis unfolding adapter_answers_def adapter_lines_def by (simp add: address_ok_def token_def)
qed

lemma demo_ready: "session_ready demo_env demo_arg sample_lines [''10.0.0.5''] sample_interfaces demo_sender"
proof -
  have "list_all inet_ok sample_interfaces" "addresses sample_interfaces = [''10.0.0.1'', ''10.0.1.1'']"
    "map line_ip sample_lines = [''10.0.0.7'', ''10.0.0.8'']" "length sample_lines = 2"
    by (simp_all add: sample_interfaces_def inet_ok_def addresses_def usable_def sample_lines_def line_ip_def)
  then show ?thesis
    using demo_answers quiet_env_ok
    by (simp add: session_ready_def demo_env_def demo_arg_def demo_sender_def addr_ok_def token_def plain_char_def)
qed

lemma demo_monitored: "monitored (monitor demo_sender) [] []" "log_open demo_sender"
  using sample_sender_ready(2) by (simp_all add: demo_sender_def sample_sender_def)

text \<open>The session that follows, with its commands and what is left of the sender.\<close>

lemma session_runs:
  assumes "session_ready env arg ls as ifap s" "log_open s" "monitored (monitor s) al ps"
    and "replies_ok env'" "list_all inet_ok ifap'" "iptables_semantics exec denote chain"
  obtains s1 s2 cs vs where "setup_sender env arg s = Some (Inr s1)" "connection_open s1"
    "map (flow_key s1) (flows s1) = flow_keys (addresses ifap) as (map line_ip ls)" "monitored (monitor s1) [] []"
    "teardown_sender env' ifap' arg s1 = Inr s2" "\<not> connection_open s2" "connection_timer s2 = Clock_Freed"
    "commands s2 = commands s @ cs @ vs" "clean_virtual_interfaces ifap' = Inr vs"
    "exchanges s2 = exchanges s @ map (flow_exchange (overlay_port arg) (receiver_port arg) (addresses ifap ! 0)
        (flow_environment env) 1) (flow_keys (addresses ifap) as (map line_ip ls)) @
      map (flow_exchange (overlay_port arg) (receiver_port arg) (addresses ifap ! 0) env' 0)
        (flow_keys (addresses ifap) as (map line_ip ls))"
    "\<And>t c. mset (chain (fold exec cs t) c) = mset (chain t c)"
    "cs = map append_cmd (sender_nat.all_rules (flow_keys (addresses ifap) as (map line_ip ls))) @
      map delete_cmd (sender_nat.all_rules (flow_keys (addresses ifap) as (map line_ip ls)))"
    "proper_rules (sender_nat.all_rules (flow_keys (addresses ifap) as (map line_ip ls)))"
proof -
  obtain s1 where s1: "setup_sender env arg s = Some (Inr s1)" "sender_ready s1" "connection_timer s1 = Clock_Running"
    "connection_open s1" "dar_ip s1 = srcs s1 ! 0" "dar_port s1 = DAR_PORT" "dar_pthread_running (monitor s1)"
    "\<forall>f\<in>set (flows s1). sender_darshanas (monitor s1) ! hop_index s1 f \<noteq> None"
    "map (flow_key s1) (flows s1) = flow_keys (addresses ifap) as (map line_ip ls)"
    "commands s1 = commands s @ map append_cmd (sender_nat.all_rules (map (flow_key s1) (flows s1)))"
    "list_all sender_fits (map (flow_key s1) (flows s1))"
    "list_all (\<lambda>(src, dst, hop). plain src \<and> plain dst \<and> plain hop) (map (flow_key s1) (flows s1))"
    "monitored (monitor s1) [] []" "dar_ip s1 = addresses ifap ! 0"
    "exchanges s1 = exchanges s @ map (flow_exchange (overlay_port arg) (receiver_port arg) (addresses ifap ! 0)
      (flow_environment env) 1) (map (flow_key s1) (flows s1))"
    using connected_session [OF assms(1-3)] by blast
  have rp: "0 \<le> receiver_port arg" "receiver_port arg < 100000" using assms(1) by (simp_all add: session_ready_def)
  obtain s2 vs where s2: "teardown_sender env' ifap' arg s1 = Inr s2" "clean_virtual_interfaces ifap' = Inr vs"
    "commands s2 = commands s1 @ map delete_cmd (sender_nat.all_rules (map (flow_key s1) (flows s1))) @ vs"
    "\<not> connection_open s2" "connection_timer s2 = Clock_Freed"
    "exchanges s2 = exchanges s1 @ map (flow_exchange (overlay_port arg) (receiver_port arg) (dar_ip s1) env' 0)
      (map (flow_key s1) (flows s1))"
    using connected_tears_down [OF s1(2,3) rp assms(4) s1(5-8) assms(5)] by blast
  let ?cs = "map append_cmd (sender_nat.all_rules (map (flow_key s1) (flows s1))) @
    map delete_cmd (sender_nat.all_rules (map (flow_key s1) (flows s1)))"
  have "mset (chain (fold exec ?cs t) c) = mset (chain t c)" for t c
    using sender_nat.restores [OF assms(6) s1(11,12) refl, unfolded sender_nat.install_all [OF s1(11)]
      sender_nat.remove_all [OF s1(11)]] by simp
  moreover note s2(6) [unfolded s1(9,14) s1(15) [unfolded s1(9)] append_assoc]
  ultimately show thesis using s1 s2(1-5) sender_nat.all_rules_proper [OF s1(12)]
    by (intro that [of s1 s2 ?cs vs]) simp_all
qed

text \<open>C3.
  A whole session without STUN, from the queries to the manager to the last command: with
  answers line by line, live nodes and enough sources the set-up connects, over exactly the
  flows that pair every local address with every address of the receiver; the teardown that
  follows leaves every NAT chain of the sender with the rules it had, up to their order, for any
  iptables with the documented behaviour; and a second teardown would be a use after free.\<close>

theorem session_exact:
  assumes "session_ready env arg ls as ifap s" "log_open s" "monitored (monitor s) al ps"
    and "replies_ok env'" "list_all inet_ok ifap'" "iptables_semantics exec denote chain"
  shows "\<exists>s1 s2 cs vs. setup_sender env arg s = Some (Inr s1) \<and> connection_open s1 \<and>
    map (flow_key s1) (flows s1) = flow_keys (addresses ifap) as (map line_ip ls) \<and>
    teardown_sender env' ifap' arg s1 = Inr s2 \<and> \<not> connection_open s2 \<and>
    commands s2 = commands s @ cs @ vs \<and> clean_virtual_interfaces ifap' = Inr vs \<and>
    (\<forall>c. mset (chain (fold exec cs t) c) = mset (chain t c)) \<and>
    (\<forall>e i. teardown_sender e i arg s2 = Inl UseAfterFree)"
proof -
  obtain s1 s2 cs vs where s: "setup_sender env arg s = Some (Inr s1)" "connection_open s1"
    "map (flow_key s1) (flows s1) = flow_keys (addresses ifap) as (map line_ip ls)" "monitored (monitor s1) [] []"
    "teardown_sender env' ifap' arg s1 = Inr s2" "\<not> connection_open s2" "connection_timer s2 = Clock_Freed"
    "commands s2 = commands s @ cs @ vs" "clean_virtual_interfaces ifap' = Inr vs"
    "\<And>t c. mset (chain (fold exec cs t) c) = mset (chain t c)"
    by (rule session_runs [OF assms]) blast
  have "\<forall>e i. teardown_sender e i arg s2 = Inl UseAfterFree"
    using s(7) by (simp add: teardown_sender_def close_socket_communication_with_receiver_def)
  with s show ?thesis by blast
qed

theorem session_exact_witness:
  "\<exists>s1 s2 cs vs. setup_sender demo_env demo_arg demo_sender = Some (Inr s1) \<and> connection_open s1 \<and>
    map (flow_key s1) (flows s1) = flow_keys (addresses sample_interfaces) [''10.0.0.5''] (map line_ip sample_lines) \<and>
    teardown_sender quiet_env sample_interfaces demo_arg s1 = Inr s2 \<and> \<not> connection_open s2 \<and>
    commands s2 = commands demo_sender @ cs \<and>
    (\<forall>c. mset (id (fold text_exec cs (\<lambda>c. [''other''])) c) = mset (id (\<lambda>c. [''other'']) c))"
proof -
  have "list_all inet_ok sample_interfaces" "clean_virtual_interfaces sample_interfaces = Inr []"
    by (simp_all add: sample_interfaces_def inet_ok_def inet_address_def strcpy_def strchr_def)
  then show ?thesis
    using session_exact [OF demo_ready demo_monitored(2,1) quiet_env_ok _ text_exec_semantics,
        of sample_interfaces "\<lambda>c. [''other'']"] by auto
qed

text \<open>C26.
  The set-up forgets what it monitors: every flow is put on the list of monitored paths, but
  starting the path monitoring afterwards empties the list, so whatever well-formed alerts
  arrive during the session, no path is ever known, let alone marked as hijacked.\<close>

theorem sender_forgets_paths:
  assumes "session_ready env arg ls as ifap s" "log_open s" "monitored (monitor s) al ps"
    and "\<forall>e \<in> set es. well_formed (snd e)"
  shows "\<exists>u s1 d. setup_each_flow (overlay_port arg) (receiver_port arg) 0 (flow_environment env)
        (found_flows env ifap (map line_ip ls) as s) = Some (Inr u) \<and>
      monitored (monitor u) al (ps @ map flow_path (flow_keys (addresses ifap) as (map line_ip ls))) \<and>
      setup_sender env arg (s\<lparr>log_open := True\<rparr>) = Some (Inr s1) \<and> monitored (monitor s1) [] [] \<and>
      handle_darshana_client_loop (datagrams es) (dar_state (monitor s1)) 0 0 =
        Some (Inr (d, int (length es), raises (max_dar_alerts (dar_state (monitor s1))) 0 (length es), InRead)) \<and>
      dar_rel d (map alert_of es) []"
proof -
  obtain u s1 m where u: "setup_each_flow (overlay_port arg) (receiver_port arg) 0 (flow_environment env)
        (found_flows env ifap (map line_ip ls) as s) = Some (Inr u)"
      "monitored (monitor u) al (ps @ map flow_path (flow_keys (addresses ifap) as (map line_ip ls)))"
      "setup_sender env arg (s\<lparr>log_open := True\<rparr>) = Some (Inr s1)" "monitor s1 = m" "monitored m [] []"
    using session_set_up [OF assms(1-3)] by auto
  have "fold spec_step es [] = []" by (induction es) (simp_all add: spec_step_def spec_analyse_def)
  with loop_refines [OF u(5) assms(4), of "[]" 0 0] u show ?thesis by auto
qed

theorem sender_forgets_paths_witness:
  "\<exists>(u :: sender) s1 d. monitored (monitor u) [] ([] @ map flow_path
        (flow_keys (addresses sample_interfaces) [''10.0.0.5''] (map line_ip sample_lines))) \<and>
      setup_sender demo_env demo_arg (demo_sender\<lparr>log_open := True\<rparr>) = Some (Inr s1) \<and>
      dar_rel d (map alert_of [(sample_tm, sample_alert)]) []"
proof -
  have "\<forall>e \<in> set [(sample_tm, sample_alert)]. well_formed (snd e)" by (simp add: sample_well_formed)
  from sender_forgets_paths [OF demo_ready demo_monitored(2,1) this] show ?thesis by blast
qed

end
