(* ===== verification/Overlay_Node.thy ===== *)
theory Overlay_Node
  imports Rule_Specs Nat_Rules
begin

text \<open>
  \<^verbatim>\<open>MACHETE/SCNodeCode/forwarding_handler.c\<close>: the overlay node's accept loop, the two
  handlers of the sender's rule messages, and the commands they start.
\<close>

section \<open>State\<close>

text \<open>
  What the node does to its environment, in order: answers, commands run to completion,
  commands started in a thread, cancelled threads.
\<close>

datatype node_effect =
    Reply "char list"
  | System string
  | Run_Thread string
  | Cancel_Thread nat

text \<open>
  The array \<^verbatim>\<open>buffer\<close> of \<^verbatim>\<open>start_overlay\<close> lives across connections.  The thread variable
  is \<open>None\<close> until a thread has been created; cancelling it then is undefined.  The handle of a
  thread is the position of its creation among the effects.  No
  accepted socket is ever closed: \<open>open_sockets\<close> counts them.
\<close>

record node =
  overlay_addr :: string
  buffer :: "char list"
  darshana_client_pthread :: "nat option"
  open_sockets :: nat
  effects :: "node_effect list"

abbreviation LENGTH :: nat where
  "LENGTH \<equiv> 512"

definition emit :: "node_effect list \<Rightarrow> node \<Rightarrow> node" where
  "emit es n = n\<lparr>effects := effects n @ es\<rparr>"

section \<open>In-place tokens\<close>

text \<open>
  \<^verbatim>\<open>strtok\<close> writes a NUL over the delimiter that ends a token: the characters that one
  call passes over, as it leaves them.
\<close>

definition strtok_cut :: "string \<Rightarrow> string \<Rightarrow> char list" where
  "strtok_cut delims s =
     (case fst (strtok delims s) of
        None \<Rightarrow> s
      | Some tok \<Rightarrow>
          let passed = takeWhile (\<lambda>c. c \<in> set delims) s @ tok in
          passed @ (if length passed < length s then [NUL] else []))"

fun strtok_n :: "nat \<Rightarrow> string \<Rightarrow> string \<Rightarrow> string option list \<times> char list" where
  "strtok_n 0 delims s = ([], s)"
| "strtok_n (Suc n) delims s =
     (let (tok, rest) = strtok delims s; (toks, cut) = strtok_n n delims rest in
      (tok # toks, strtok_cut delims s @ cut))"

lemma strtok_cut_length: "length (strtok_cut delims s) + length (snd (strtok delims s)) = length s"
proof -
  define s' where "s' = dropWhile (\<lambda>c. c \<in> set delims) s"
  have l: "length (takeWhile (\<lambda>c. c \<in> set delims) s) + length s' = length s"
    unfolding s'_def by (metis length_append takeWhile_dropWhile_id)
  have le: "length (takeWhile (\<lambda>c. c \<notin> set delims) s') \<le> length s'"
    by (rule length_takeWhile_le)
  have ne: "s' \<noteq> [] \<Longrightarrow> 0 < length s"
    by (auto simp: s'_def)
  show ?thesis
    using l le ne by (simp add: strtok_cut_def strtok_def Let_def s'_def [symmetric])
qed

lemma strtok_n_length: "length (snd (strtok_n n delims s)) = length s"
proof (induction n arbitrary: s)
  case (Suc n)
  show ?case
    using Suc [of "snd (strtok delims s)"] strtok_cut_length [of delims s]
    by (simp add: split_beta)
qed simp

text \<open>The tokens are the fields, then null pointers.\<close>

lemma strtok_n_tokens:
  "fst (strtok_n n delims s) =
     map Some (take n (str_fields delims s)) @ replicate (n - length (str_fields delims s)) None"
proof (induction n arbitrary: s)
  case (Suc n)
  show ?case
  proof (cases "str_fields delims s")
    case Nil
    then have "strtok delims s = (None, [])" by (rule strtok_fields_Nil)
    with Suc Nil show ?thesis by (simp add: split_beta)
  next
    case (Cons t ts)
    then obtain r where "strtok delims s = (Some t, r)" "str_fields delims r = ts"
      using strtok_fields_Cons by blast
    with Suc [of r] Cons show ?thesis by (simp add: split_beta)
  qed
qed simp

lemma strtok_n_nth:
  "i < n \<Longrightarrow> fst (strtok_n n delims s) ! i =
     (if i < length (str_fields delims s) then Some (str_fields delims s ! i) else None)"
  by (auto simp: strtok_n_tokens nth_append)

lemma str_fields_total_length: "length (concat (str_fields delims s)) \<le> length s"
proof (induction "length s" arbitrary: s rule: less_induct)
  case less
  show ?case
  proof (cases "strtok delims s")
    case (Pair t r)
    show ?thesis
    proof (cases t)
      case (Some u)
      with Pair have l: "length u + length r \<le> length s" "u \<noteq> []"
        using strtok_length [of delims s u r] strtok_token [of delims s u r] by auto
      then have "length r < length s" by (cases u) auto
      with less Pair Some l show ?thesis
        using str_fields_strtok [of delims s] by fastforce
    qed (use Pair str_fields_strtok [of delims s] in simp)
  qed
qed

section \<open>The handlers\<close>

text \<open>
  \<^verbatim>\<open>sprintf\<close> of the whole command into 500 characters of \<^verbatim>\<open>malloc\<close>; a null pointer for
  \<^verbatim>\<open>%s\<close> is undefined.  \<open>run_command_in_thread\<close> passes the text to \<^verbatim>\<open>system\<close> and frees it.  The
  creation of the thread is taken to succeed; where it fails the code only prints a message.
\<close>

definition run_darshana_client ::
    "string \<Rightarrow> string option \<Rightarrow> string option \<Rightarrow> string option \<Rightarrow> string option \<Rightarrow> string option
      \<Rightarrow> string option \<Rightarrow> node \<Rightarrow> node res" where
  "run_darshana_client node_addr sender_dar_ip sender_dar_port dst_darshana_addr dst_darshana_port
       monitoring_mode metrics_thresholds n =
     rbind (nonnull monitoring_mode) (\<lambda>mode.
     rbind (nonnull dst_darshana_addr) (\<lambda>dst.
     rbind (nonnull dst_darshana_port) (\<lambda>port.
     rbind (nonnull metrics_thresholds) (\<lambda>metrics.
     rbind (nonnull sender_dar_ip) (\<lambda>dar_ip.
     rbind (nonnull sender_dar_port) (\<lambda>dar_port.
     rbind (build_string COMMAND_SIZE ''cd ''
       [DARSHANA_RELATIVE_PATH, ''; sh run-client-broadcaster_args.sh '', mode, '' '', node_addr, '' '',
        dst, '' '', port, '' '', metrics, '' '', dar_ip, '','', dar_port,
        '' >> darshana-node-client.out &'']) (\<lambda>command.
       Inr (emit [Run_Thread command] (n\<lparr>darshana_client_pthread := Some (length (effects n))\<rparr>)))))))))"

definition run_darshana_server :: "string \<Rightarrow> node \<Rightarrow> node res" where
  "run_darshana_server receiver_ip n =
     rbind (build_string COMMAND_SIZE ''cd ''
       [DARSHANA_RELATIVE_PATH, ''; sh run-server_args.sh '', receiver_ip, '' '', DARSHANA_SERVER_PORT,
        '' >> darshana-server.out &'']) (\<lambda>command.
       Inr (emit [Run_Thread command] n))"

definition run_command_in_thread :: "string \<Rightarrow> node_effect" where
  "run_command_in_thread command = System command"

definition shutdown_darshana_client :: "int \<Rightarrow> node \<Rightarrow> node res" where
  "shutdown_darshana_client darshana_client_port n =
     rbind (build_string 50 ''kill $(sudo lsof -t -i:'' [dec_int darshana_client_port, '')'']) (\<lambda>command.
       Inr (emit [System command] n))"

definition pthread_cancel_client :: "node \<Rightarrow> node res" where
  "pthread_cancel_client n =
     (case darshana_client_pthread n of None \<Rightarrow> Inl BadPointer | Some t \<Rightarrow> Inr (emit [Cancel_Thread t] n))"

text \<open>
  What both handlers start with: receive at most 200 bytes into the array, cut the first
  \<open>k\<close> tokens, and answer with the 200 bytes from the first token on.
\<close>

definition receive_rule :: "nat \<Rightarrow> node \<Rightarrow> stream \<Rightarrow> (node \<times> string option list \<times> stream) res" where
  "receive_rule k n s =
     (let (buf, s') = recv_into (buffer n) RULE_SIZE s in
      rbind (c_string buf) (\<lambda>text.
      let (toks, cut) = strtok_n k ''-'' text;
          buf' = cut @ drop (length text) buf in
      rbind (nonnull (toks ! 0)) (\<lambda>type.
      rbind (bytes_from buf' (length (takeWhile (\<lambda>c. c \<in> set ''-'') text)) RULE_SIZE) (\<lambda>reply.
        Inr (emit [Reply reply] (n\<lparr>buffer := buf'\<rparr>), toks, s')))))"

definition receive_forwarding_rule_specification :: "node \<Rightarrow> stream \<Rightarrow> (node \<times> stream) res" where
  "receive_forwarding_rule_specification n s =
     rbind (receive_rule 4 n s) (\<lambda>(n', toks, s').
     rbind (nonnull (toks ! 3)) (\<lambda>dst_port.
     rbind (nonnull (toks ! 1)) (\<lambda>src_addr.
     rbind (nonnull (toks ! 2)) (\<lambda>dst_addr.
     rbind ((if toks ! 0 = Some ''A'' then forwardPaths else removeRules)
              (overlay_addr n') src_addr dst_addr dst_port) (\<lambda>commands.
       Inr (emit (map System commands) n', s'))))))"

definition receive_darshana_rule_specification :: "node \<Rightarrow> stream \<Rightarrow> (node \<times> stream) res" where
  "receive_darshana_rule_specification n s =
     rbind (receive_rule 7 n s) (\<lambda>(n', toks, s').
     rbind (if toks ! 0 = Some ''A''
            then run_darshana_client (overlay_addr n') (toks ! 1) (toks ! 2) (toks ! 3) (toks ! 4)
                   (toks ! 5) (toks ! 6) n'
            else pthread_cancel_client n') (\<lambda>n''. Inr (n'', s')))"

text \<open>One turn of the accept loop: what the peer sends before it closes or falls silent.\<close>

definition serve_connection :: "stream \<Rightarrow> node \<Rightarrow> node res" where
  "serve_connection s n =
     rbind (receive_forwarding_rule_specification (n\<lparr>open_sockets := Suc (open_sockets n)\<rparr>) s) (\<lambda>(n1, s1).
     rbind (receive_darshana_rule_specification (n1\<lparr>buffer := bzero LENGTH (buffer n1)\<rparr>) s1) (\<lambda>(n2, s2).
       Inr n2))"

definition start_overlay :: "stream list \<Rightarrow> node \<Rightarrow> node res" where
  "start_overlay connections n = run_steps serve_connection connections n"

section \<open>No array is overrun\<close>

text \<open>
  A node address fits its 20 characters.  When \<^verbatim>\<open>start_overlay\<close> begins, its array is
  whatever the stack holds: the first receive is sound only if it leaves a NUL among the first
  201 characters (\<open>terminated\<close>), and every message of the sender does.  After the first
  connection \<^verbatim>\<open>bzero\<close> has cleared the array, so that from then on only its first 200
  characters can be other than NUL between two receives (\<open>node_ok\<close>).
\<close>

definition node_sized :: "node \<Rightarrow> bool" where
  "node_sized n \<longleftrightarrow> length (buffer n) = LENGTH \<and> length (overlay_addr n) < 20"

definition terminated :: "stream \<Rightarrow> node \<Rightarrow> bool" where
  "terminated s n \<longleftrightarrow> NUL \<in> set (take (Suc RULE_SIZE) (fst (recv_into (buffer n) RULE_SIZE s)))"

definition node_ok :: "node \<Rightarrow> bool" where
  "node_ok n \<longleftrightarrow> length (buffer n) = LENGTH \<and> drop RULE_SIZE (buffer n) = replicate 312 NUL \<and>
     length (overlay_addr n) < 20"

lemma emit_simps [simp]:
  "buffer (emit es n) = buffer n" "overlay_addr (emit es n) = overlay_addr n"
  "darshana_client_pthread (emit es n) = darshana_client_pthread n"
  "effects (emit es n) = effects n @ es" "open_sockets (emit es n) = open_sockets n"
  by (simp_all add: emit_def)

lemma node_ok_emit [simp]: "node_ok (emit es n) \<longleftrightarrow> node_ok n"
  by (simp add: node_ok_def)

lemma c_string_tail:
  assumes "drop k buf = NUL # r"
  shows "\<exists>s. c_string buf = Inr s \<and> length s \<le> k \<and> cstr s"
proof -
  have b: "buf = take k buf @ NUL # r" using assms by (metis append_take_drop_id)
  have nul: "NUL \<in> set buf" by (subst b) simp
  then obtain t where t: "c_string buf = Inr t" by (simp add: c_string_def)
  have "t = takeWhile (\<lambda>c. c \<noteq> NUL) (take k buf @ NUL # r)"
    using t nul by (subst b [symmetric]) (simp add: c_string_def)
  then have "t = takeWhile (\<lambda>c. c \<noteq> NUL) (take k buf)"
    by (auto simp: takeWhile_append intro: takeWhile_eq_all_conv [THEN iffD2, symmetric])
  then have "length t \<le> length (take k buf)" by (metis length_takeWhile_le)
  with t c_string_cstr show ?thesis by (metis length_take min.cobounded2 order_trans)
qed

lemma node_sized_emit [simp]: "node_sized (emit es n) \<longleftrightarrow> node_sized n"
  by (simp add: node_sized_def)

lemma node_ok_sized: "node_ok n \<Longrightarrow> node_sized n"
  by (simp add: node_ok_def node_sized_def)

lemma c_string_within:
  assumes "NUL \<in> set (take (Suc k) buf)"
  obtains s where "c_string buf = Inr s" "length s \<le> k"
proof -
  have nul: "NUL \<in> set buf" using assms by (meson in_set_takeD)
  obtain i where i: "i < Suc k" "i < length buf" "buf ! i = NUL"
    using assms by (auto simp: in_set_conv_nth)
  then have "length (takeWhile (\<lambda>c. c \<noteq> NUL) buf) \<le> i"
    using nth_mem [of i "takeWhile (\<lambda>c. c \<noteq> NUL) buf"] set_takeWhileD [of NUL _ buf]
    by (fastforce simp: not_less [symmetric] takeWhile_nth)
  with i(1) nul that show ?thesis by (simp add: c_string_def)
qed

lemma receive_rule_sized:
  assumes "node_sized n" "terminated s n" and k: "0 < k"
  shows "receive_rule k n s = Inl NullDeref \<or>
    (\<exists>n' msg s' b r. receive_rule k n s = Inr (n', fst (strtok_n k ''-'' msg), s') \<and>
       n' = emit [Reply r] (n\<lparr>buffer := b\<rparr>) \<and> node_sized n' \<and>
       drop RULE_SIZE b = drop RULE_SIZE (buffer n) \<and> length msg \<le> RULE_SIZE \<and>
       c_string (fst (recv_into (buffer n) RULE_SIZE s)) = Inr msg)"
proof -
  obtain buf s' where r: "recv_into (buffer n) RULE_SIZE s = (buf, s')"
    by (cases "recv_into (buffer n) RULE_SIZE s")
  then obtain c where c: "buf = store_bytes (buffer n) c" "length c \<le> RULE_SIZE"
    by (auto simp: recv_into_def split: prod.splits dest: recv_length)
  have len: "length buf = LENGTH" using recv_into_length [OF r] assms by (simp add: node_sized_def)
  have tl: "drop RULE_SIZE buf = drop RULE_SIZE (buffer n)"
    using c by (simp add: store_bytes_def)
  obtain msg where msg: "c_string buf = Inr msg" "length msg \<le> RULE_SIZE"
    using c_string_within assms(2) r by (metis fst_conv terminated_def)
  obtain toks cut where tc: "strtok_n k ''-'' msg = (toks, cut)" by (cases "strtok_n k ''-'' msg")
  then have lc: "length cut = length msg" using strtok_n_length [of k "''-''" msg] by simp
  define b where "b = cut @ drop (length msg) buf"
  have b: "length b = LENGTH" "drop RULE_SIZE b = drop RULE_SIZE (buffer n)"
    using lc msg(2) tl len by (simp_all add: b_def)
  have off: "length (takeWhile (\<lambda>c. c \<in> set ''-'') msg) \<le> RULE_SIZE"
    using msg(2) length_takeWhile_le [of "\<lambda>c. c \<in> set ''-''" msg] by linarith
  have e: "receive_rule k n s = rbind (nonnull (toks ! 0)) (\<lambda>type.
      rbind (bytes_from b (length (takeWhile (\<lambda>c. c \<in> set ''-'') msg)) RULE_SIZE) (\<lambda>reply.
        Inr (emit [Reply reply] (n\<lparr>buffer := b\<rparr>), toks, s')))"
    by (simp add: receive_rule_def r msg tc b_def Let_def)
  have bf: "bytes_from b (length (takeWhile (\<lambda>c. c \<in> set ''-'') msg)) RULE_SIZE =
      Inr (take RULE_SIZE (drop (length (takeWhile (\<lambda>c. c \<in> set ''-'') msg)) b))"
    using off b(1) by (simp add: bytes_from_def)
  show ?thesis
  proof (cases "toks ! 0")
    case None
    then show ?thesis by (simp add: e)
  next
    case (Some ty)
    define n' where "n' = emit [Reply (take RULE_SIZE
        (drop (length (takeWhile (\<lambda>c. c \<in> set ''-'') msg)) b))] (n\<lparr>buffer := b\<rparr>)"
    have "node_sized n'" using assms b by (simp add: node_sized_def n'_def)
    moreover from Some e bf have "receive_rule k n s = Inr (n', toks, s')" by (simp add: n'_def)
    ultimately show ?thesis using tc msg r b(2) by (metis fst_conv n'_def)
  qed
qed

lemma node_ok_terminated:
  assumes "node_ok n"
  shows "terminated s n"
proof -
  obtain c s' where r: "recv RULE_SIZE s = (c, s')" by (cases "recv RULE_SIZE s")
  then have c: "fst (recv_into (buffer n) RULE_SIZE s) = store_bytes (buffer n) c" "length c \<le> RULE_SIZE"
    by (auto simp: recv_into_def dest: recv_length)
  then have "drop RULE_SIZE (fst (recv_into (buffer n) RULE_SIZE s)) = replicate 312 NUL"
    using assms by (simp add: node_ok_def store_bytes_def)
  then have "fst (recv_into (buffer n) RULE_SIZE s) ! RULE_SIZE = NUL"
    "RULE_SIZE < length (fst (recv_into (buffer n) RULE_SIZE s))"
    by (metis hd_drop_conv_nth hd_replicate length_drop length_replicate not_less
        drop_eq_Nil replicate_empty zero_neq_numeral)+
  then show ?thesis by (metis terminated_def in_set_conv_nth length_take lessI min_less_iff_conj nth_take)
qed

lemma receive_rule_cases:
  assumes "node_ok n" and k: "0 < k"
  shows "receive_rule k n s = Inl NullDeref \<or>
    (\<exists>n' msg s' b r. receive_rule k n s = Inr (n', fst (strtok_n k ''-'' msg), s') \<and>
       n' = emit [Reply r] (n\<lparr>buffer := b\<rparr>) \<and> node_ok n' \<and> length msg \<le> RULE_SIZE \<and>
       c_string (fst (recv_into (buffer n) RULE_SIZE s)) = Inr msg)"
  using receive_rule_sized [OF node_ok_sized [OF assms(1)] node_ok_terminated [OF assms(1)] k, of s]
    assms(1)
proof (elim disjE exE conjE)
  fix n' msg s' b r
  assume h: "receive_rule k n s = Inr (n', fst (strtok_n k ''-'' msg), s')"
    "n' = emit [Reply r] (n\<lparr>buffer := b\<rparr>)" "node_sized n'" "drop RULE_SIZE b = drop RULE_SIZE (buffer n)"
    "length msg \<le> RULE_SIZE" "c_string (fst (recv_into (buffer n) RULE_SIZE s)) = Inr msg"
  moreover from h assms(1) have "node_ok n'" by (simp add: node_ok_def node_sized_def)
  ultimately show ?thesis by blast
qed simp


text \<open>The number of fields the tokens reveal, and the room they take.\<close>

lemma four_tokens:
  assumes "fst (strtok_n k ''-'' msg) ! 3 = Some d" "4 \<le> k"
  obtains a b c rest where "str_fields ''-'' msg = a # b # c # d # rest"
    "length a + length b + length c + length d \<le> length msg"
proof -
  have "3 < length (str_fields ''-'' msg)" "str_fields ''-'' msg ! 3 = d"
    using assms by (simp_all add: strtok_n_nth split: if_splits)
  then obtain a b c rest where "str_fields ''-'' msg = a # b # c # d # rest"
    by (auto simp: eval_nat_numeral less_eq_Suc_le Suc_le_length_iff)
  moreover from this have "length a + length b + length c + length d \<le> length msg"
    using str_fields_total_length [of "''-''" msg] by simp
  ultimately show ?thesis using that by blast
qed

lemma seven_tokens:
  assumes "fst (strtok_n 7 ''-'' msg) ! 6 = Some g"
  obtains a b c d e f rest where "str_fields ''-'' msg = a # b # c # d # e # f # g # rest"
    "length b + length c + length d + length e + length f + length g \<le> length msg"
proof -
  have l: "6 < length (str_fields ''-'' msg)" "str_fields ''-'' msg ! 6 = g"
    using assms by (simp_all add: strtok_n_nth split: if_splits)
  have "fst (strtok_n 7 ''-'' msg) ! 3 = Some (str_fields ''-'' msg ! 3)"
    using l by (simp add: strtok_n_nth)
  then obtain a b c d r where r: "str_fields ''-'' msg = a # b # c # d # r"
    by (rule four_tokens) simp_all
  with l obtain e f rest where "str_fields ''-'' msg = a # b # c # d # e # f # g # rest"
    by (auto simp: eval_nat_numeral less_eq_Suc_le Suc_le_length_iff)
  moreover from this have "length b + length c + length d + length e + length f + length g \<le> length msg"
    using str_fields_total_length [of "''-''" msg] by simp
  ultimately show ?thesis using that by blast
qed

lemma forwarding_cases:
  assumes "node_sized n" "terminated s n"
  shows "receive_forwarding_rule_specification n s = Inl NullDeref \<or>
    (\<exists>n' s'. receive_forwarding_rule_specification n s = Inr (n', s') \<and> node_sized n')"
  using receive_rule_sized [OF assms, of 4, simplified]
proof (elim disjE exE conjE)
  fix n' msg s' b r
  assume r: "receive_rule 4 n s = Inr (n', fst (strtok_n 4 ''-'' msg), s')"
    and n': "node_sized n'" and len: "length msg \<le> RULE_SIZE"
  let ?t = "fst (strtok_n 4 ''-'' msg)"
  show ?thesis
  proof (cases "?t ! 3")
    case None
    then show ?thesis by (simp add: receive_forwarding_rule_specification_def r)
  next
    case (Some p)
    then obtain a src dst rest where f: "str_fields ''-'' msg = a # src # dst # p # rest"
      "length a + length src + length dst + length p \<le> length msg"
      by (rule four_tokens) simp
    have t: "?t ! 0 = Some a" "?t ! 1 = Some src" "?t ! 2 = Some dst"
      using f(1) by (simp_all add: strtok_n_nth)
    have "node_fits (overlay_addr n', src, dst, p)"
      using n' f(2) len by (simp add: node_fits_def node_sized_def)
    with Some t n' show ?thesis
      by (simp add: receive_forwarding_rule_specification_def r forwardPaths_eq removeRules_eq)
  qed
qed (simp_all add: receive_forwarding_rule_specification_def)

lemma darshana_cases:
  assumes "node_ok n"
  shows "receive_darshana_rule_specification n s \<in> {Inl NullDeref, Inl BadPointer} \<or>
    (\<exists>n' s'. receive_darshana_rule_specification n s = Inr (n', s') \<and> node_ok n')"
  using receive_rule_cases [OF assms, of 7 s, simplified]
proof (elim disjE exE conjE)
  fix n' msg s' b r
  assume r: "receive_rule 7 n s = Inr (n', fst (strtok_n 7 ''-'' msg), s')"
    and n': "node_ok n'" and len: "length msg \<le> RULE_SIZE"
  let ?t = "fst (strtok_n 7 ''-'' msg)"
  consider "?t ! 0 \<noteq> Some ''A''" | "?t ! 0 = Some ''A''" "?t ! 6 = None"
    | g where "?t ! 0 = Some ''A''" "?t ! 6 = Some g" by (cases "?t ! 6") auto
  then show ?thesis
  proof cases
    case 1
    with n' show ?thesis
      by (auto simp: receive_darshana_rule_specification_def r pthread_cancel_client_def split: option.splits)
  next
    case 2
    then show ?thesis
      by (simp add: receive_darshana_rule_specification_def r run_darshana_client_def nonnull_def split: option.splits)
  next
    case 3
    then obtain a da dp dst port mode rest where
      f: "str_fields ''-'' msg = a # da # dp # dst # port # mode # g # rest"
      "length da + length dp + length dst + length port + length mode + length g \<le> length msg"
      by (elim seven_tokens)
    have t: "?t ! 1 = Some da" "?t ! 2 = Some dp" "?t ! 3 = Some dst" "?t ! 4 = Some port" "?t ! 5 = Some mode"
      using f(1) by (simp_all add: strtok_n_nth)
    have "length (overlay_addr n') < 20" using n' by (simp add: node_ok_def)
    with 3 t f(2) len n' show ?thesis
      by (simp add: receive_darshana_rule_specification_def r run_darshana_client_def build_string_eq
          DARSHANA_RELATIVE_PATH_def node_ok_def)
  qed
qed (simp_all add: receive_darshana_rule_specification_def)

lemma serve_connection_sized:
  assumes "node_sized n" "terminated s n"
  shows "serve_connection s n \<in> {Inl NullDeref, Inl BadPointer} \<or>
    (\<exists>n'. serve_connection s n = Inr n' \<and> node_ok n')"
proof -
  let ?n = "n\<lparr>open_sockets := Suc (open_sockets n)\<rparr>"
  have ok: "node_sized ?n" "terminated s ?n" using assms by (simp_all add: node_sized_def terminated_def)
  show ?thesis using forwarding_cases [OF ok]
  proof (elim disjE exE conjE)
    fix n1 s1
    assume r: "receive_forwarding_rule_specification ?n s = Inr (n1, s1)" and "node_sized n1"
    then have "node_ok (n1\<lparr>buffer := bzero LENGTH (buffer n1)\<rparr>)" by (simp add: node_ok_def node_sized_def)
    from darshana_cases [OF this, of s1] show ?thesis
      by (auto simp: serve_connection_def r)
  qed (simp add: serve_connection_def)
qed

lemmas serve_connection_cases = serve_connection_sized [OF node_ok_sized node_ok_terminated]

text \<open>Without that NUL, and with none behind, the first receive is read past the array.\<close>

lemma serve_connection_unterminated:
  assumes "length (buffer n) = LENGTH" "NUL \<notin> set (drop RULE_SIZE (buffer n))"
    "length msg = RULE_SIZE" "NUL \<notin> set msg"
  shows "serve_connection (msg # rest) n = Inl OverRead"
proof -
  have "recv_into (buffer n) RULE_SIZE (msg # rest) = (msg @ drop RULE_SIZE (buffer n), rest)"
    using assms(3) by (simp add: recv_into_def store_bytes_def)
  with assms show ?thesis
    by (simp add: serve_connection_def receive_forwarding_rule_specification_def receive_rule_def c_string_def)
qed

section \<open>What a handler leaves behind\<close>

lemma strtok_n_head:
  assumes "strtok delims s = (Some tok, r)" "0 < k"
  shows "\<exists>rest. snd (strtok_n k delims s) @ NUL # z = takeWhile (\<lambda>c. c \<in> set delims) s @ tok @ NUL # rest"
proof -
  obtain j where k: "k = Suc j" using assms(2) by (cases k) auto
  have e: "snd (strtok_n k delims s) = strtok_cut delims s @ snd (strtok_n j delims r)"
    by (simp add: k assms(1) split_beta)
  show ?thesis
  proof (cases "length (takeWhile (\<lambda>c. c \<in> set delims) s @ tok) < length s")
    case True
    then show ?thesis by (simp add: e strtok_cut_def assms(1) Let_def)
  next
    case False
    then have cut: "strtok_cut delims s = takeWhile (\<lambda>c. c \<in> set delims) s @ tok"
      by (simp add: strtok_cut_def assms(1) Let_def)
    have "length (strtok_cut delims s) + length r = length s"
      using strtok_cut_length [of delims s] assms(1) by simp
    with False have "length r \<le> 0" unfolding cut by linarith
    then have "r = []" by simp
    then have "snd (strtok_n j delims r) = []"
      using strtok_n_length [of j delims r] by simp
    then show ?thesis by (simp add: e cut)
  qed
qed

lemma str_fields_lead:
  "set l \<subseteq> set ds \<Longrightarrow> str_fields ds (l @ s) = str_fields ds s"
  by (induction l) auto

lemma c_string_split: "c_string buf = Inr s \<Longrightarrow> \<exists>z. buf = s @ NUL # z"
proof -
  assume "c_string buf = Inr s"
  then have nul: "NUL \<in> set buf" and s: "s = takeWhile (\<lambda>c. c \<noteq> NUL) buf"
    by (auto simp: c_string_def split: if_splits)
  from nul have ne: "dropWhile (\<lambda>c. c \<noteq> NUL) buf \<noteq> []" by (simp add: dropWhile_eq_Nil_conv)
  then have "hd (dropWhile (\<lambda>c. c \<noteq> NUL) buf) = NUL"
    using hd_dropWhile [OF ne] by simp
  with ne have "dropWhile (\<lambda>c. c \<noteq> NUL) buf = NUL # tl (dropWhile (\<lambda>c. c \<noteq> NUL) buf)"
    by (metis list.collapse)
  then show ?thesis unfolding s by (metis takeWhile_dropWhile_id)
qed

lemma c_string_prefix: "cstr a \<Longrightarrow> c_string (a @ NUL # z) = Inr a"
  by simp

text \<open>After a handler the array holds the first token and nothing else that \<^verbatim>\<open>strtok\<close> can see.\<close>

lemma receive_rule_leaves:
  assumes "receive_rule k n s = Inr (n', toks, s')" "0 < k"
  shows "\<exists>str. c_string (buffer n') = Inr str \<and> length (str_fields ''-'' str) = 1"
proof -
  obtain buf t where r: "recv_into (buffer n) RULE_SIZE s = (buf, t)"
    by (cases "recv_into (buffer n) RULE_SIZE s")
  obtain msg where m: "c_string buf = Inr msg"
    using assms(1) by (auto simp: receive_rule_def r rbind_eq_Inr)
  obtain toks' cut where tc: "strtok_n k ''-'' msg = (toks', cut)" by (cases "strtok_n k ''-'' msg")
  have b: "buffer n' = cut @ drop (length msg) buf" and tok: "toks' ! 0 \<noteq> None"
    using assms(1) by (auto simp: receive_rule_def r m tc Let_def rbind_eq_Inr nonnull_eq_Inr)
  obtain z where z: "buf = msg @ NUL # z" using c_string_split [OF m] by blast
  have "toks' ! 0 = fst (strtok ''-'' msg)"
    using tc assms(2) by (cases k) (auto simp: split_beta)
  then obtain f r where f: "strtok ''-'' msg = (Some f, r)"
    using tok by (cases "strtok ''-'' msg") auto
  let ?l = "takeWhile (\<lambda>c. c \<in> set ''-'') msg"
  obtain rest where "cut @ NUL # z = ?l @ f @ NUL # rest"
    using strtok_n_head [OF f assms(2), of z] tc by auto
  then have bl: "buffer n' = (?l @ f) @ NUL # rest" by (simp add: b z)
  have msgc: "cstr msg" by (rule c_string_cstr [OF m])
  have "set (?l @ f) \<subseteq> set msg"
    using f by (auto simp: strtok_def Let_def dest!: set_takeWhileD split: if_splits dest: set_dropWhileD)
  then have "cstr (?l @ f)" using msgc by (auto simp: cstr_def)
  then have "c_string (buffer n') = Inr (?l @ f)"
    unfolding bl by (rule c_string_prefix)
  moreover have "str_fields ''-'' (?l @ f) = [f]"
    using strtok_token [OF f] str_fields_lead [of ?l "''-''" f] by (auto dest: set_takeWhileD)
  ultimately show ?thesis by auto
qed

lemma receive_nothing [simp]: "recv_into buf n [] = (buf, [])"
  by (simp add: recv_into_def store_bytes_def)

lemma forwarding_of_nothing:
  assumes "node_ok n" "c_string (buffer n) = Inr str" "length (str_fields ''-'' str) = 1"
  shows "receive_forwarding_rule_specification n [] = Inl NullDeref"
  using receive_rule_cases [OF assms(1), of 4 "[]", simplified]
proof (elim disjE exE conjE)
  fix n' msg s' b r
  assume r: "receive_rule 4 n [] = Inr (n', fst (strtok_n 4 ''-'' msg), s')"
    and "c_string (buffer n) = Inr msg"
  then have "fst (strtok_n 4 ''-'' msg) ! 3 = None" using assms(2,3) by (simp add: strtok_n_nth)
  with r show ?thesis by (simp add: receive_forwarding_rule_specification_def)
qed (simp add: receive_forwarding_rule_specification_def)

lemma darshana_leaves:
  assumes "receive_darshana_rule_specification n s = Inr (n', s')"
  shows "\<exists>str. c_string (buffer n') = Inr str \<and> length (str_fields ''-'' str) = 1"
proof -
  obtain m toks t where r: "receive_rule 7 n s = Inr (m, toks, t)"
    using assms by (auto simp: receive_darshana_rule_specification_def rbind_eq_Inr)
  have "buffer n' = buffer m"
    using assms by (auto simp: receive_darshana_rule_specification_def r rbind_eq_Inr
        run_darshana_client_def pthread_cancel_client_def split: if_splits option.splits)
  with receive_rule_leaves [OF r] show ?thesis by simp
qed

section \<open>A whole rule message\<close>

lemma strtok_cstr: "strtok ds s = (Some f, r) \<Longrightarrow> cstr s \<Longrightarrow> cstr f"
  unfolding cstr_def
  by (auto simp: strtok_def Let_def split: if_splits dest!: set_takeWhileD dest: set_dropWhileD)

lemma c_string_take: "cstr f \<Longrightarrow> length f < n \<Longrightarrow> c_string (take n (f @ NUL # rest)) = Inr f"
  using less_imp_Suc_add [of "length f" n] by auto

lemma receive_rule_message:
  assumes ok: "node_ok n" and len: "length m = RULE_SIZE" and m: "c_string m = Inr msg"
    and f: "str_fields ''-'' msg = f # fs" "takeWhile (\<lambda>c. c \<in> set ''-'') msg = []" and k: "0 < k"
  shows "\<exists>r b. receive_rule k n (m # s) =
      Inr (emit [Reply r] (n\<lparr>buffer := b\<rparr>), fst (strtok_n k ''-'' msg), s) \<and>
    node_ok (emit [Reply r] (n\<lparr>buffer := b\<rparr>)) \<and> length r = RULE_SIZE \<and> c_string r = Inr f"
proof -
  define buf where "buf = store_bytes (buffer n) m"
  have rec: "recv_into (buffer n) RULE_SIZE (m # s) = (buf, s)"
    using len by (simp add: recv_into_def buf_def)
  have bufeq: "buf = m @ replicate 312 NUL"
    using ok len by (simp add: buf_def store_bytes_def node_ok_def)
  obtain z where z: "m = msg @ NUL # z" using c_string_split [OF m] by blast
  have buf: "buf = msg @ NUL # z @ replicate 312 NUL" by (simp add: bufeq z)
  then have bc: "c_string buf = Inr msg" using c_string_cstr [OF m] by simp
  obtain toks cut where tc: "strtok_n k ''-'' msg = (toks, cut)" by (cases "strtok_n k ''-'' msg")
  have lc: "length cut = length msg" using strtok_n_length [of k "''-''" msg] tc by simp
  have t0: "toks ! 0 = Some f" using strtok_n_nth [of 0 k "''-''" msg] tc f(1) k by simp
  define b where "b = cut @ drop (length msg) buf"
  obtain r where st: "strtok ''-'' msg = (Some f, r)" using strtok_fields_Cons [OF f(1)] by blast
  obtain rest where b: "b = f @ NUL # rest"
    using strtok_n_head [OF st k, of "z @ replicate 312 NUL"] tc f(2)
    by (auto simp: b_def buf)
  have lb: "length b = LENGTH" using lc len by (simp add: b_def bufeq z)
  have "b = (cut @ NUL # z) @ replicate 312 NUL" "length (cut @ NUL # z) = RULE_SIZE"
    using lc len by (simp_all add: b_def bufeq z)
  then have tl: "drop RULE_SIZE b = replicate 312 NUL" by (metis append_eq_conv_conj)
  have "length f < RULE_SIZE"
    using strtok_length [OF st] c_string_length [OF m] len by simp
  then have fc: "c_string (take RULE_SIZE b) = Inr f"
    unfolding b using strtok_cstr [OF st c_string_cstr [OF m]] by (rule c_string_take [rotated])
  have bf: "bytes_from b 0 RULE_SIZE = Inr (take RULE_SIZE b)" using lb by (simp add: bytes_from_def)
  have "receive_rule k n (m # s) = Inr (emit [Reply (take RULE_SIZE b)] (n\<lparr>buffer := b\<rparr>), toks, s)"
    using t0 f(2) bf by (simp add: receive_rule_def rec bc tc Let_def flip: b_def)
  moreover have "node_ok (emit [Reply (take RULE_SIZE b)] (n\<lparr>buffer := b\<rparr>))"
    using ok lb tl by (simp add: node_ok_def)
  moreover have "length (take RULE_SIZE b) = RULE_SIZE" using lb by simp
  ultimately show ?thesis using tc fc by (metis fst_conv)
qed


text \<open>The two rule messages of the sender, served by a node.\<close>

definition client_command :: "string \<Rightarrow> string \<Rightarrow> string \<Rightarrow> string \<Rightarrow> string \<Rightarrow> string" where
  "client_command node_addr dar_ip dar_port dst port =
     ''cd ../../darshana/darshana/; sh run-client-broadcaster_args.sh lat '' @ node_addr @ '' '' @ dst @ '' '' @
     port @ '' 1 1 0.8 1.5 0.3 1 '' @ dar_ip @ '','' @ dar_port @ '' >> darshana-node-client.out &''"

lemma rule_head:
  "takeWhile (\<lambda>c. c \<in> set ''-'') (rule_type ty @ s) = []"
  by simp

lemma forwarding_message:
  assumes ok: "node_ok n" and key: "forward_key_ok (src, dst, port, ty)"
    and fs: "build_hop_forward_rules_spec src dst port ty = Inr fs" and j: "RULE_SIZE \<le> Suc (length junk)"
  shows "\<exists>r cmds b. (if ty = 1 then forwardPaths else removeRules) (overlay_addr n) src dst (dec_int port) = Inr cmds \<and>
    receive_forwarding_rule_specification n (rule_array fs junk # s) =
      Inr (emit (Reply r # map System cmds) (n\<lparr>buffer := b\<rparr>), s) \<and>
    length b = LENGTH \<and> length r = RULE_SIZE \<and> c_string r = Inr (rule_type ty)"
proof -
  obtain fs' where "build_hop_forward_rules_spec src dst port ty = Inr fs'"
    and m: "length (rule_array fs' junk) = RULE_SIZE" "c_string (rule_array fs' junk) = Inr fs'"
      "str_fields ''-'' fs' = [rule_type ty, src, dst, dec_int port]"
    using forward_rule.message [of "(src, dst, port, ty)" junk, simplified] key j by auto
  then have e: "fs' = fs" using fs by simp
  note m = m [unfolded e]
  have hd: "takeWhile (\<lambda>c. c \<in> set ''-'') fs = []"
    using build_hop_forward_rules_spec_eq [OF key] fs rule_head by auto
  obtain r b where r: "receive_rule 4 n (rule_array fs junk # s) =
      Inr (emit [Reply r] (n\<lparr>buffer := b\<rparr>), fst (strtok_n 4 ''-'' fs), s)"
    "node_ok (emit [Reply r] (n\<lparr>buffer := b\<rparr>))" "length r = RULE_SIZE" "c_string r = Inr (rule_type ty)"
    using receive_rule_message [OF ok m hd, of 4 s] by auto
  have t: "fst (strtok_n 4 ''-'' fs) ! 0 = Some (rule_type ty)" "fst (strtok_n 4 ''-'' fs) ! 1 = Some src"
    "fst (strtok_n 4 ''-'' fs) ! 2 = Some dst" "fst (strtok_n 4 ''-'' fs) ! 3 = Some (dec_int port)"
    using m(3) by (simp_all add: strtok_n_nth)
  have "node_fits (overlay_addr n, src, dst, dec_int port)"
    using ok key dec_int_port_length [of port] by (simp add: node_fits_def node_ok_def forward_key_ok_def)
  then obtain cmds where c: "(if ty = 1 then forwardPaths else removeRules) (overlay_addr n) src dst (dec_int port) = Inr cmds"
    by (cases "ty = 1") (simp_all add: forwardPaths_eq removeRules_eq)
  have "receive_forwarding_rule_specification n (rule_array fs junk # s) =
      Inr (emit (Reply r # map System cmds) (n\<lparr>buffer := b\<rparr>), s)"
    using c by (auto simp: receive_forwarding_rule_specification_def r(1) t t [simplified] emit_def split: if_splits)
  moreover have "length b = LENGTH" using r(2) by (simp add: node_ok_def)
  ultimately show ?thesis using c r(3,4) by metis
qed

lemma darshana_message:
  assumes ok: "node_ok n" and key: "darshana_key_ok (dar, dport, dst, port, ty)"
    and ds: "build_hop_run_darshana_spec dar dport dst port ty = Inr ds" and j: "RULE_SIZE \<le> Suc (length junk)"
    and th: "ty = 1 \<or> darshana_client_pthread n \<noteq> None"
  shows "\<exists>r n'. receive_darshana_rule_specification n (rule_array ds junk # s) = Inr (n', s) \<and>
    overlay_addr n' = overlay_addr n \<and> node_ok n' \<and>
    darshana_client_pthread n' = (if ty = 1 then Some (Suc (length (effects n))) else darshana_client_pthread n) \<and>
    effects n' = effects n @ [Reply r, if ty = 1
        then Run_Thread (client_command (overlay_addr n) dar (dec_int dport) dst (dec_int port))
        else Cancel_Thread (the (darshana_client_pthread n))] \<and>
    length r = RULE_SIZE \<and> c_string r = Inr (rule_type ty)"
proof -
  obtain ds' where "build_hop_run_darshana_spec dar dport dst port ty = Inr ds'"
    and m: "length (rule_array ds' junk) = RULE_SIZE" "c_string (rule_array ds' junk) = Inr ds'"
      "str_fields ''-'' ds' = [rule_type ty, dar, dec_int dport, dst, dec_int port,
         DARSHANA_MONITORING_MODE, DARSHANA_METRICS_THRESHOLDS]"
    using darshana_rule.message [of "(dar, dport, dst, port, ty)" junk, simplified] key j by auto
  then have e: "ds' = ds" using ds by simp
  note m = m [unfolded e]
  have hd: "takeWhile (\<lambda>c. c \<in> set ''-'') ds = []"
    using build_hop_run_darshana_spec_eq [OF key] ds by auto
  obtain r b where r: "receive_rule 7 n (rule_array ds junk # s) =
      Inr (emit [Reply r] (n\<lparr>buffer := b\<rparr>), fst (strtok_n 7 ''-'' ds), s)"
    "node_ok (emit [Reply r] (n\<lparr>buffer := b\<rparr>))" "length r = RULE_SIZE" "c_string r = Inr (rule_type ty)"
    using receive_rule_message [OF ok m hd, of 7 s] by auto
  let ?t = "fst (strtok_n 7 ''-'' ds)"
  have t: "?t ! 0 = Some (rule_type ty)" "?t ! 1 = Some dar" "?t ! 2 = Some (dec_int dport)"
    "?t ! 3 = Some dst" "?t ! 4 = Some (dec_int port)" "?t ! 5 = Some ''lat''" "?t ! 6 = Some ''1 1 0.8 1.5 0.3 1''"
    using m(3) by (simp_all add: strtok_n_nth DARSHANA_MONITORING_MODE_def DARSHANA_METRICS_THRESHOLDS_def)
  show ?thesis
  proof (cases "ty = 1")
    case True
    have "length (overlay_addr n) < 20" using ok by (simp add: node_ok_def)
    with True key dec_int_port_length [of port] dec_int_port_length [of dport] t r show ?thesis
      by (simp add: receive_darshana_rule_specification_def run_darshana_client_def build_string_eq
          DARSHANA_RELATIVE_PATH_def darshana_key_ok_def client_command_def node_ok_def)
  next
    case False
    with th t r show ?thesis
      by (auto simp: receive_darshana_rule_specification_def pthread_cancel_client_def)
  qed
qed

section \<open>Properties of the node\<close>

text \<open>One turn of the loop for the sender's two messages, and the sender's side of it.\<close>

lemma serve_rule_messages:
  assumes ok: "node_ok n" and fkey: "forward_key_ok (src, dst, port, ty)"
    and dkey: "darshana_key_ok (dar, dport, ddst, dsport, ty)"
    and fs: "build_hop_forward_rules_spec src dst port ty = Inr fs"
    and ds: "build_hop_run_darshana_spec dar dport ddst dsport ty = Inr ds"
    and j: "RULE_SIZE \<le> Suc (length j1)" "RULE_SIZE \<le> Suc (length j2)"
    and th: "ty = 1 \<or> darshana_client_pthread n \<noteq> None"
  obtains n' r1 r2 cmds where
    "serve_connection [rule_array fs j1, rule_array ds j2] n = Inr n'" "node_ok n'"
    "overlay_addr n' = overlay_addr n"
    "darshana_client_pthread n' = (if ty = 1 then Some (length (effects n') - 1) else darshana_client_pthread n)"
    "(if ty = 1 then forwardPaths else removeRules) (overlay_addr n) src dst (dec_int port) = Inr cmds"
    "effects n' = effects n @ Reply r1 # map System cmds @ [Reply r2, if ty = 1
        then Run_Thread (client_command (overlay_addr n) dar (dec_int dport) ddst (dec_int dsport))
        else Cancel_Thread (the (darshana_client_pthread n))]"
    "length r1 = RULE_SIZE" "length r2 = RULE_SIZE"
    "c_string r1 = Inr (rule_type ty)" "c_string r2 = Inr (rule_type ty)"
proof -
  let ?n = "n\<lparr>open_sockets := Suc (open_sockets n)\<rparr>"
  have ok': "node_ok ?n" using ok by (simp add: node_ok_def)
  obtain r1 cmds b where 1:
    "(if ty = 1 then forwardPaths else removeRules) (overlay_addr n) src dst (dec_int port) = Inr cmds"
    "receive_forwarding_rule_specification ?n [rule_array fs j1, rule_array ds j2] =
      Inr (emit (Reply r1 # map System cmds) (?n\<lparr>buffer := b\<rparr>), [rule_array ds j2])"
    "length b = LENGTH" "length r1 = RULE_SIZE" "c_string r1 = Inr (rule_type ty)"
    using forwarding_message [OF ok' fkey fs j(1), of "[rule_array ds j2]"] by auto
  let ?m = "(emit (Reply r1 # map System cmds) (?n\<lparr>buffer := b\<rparr>))\<lparr>buffer := bzero LENGTH b\<rparr>"
  have okm: "node_ok ?m" using ok 1(3) by (simp add: node_ok_def emit_def)
  have th1: "ty = 1 \<or> darshana_client_pthread ?m \<noteq> None" using th by simp
  obtain r2 n' where 2: "receive_darshana_rule_specification ?m [rule_array ds j2] = Inr (n', [])"
    "overlay_addr n' = overlay_addr n" "node_ok n'"
    "darshana_client_pthread n' = (if ty = 1 then Some (Suc (length (effects ?m))) else darshana_client_pthread n)"
    "effects n' = effects n @ Reply r1 # map System cmds @ [Reply r2, if ty = 1
        then Run_Thread (client_command (overlay_addr n) dar (dec_int dport) ddst (dec_int dsport))
        else Cancel_Thread (the (darshana_client_pthread n))]"
    "length r2 = RULE_SIZE" "c_string r2 = Inr (rule_type ty)"
    using darshana_message [OF okm dkey ds j(2) th1, of "[]"] by auto
  have sc: "serve_connection [rule_array fs j1, rule_array ds j2] n = Inr n'"
    using 1(2) 2(1) by (simp add: serve_connection_def)
  have h: "darshana_client_pthread n' = (if ty = 1 then Some (length (effects n') - 1) else darshana_client_pthread n)"
    by (simp add: 2(4,5))
  show ?thesis by (rule that [OF sc 2(3) 2(2) h 1(1) 2(5) 1(4) 2(6) 1(5) 2(7)])
qed

lemma exchange_with_replies:
  assumes "length r1 = RULE_SIZE" "length r2 = RULE_SIZE" "c_string r1 = Inr s1" "c_string r2 = Inr s2"
    and "s1 \<noteq> []" "s2 \<noteq> []" "length fr = RULE_SIZE" "length dr = RULE_SIZE"
  shows "setup_overlay_node ip p fr dr silent [r1, r2] =
    Inr ([Connect ip p, Send_Rule fr, Send_Rule dr, Close_Node],
         replicate RULE_SIZE NUL, replicate RULE_SIZE NUL)"
proof -
  have "await_reply silent (replicate RULE_SIZE NUL) (r # s) = Inr (r, s)"
    if "length r = RULE_SIZE" "c_string r = Inr t" "t \<noteq> []" for r s t
    using await_reply_string [of "replicate RULE_SIZE NUL" r t silent s] that by (simp add: store_bytes_def)
  with assms show ?thesis
    by (simp add: setup_overlay_node_def initiate_overlay_node_comn_socket_def close_overlay_node_comn_def)
qed

end
