(* ===== verification/Node_Properties.thy ===== *)
theory Node_Properties
  imports Overlay_Node
begin

text \<open>
  What an overlay node does for a sender: the properties that span the sender's rule
  messages, the node's handlers and its NAT table.
\<close>

section \<open>Rules reach the node\<close>

text \<open>C4.
  End to end: the two rule messages that the sender builds for valid arguments make the node
  run exactly the NAT commands and the Darshana command they describe, and the node's two
  answers end the sender's exchange with both rule buffers cleared.\<close>

theorem rules_reach_node:
  assumes "node_ok n" "forward_key_ok (src, dst, port, ty)" "darshana_key_ok (dar, dport, ddst, dsport, ty)"
    and "build_hop_forward_rules_spec src dst port ty = Inr fs"
    and "build_hop_run_darshana_spec dar dport ddst dsport ty = Inr ds"
    and "RULE_SIZE \<le> Suc (length j1)" "RULE_SIZE \<le> Suc (length j2)"
    and "ty = 1 \<or> darshana_client_pthread n \<noteq> None"
  shows "\<exists>n' r1 r2 cmds.
    serve_connection [rule_array fs j1, rule_array ds j2] n = Inr n' \<and>
    (if ty = 1 then forwardPaths else removeRules) (overlay_addr n) src dst (dec_int port) = Inr cmds \<and>
    effects n' = effects n @ Reply r1 # map System cmds @ [Reply r2, if ty = 1
      then Run_Thread (client_command (overlay_addr n) dar (dec_int dport) ddst (dec_int dsport))
      else Cancel_Thread (the (darshana_client_pthread n))] \<and>
    setup_overlay_node ip p (rule_array fs j1) (rule_array ds j2) silent [r1, r2] =
      Inr ([Connect ip p, Send_Rule (rule_array fs j1), Send_Rule (rule_array ds j2), Close_Node],
           replicate RULE_SIZE NUL, replicate RULE_SIZE NUL)"
proof -
  have len: "length (rule_array r j) = RULE_SIZE" if "RULE_SIZE \<le> Suc (length j)" for r j
    using that by (simp add: rule_array_def)
  obtain n' r1 r2 cmds where
    1: "serve_connection [rule_array fs j1, rule_array ds j2] n = Inr n'"
      "(if ty = 1 then forwardPaths else removeRules) (overlay_addr n) src dst (dec_int port) = Inr cmds"
      "effects n' = effects n @ Reply r1 # map System cmds @ [Reply r2, if ty = 1
        then Run_Thread (client_command (overlay_addr n) dar (dec_int dport) ddst (dec_int dsport))
        else Cancel_Thread (the (darshana_client_pthread n))]"
    and 2: "length r1 = RULE_SIZE" "length r2 = RULE_SIZE"
      "c_string r1 = Inr (rule_type ty)" "c_string r2 = Inr (rule_type ty)"
    using serve_rule_messages [OF assms] by metis
  have "setup_overlay_node ip p (rule_array fs j1) (rule_array ds j2) silent [r1, r2] =
      Inr ([Connect ip p, Send_Rule (rule_array fs j1), Send_Rule (rule_array ds j2), Close_Node],
           replicate RULE_SIZE NUL, replicate RULE_SIZE NUL)"
    by (rule exchange_with_replies [OF 2 _ _ len [OF assms(6)] len [OF assms(7)]]) simp_all
  with 1 show ?thesis by blast
qed

definition sample_node :: node where
  "sample_node = \<lparr>overlay_addr = ''10.0.0.9'', buffer = replicate LENGTH NUL,
     darshana_client_pthread = None, open_sockets = 0, effects = []\<rparr>"

definition sample_junk :: "char list" where
  "sample_junk = replicate 199 (CHR ''x'')"

definition sample_forward_rule :: string where
  "sample_forward_rule = ''A-10.0.0.1-10.0.0.5-'' @ dec_int 5000"

definition sample_darshana_rule :: string where
  "sample_darshana_rule = ''A-10.0.0.1-'' @ dec_int 10101 @ ''-10.0.0.5-'' @ dec_int 11130 @ ''-lat-1 1 0.8 1.5 0.3 1''"

lemma sample_rules:
  "node_ok sample_node" "RULE_SIZE \<le> Suc (length sample_junk)"
  "forward_key_ok (''10.0.0.1'', ''10.0.0.5'', 5000, 1)"
  "forward_key_ok (''10.0.0.1'', ''10.0.0.5'', 5000, 0)"
  "darshana_key_ok (''10.0.0.1'', 10101, ''10.0.0.5'', 11130, 1)"
  "darshana_key_ok (''10.0.0.1'', 10101, ''10.0.0.5'', 11130, 0)"
  "build_hop_forward_rules_spec ''10.0.0.1'' ''10.0.0.5'' 5000 1 = Inr sample_forward_rule"
  "build_hop_run_darshana_spec ''10.0.0.1'' 10101 ''10.0.0.5'' 11130 1 = Inr sample_darshana_rule"
proof -
  show k: "forward_key_ok (''10.0.0.1'', ''10.0.0.5'', 5000, 1)"
    "forward_key_ok (''10.0.0.1'', ''10.0.0.5'', 5000, 0)"
    "darshana_key_ok (''10.0.0.1'', 10101, ''10.0.0.5'', 11130, 1)"
    "darshana_key_ok (''10.0.0.1'', 10101, ''10.0.0.5'', 11130, 0)"
    by (simp_all add: forward_key_ok_def darshana_key_ok_def token_def)
  show "build_hop_forward_rules_spec ''10.0.0.1'' ''10.0.0.5'' 5000 1 = Inr sample_forward_rule"
    unfolding build_hop_forward_rules_spec_eq [OF k(1)] by (simp add: sample_forward_rule_def)
  show "build_hop_run_darshana_spec ''10.0.0.1'' 10101 ''10.0.0.5'' 11130 1 = Inr sample_darshana_rule"
    unfolding build_hop_run_darshana_spec_eq [OF k(3)]
    by (simp add: sample_darshana_rule_def DARSHANA_MONITORING_MODE_def DARSHANA_METRICS_THRESHOLDS_def)
qed (simp_all add: node_ok_def sample_node_def sample_junk_def)

theorem rules_reach_node_witness:
  "\<exists>n' r1 r2 cmds.
    serve_connection [rule_array sample_forward_rule sample_junk, rule_array sample_darshana_rule sample_junk]
      sample_node = Inr n' \<and>
    forwardPaths ''10.0.0.9'' ''10.0.0.1'' ''10.0.0.5'' (dec_int 5000) = Inr cmds \<and>
    effects n' = Reply r1 # map System cmds @ [Reply r2,
      Run_Thread (client_command ''10.0.0.9'' ''10.0.0.1'' (dec_int 10101) ''10.0.0.5'' (dec_int 11130))]"
  using rules_reach_node [OF sample_rules(1,3,5,7,8,2,2)] by (simp add: sample_node_def) blast

section \<open>Removing restores the NAT table\<close>

fun nat_commands :: "node_effect list \<Rightarrow> string list" where
  "nat_commands [] = []"
| "nat_commands (System c # es) = c # nat_commands es"
| "nat_commands (e # es) = nat_commands es"

lemma nat_commands_append [simp]: "nat_commands (es @ fs) = nat_commands es @ nat_commands fs"
  by (induction es rule: nat_commands.induct) simp_all

lemma nat_commands_System [simp]: "nat_commands (map System cs) = cs"
  by (induction cs) simp_all

lemma plain_dec_int: "0 \<le> i \<Longrightarrow> plain (dec_int i)"
  by (auto simp: plain_def list_all_iff plain_char_def dec_int_nonneg is_digit_def Let_def dest!: dec_nat_digits)

text \<open>C8.
  A node that serves the sender's rules of type A and later those of type D for the same
  endpoints leaves its NAT table as it was, for any iptables with the documented meaning of
  -A and -D, whenever the table held none of the four rules before.\<close>

theorem node_restores_nat:
  assumes sem: "iptables_semantics exec denote chain"
    and ok: "node_ok n" and fk: "forward_key_ok (src, dst, port, 1)" "forward_key_ok (src, dst, port, 0)"
    and dk: "darshana_key_ok (dar, dport, ddst, dsport, 1)" "darshana_key_ok (dar, dport, ddst, dsport, 0)"
    and b1: "build_hop_forward_rules_spec src dst port 1 = Inr fs"
      "build_hop_run_darshana_spec dar dport ddst dsport 1 = Inr ds"
    and b2: "build_hop_forward_rules_spec src dst port 0 = Inr fs'"
      "build_hop_run_darshana_spec dar dport ddst dsport 0 = Inr ds'"
    and j: "RULE_SIZE \<le> Suc (length j)"
    and pl: "plain src" "plain dst" "plain (overlay_addr n)"
    and fresh: "\<forall>c. set (chain t c) \<inter>
      set (denoted denote c (node_rules (overlay_addr n, src, dst, dec_int port))) = {}"
  shows "\<exists>n' es. start_overlay [[rule_array fs j, rule_array ds j], [rule_array fs' j, rule_array ds' j]] n = Inr n' \<and>
    effects n' = effects n @ es \<and> nat_commands es \<noteq> [] \<and>
    chain (fold exec (nat_commands es) t) = chain t"
proof -
  obtain n1 r1 r2 cmds1 where 1:
    "serve_connection [rule_array fs j, rule_array ds j] n = Inr n1" "node_ok n1"
    "overlay_addr n1 = overlay_addr n" "darshana_client_pthread n1 \<noteq> None"
    "forwardPaths (overlay_addr n) src dst (dec_int port) = Inr cmds1"
    "effects n1 = effects n @ Reply r1 # map System cmds1 @ [Reply r2,
       Run_Thread (client_command (overlay_addr n) dar (dec_int dport) ddst (dec_int dsport))]"
    by (rule serve_rule_messages [OF ok fk(1) dk(1) b1 j j]) simp_all
  obtain n2 r3 r4 cmds2 where 2:
    "serve_connection [rule_array fs' j, rule_array ds' j] n1 = Inr n2"
    "removeRules (overlay_addr n) src dst (dec_int port) = Inr cmds2"
    "effects n2 = effects n1 @ Reply r3 # map System cmds2 @ [Reply r4, Cancel_Thread (the (darshana_client_pthread n1))]"
    by (rule serve_rule_messages [OF 1(2) fk(2) dk(2) b2 j j]) (use 1(3,4) in simp_all)
  let ?k = "(overlay_addr n, src, dst, dec_int port)"
  have "0 \<le> port" using fk(1) by (simp add: forward_key_ok_def)
  then have r: "chain (fold exec cmds2 (fold exec cmds1 t)) = chain t"
    using node_nat.install_then_remove [OF sem, of ?k cmds1 cmds2 t] 1(5) 2(2) pl fresh
    by (simp add: plain_dec_int)
  have "cmds1 \<noteq> []" using 1(5) by (auto simp: forwardPaths_eq node_rules_def split: if_splits)
  with 1 2 r show ?thesis by (simp add: start_overlay_def)
qed

definition sample_forward_delete :: string where
  "sample_forward_delete = ''D-10.0.0.1-10.0.0.5-'' @ dec_int 5000"

definition sample_darshana_delete :: string where
  "sample_darshana_delete = ''D-10.0.0.1-'' @ dec_int 10101 @ ''-10.0.0.5-'' @ dec_int 11130 @ ''-lat-1 1 0.8 1.5 0.3 1''"

lemma sample_deletes:
  "build_hop_forward_rules_spec ''10.0.0.1'' ''10.0.0.5'' 5000 0 = Inr sample_forward_delete"
  "build_hop_run_darshana_spec ''10.0.0.1'' 10101 ''10.0.0.5'' 11130 0 = Inr sample_darshana_delete"
  unfolding build_hop_forward_rules_spec_eq [OF sample_rules(4)] build_hop_run_darshana_spec_eq [OF sample_rules(6)]
  by (simp_all add: sample_forward_delete_def sample_darshana_delete_def DARSHANA_MONITORING_MODE_def
      DARSHANA_METRICS_THRESHOLDS_def)

lemma sample_plain: "plain ''10.0.0.1''" "plain ''10.0.0.5''" "plain (overlay_addr sample_node)"
  by (simp_all add: sample_node_def plain_char_def)

theorem node_restores_nat_witness:
  "\<exists>n' es. start_overlay [[rule_array sample_forward_rule sample_junk, rule_array sample_darshana_rule sample_junk],
      [rule_array sample_forward_delete sample_junk, rule_array sample_darshana_delete sample_junk]] sample_node = Inr n' \<and>
    effects n' = effects sample_node @ es \<and> nat_commands es \<noteq> [] \<and>
    id (fold text_exec (nat_commands es) (\<lambda>c. [''other''])) = id (\<lambda>c. [''other''])"
  by (rule node_restores_nat [OF text_exec_semantics sample_rules(1) sample_rules(3,4,5,6,7,8) sample_deletes
        sample_rules(2) sample_plain])
     (auto simp: denoted_def List.map_filter_def node_rules_def)

section \<open>Memory safety of the accept loop\<close>

lemma receive_rule_sockets:
  assumes "receive_rule k n s = Inr (n', toks, s')"
  shows "open_sockets n' = open_sockets n"
proof -
  obtain buf t where r: "recv_into (buffer n) RULE_SIZE s = (buf, t)"
    by (cases "recv_into (buffer n) RULE_SIZE s")
  obtain msg where m: "c_string buf = Inr msg"
    using assms by (auto simp: receive_rule_def r rbind_eq_Inr)
  obtain ts cut where tc: "strtok_n k ''-'' msg = (ts, cut)" by (cases "strtok_n k ''-'' msg")
  from assms show ?thesis by (auto simp: receive_rule_def r m tc Let_def rbind_eq_Inr)
qed

lemma forwarding_sockets:
  "receive_forwarding_rule_specification n s = Inr (n', s') \<Longrightarrow> open_sockets n' = open_sockets n"
  by (auto simp: receive_forwarding_rule_specification_def rbind_eq_Inr dest: receive_rule_sockets)

lemma darshana_sockets:
  "receive_darshana_rule_specification n s = Inr (n', s') \<Longrightarrow> open_sockets n' = open_sockets n"
  by (auto simp: receive_darshana_rule_specification_def run_darshana_client_def pthread_cancel_client_def
      rbind_eq_Inr dest!: receive_rule_sockets split: if_splits option.splits)

lemma serve_connection_sockets:
  "serve_connection s n = Inr n' \<Longrightarrow> open_sockets n' = Suc (open_sockets n)"
  by (auto simp: serve_connection_def rbind_eq_Inr dest!: forwarding_sockets darshana_sockets)

lemma served_from_ok:
  assumes "node_ok n"
  shows "start_overlay connections n \<in> {Inl NullDeref, Inl BadPointer} \<or>
    (\<exists>n'. start_overlay connections n = Inr n' \<and> node_ok n' \<and>
       open_sockets n' = open_sockets n + length connections)"
  using assms
proof (induction connections arbitrary: n)
  case (Cons s ss)
  from serve_connection_cases [OF Cons.prems Cons.prems, of s] consider
    "serve_connection s n \<in> {Inl NullDeref, Inl BadPointer}" | n1 where "serve_connection s n = Inr n1" "node_ok n1"
    by blast
  then show ?case
  proof cases
    case 1
    then show ?thesis by (auto simp: start_overlay_def)
  next
    case 2
    with Cons.IH [of n1] serve_connection_sockets [of s n n1] show ?thesis by (simp add: start_overlay_def)
  qed
qed (simp add: start_overlay_def)

text \<open>C14.
  The array of the node is whatever the stack holds when it starts.  If the very first message
  ends with a NUL within its 201 characters, as every message of the sender does, then whatever
  bytes peers send afterwards, in whatever pieces, the node never overruns or over-reads an
  array: the only ways to stop it are a null pointer (too few fields) and the cancellation of a
  thread that was never created; every served connection leaks its socket.  The condition is
  needed: a first message of 200 characters without NUL, where the stack holds none behind it,
  is read past the array.\<close>

theorem node_never_overruns:
  assumes "node_sized n"
  shows "(connections = [] \<or> terminated (hd connections) n \<longrightarrow>
      start_overlay connections n \<in> {Inl NullDeref, Inl BadPointer} \<or>
      (\<exists>n'. start_overlay connections n = Inr n' \<and> node_sized n' \<and> (connections \<noteq> [] \<longrightarrow> node_ok n') \<and>
         open_sockets n' = open_sockets n + length connections)) \<and>
    (length msg = RULE_SIZE \<and> NUL \<notin> set msg \<and> NUL \<notin> set (drop RULE_SIZE (buffer n)) \<longrightarrow>
      start_overlay ((msg # rest) # later) n = Inl OverRead)"
proof (intro conjI impI)
  assume first: "connections = [] \<or> terminated (hd connections) n"
  show "start_overlay connections n \<in> {Inl NullDeref, Inl BadPointer} \<or>
      (\<exists>n'. start_overlay connections n = Inr n' \<and> node_sized n' \<and> (connections \<noteq> [] \<longrightarrow> node_ok n') \<and>
         open_sockets n' = open_sockets n + length connections)"
  proof (cases connections)
    case Nil
    with assms show ?thesis by (simp add: start_overlay_def)
  next
    case (Cons s ss)
    with first serve_connection_sized [OF assms, of s] consider
      "serve_connection s n \<in> {Inl NullDeref, Inl BadPointer}" | n1 where "serve_connection s n = Inr n1" "node_ok n1"
      by auto
    then show ?thesis
    proof cases
      case 1
      with Cons show ?thesis by (auto simp: start_overlay_def)
    next
      case 2
      with Cons served_from_ok [of n1 ss] serve_connection_sockets [of s n n1] node_ok_sized
      show ?thesis by (fastforce simp: start_overlay_def)
    qed
  qed
next
  assume "length msg = RULE_SIZE \<and> NUL \<notin> set msg \<and> NUL \<notin> set (drop RULE_SIZE (buffer n))"
  with assms show "start_overlay ((msg # rest) # later) n = Inl OverRead"
    by (simp add: start_overlay_def node_sized_def serve_connection_unterminated)
qed

text \<open>
  A node that starts with an array full of other data: two connections with rules as the sender writes them
  are served and leak two sockets, and 200 characters without NUL are read past the array.
\<close>

definition used_stack_node :: node where
  "used_stack_node = sample_node\<lparr>buffer := replicate 512 (CHR ''u'')\<rparr>"

definition sample_connection :: stream where
  "sample_connection = [''A-10.0.0.1-10.0.0.5-5000'' @ [NUL], ''A-10.0.0.1-1-10.0.0.5-2-lat-1'' @ [NUL]]"

lemma sample_connection_served:
  "case start_overlay [sample_connection, sample_connection] used_stack_node of Inl e \<Rightarrow> False | Inr n \<Rightarrow> True"
  by code_simp

theorem node_never_overruns_witness:
  "(\<exists>n'. start_overlay [sample_connection, sample_connection] used_stack_node = Inr n' \<and>
      node_ok n' \<and> open_sockets n' = 2) \<and>
   start_overlay [[replicate 200 (CHR ''x'')]] used_stack_node = Inl OverRead"
proof -
  have n: "node_sized used_stack_node" "open_sockets used_stack_node = 0"
    by (simp_all add: node_sized_def used_stack_node_def sample_node_def)
  have "terminated sample_connection used_stack_node"
    by (simp add: terminated_def sample_connection_def used_stack_node_def recv_into_def store_bytes_def)
  with node_never_overruns [OF n(1), where connections = "[sample_connection, sample_connection]"
      and msg = "replicate 200 (CHR ''x'')" and rest = "[]" and later = "[]"] n(2) sample_connection_served
  show ?thesis by (auto simp: used_stack_node_def)
qed

text \<open>C40.
  A connection that is opened and closed without a byte stops the node: after any connection
  that it served, the array still holds the first token of the last rule, so the next empty
  receive is taken for a rule with no addresses.\<close>

theorem node_empty_connection_crashes:
  assumes "node_ok n" "serve_connection s n = Inr n'"
  shows "serve_connection [] n' = Inl NullDeref"
proof -
  have "node_ok n'" using serve_connection_cases [OF assms(1,1), of s] assms(2) by auto
  moreover obtain m u t where "receive_darshana_rule_specification m u = Inr (n', t)"
    using assms(2) by (auto simp: serve_connection_def rbind_eq_Inr)
  then obtain str where "c_string (buffer n') = Inr str" "length (str_fields ''-'' str) = 1"
    using darshana_leaves by blast
  ultimately have "receive_forwarding_rule_specification (n'\<lparr>open_sockets := Suc (open_sockets n')\<rparr>) [] = Inl NullDeref"
    by (intro forwarding_of_nothing) (simp_all add: node_ok_def)
  then show ?thesis by (simp add: serve_connection_def)
qed

theorem node_empty_connection_crashes_witness:
  "\<exists>n'. serve_connection [rule_array sample_forward_rule sample_junk, rule_array sample_darshana_rule sample_junk]
      sample_node = Inr n' \<and> serve_connection [] n' = Inl NullDeref"
proof -
  obtain n' where "serve_connection [rule_array sample_forward_rule sample_junk,
      rule_array sample_darshana_rule sample_junk] sample_node = Inr n'"
    by (rule serve_rule_messages [OF sample_rules(1,3,5,7,8,2,2)]) simp_all
  with node_empty_connection_crashes [OF sample_rules(1) this] show ?thesis by blast
qed

end
