(* ===== verification/Rule_Ledgers.thy ===== *)
theory Rule_Ledgers
  imports Nat_Rules
begin

text \<open>
  Rules that several parties install and remove in any order: a ledger of the keys whose rules
  are in place, interleavings of what the parties do, and the table that belongs to a ledger.
\<close>

section \<open>Ledgers\<close>

text \<open>
  An entry installs (\<open>True\<close>) or removes the rules of a key.  A ledger is the multiset of the keys
  in place; it is \<open>None\<close> once a key is removed that is not in place.
\<close>

fun ledger :: "'k multiset \<Rightarrow> (bool \<times> 'k) list \<Rightarrow> 'k multiset option" where
  "ledger M [] = Some M"
| "ledger M ((True, k) # qs) = ledger (add_mset k M) qs"
| "ledger M ((False, k) # qs) = (if k \<in># M then ledger (M - {#k#}) qs else None)"

lemma ledger_append: "ledger M (qs @ rs) = Option.bind (ledger M qs) (\<lambda>N. ledger N rs)"
  by (induction M qs rule: ledger.induct) auto

lemma ledger_installs: "ledger M (map (Pair True) ks) = Some (M + mset ks)"
  by (induction ks arbitrary: M) auto

lemma ledger_removes: "ledger (mset ks + M) (map (Pair False) ks) = Some M"
  by (induction ks) auto

lemma ledger_told: "ledger {#} (map (Pair True) (ks @ js) @ map (Pair False) ks) = Some (mset js)"
  using ledger_removes [of ks "mset js"] by (simp add: ledger_append ledger_installs)

lemma ledger_session: "ledger {#} (map (Pair True) ks @ map (Pair False) ks) = Some {#}"
  using ledger_told [of ks "[]"] by simp

lemma ledger_remove: "k \<in># M \<Longrightarrow> ledger (K + M) ((False, k) # qs) = ledger (K + (M - {#k#})) qs"
  unfolding ledger.simps(3) by (simp only: diff_union_single_conv union_iff simp_thms if_True)

lemma ledger_frame: "ledger M qs = Some N \<Longrightarrow> ledger (K + M) qs = Some (K + N)"
proof (induction M qs rule: ledger.induct)
  case (2 M k qs)
  then show ?case by simp
next
  case (3 M k qs)
  then have k: "k \<in># M" "ledger (M - {#k#}) qs = Some N" by (simp_all split: if_splits)
  have "ledger (K + (M - {#k#})) qs = Some (K + N)" by (rule "3.IH" [OF k])
  then show ?case unfolding ledger_remove [OF k(1)] .
qed simp

lemma ledger_of_set: "ledger M qs = Some N \<Longrightarrow> set_mset N \<subseteq> set_mset M \<union> snd ` set qs"
  by (induction M qs rule: ledger.induct) (auto split: if_splits dest: in_diffD)

section \<open>Interleavings\<close>

fun interleavings :: "'a list list \<Rightarrow> 'a list set" where
  "interleavings [] = {[]}"
| "interleavings (xs # xss) = (\<Union>ys \<in> interleavings xss. shuffles xs ys)"

lemma set_interleavings: "zs \<in> interleavings xss \<Longrightarrow> set zs = (\<Union>xs \<in> set xss. set xs)"
  by (induction xss arbitrary: zs) (auto simp: set_shuffles)

lemma concat_interleaves: "concat xss \<in> interleavings xss"
proof (induction xss)
  case (Cons xs xss)
  have "xs @ ys \<in> shuffles xs ys" for ys :: "'a list"
    by (induction xs) (auto intro: Cons_in_shuffles_leftI)
  with Cons show ?case by auto
qed simp

lemma map_shuffles: "zs \<in> shuffles xs ys \<Longrightarrow> map f zs \<in> shuffles (map f xs) (map f ys)"
proof (induction xs ys arbitrary: zs rule: shuffles.induct)
  case (3 x xs y ys)
  from 3(3) consider us where "zs = x # us" "us \<in> shuffles xs (y # ys)" | us where "zs = y # us" "us \<in> shuffles (x # xs) ys"
    by auto
  then show ?case
  proof cases
    case 1
    with 3(1) [OF 1(2)] show ?thesis by auto
  next
    case 2
    with 3(2) [OF 2(2)] show ?thesis by auto
  qed
qed auto

lemma shuffles_map:
  "zs \<in> shuffles (map f xs) (map f ys) \<Longrightarrow> \<exists>us \<in> shuffles xs ys. zs = map f us"
proof (induction xs ys arbitrary: zs rule: shuffles.induct)
  case (3 x xs y ys)
  from 3(3) consider us where "zs = f x # us" "us \<in> shuffles (map f xs) (map f (y # ys))"
    | us where "zs = f y # us" "us \<in> shuffles (map f (x # xs)) (map f ys)"
    by auto
  then show ?case
  proof cases
    case 1
    from 3(1) [OF 1(2)] 1(1) show ?thesis by (auto intro!: bexI [where x = "x # _"])
  next
    case 2
    from 3(2) [OF 2(2)] 2(1) show ?thesis by (auto intro!: bexI [where x = "y # _"])
  qed
qed auto

lemma map_interleavings: "zs \<in> interleavings xss \<Longrightarrow> map f zs \<in> interleavings (map (map f) xss)"
proof (induction xss arbitrary: zs)
  case (Cons xs xss)
  then obtain ys where "ys \<in> interleavings xss" "zs \<in> shuffles xs ys" by auto
  with Cons.IH [of ys] map_shuffles [of zs xs ys f] show ?case by auto
qed simp

lemma interleavings_map: "zs \<in> interleavings (map (map f) xss) \<Longrightarrow> \<exists>us \<in> interleavings xss. zs = map f us"
proof (induction xss arbitrary: zs)
  case (Cons xs xss)
  then obtain ys where ys: "ys \<in> interleavings (map (map f) xss)" "zs \<in> shuffles (map f xs) ys" by auto
  from Cons.IH [OF ys(1)] obtain vs where "vs \<in> interleavings xss" "ys = map f vs" by blast
  with shuffles_map [of zs f xs vs] ys(2) show ?case by auto
qed simp

text \<open>Interleaving what is in order on its own is in order.\<close>

lemma ledger_shuffle:
  "zs \<in> shuffles xs ys \<Longrightarrow> ledger A xs = Some A' \<Longrightarrow> ledger B ys = Some B' \<Longrightarrow> ledger (A + B) zs = Some (A' + B')"
proof (induction zs arbitrary: xs ys A B)
  case Nil
  then show ?case by simp
next
  case (Cons z zs)
  obtain b k where z: "z = (b, k)" by (cases z)
  from Cons.prems(1) consider xs' where "xs = z # xs'" "zs \<in> shuffles xs' ys" | ys' where "ys = z # ys'" "zs \<in> shuffles xs ys'"
    unfolding Cons_in_shuffles_iff by (metis list.collapse)
  then show ?case
  proof cases
    case 1
    have "\<exists>C. ledger C xs' = Some A' \<and> ledger (A + B) (z # zs) = ledger (C + B) zs"
    proof (cases b)
      case True
      with Cons.prems(2) z 1(1) show ?thesis by (intro exI [of _ "add_mset k A"]) simp
    next
      case False
      with Cons.prems(2) z 1(1) have "k \<in># A" "ledger (A - {#k#}) xs' = Some A'" by (simp_all split: if_splits)
      with ledger_remove [of k A B zs] False z show ?thesis by (intro exI [of _ "A - {#k#}"]) (simp only: add.commute simp_thms)
    qed
    with Cons.IH [OF 1(2) _ Cons.prems(3)] show ?thesis by auto
  next
    case 2
    have "\<exists>C. ledger C ys' = Some B' \<and> ledger (A + B) (z # zs) = ledger (A + C) zs"
    proof (cases b)
      case True
      with Cons.prems(3) z 2(1) show ?thesis by (intro exI [of _ "add_mset k B"]) simp
    next
      case False
      with Cons.prems(3) z 2(1) have "k \<in># B" "ledger (B - {#k#}) ys' = Some B'" by (simp_all split: if_splits)
      with ledger_remove [of k B A zs] False z show ?thesis by (intro exI [of _ "B - {#k#}"]) (simp only: simp_thms)
    qed
    with Cons.IH [OF 2(2) Cons.prems(2)] show ?thesis by auto
  qed
qed

lemma ledger_interleaving:
  "zs \<in> interleavings xss \<Longrightarrow> \<forall>xs \<in> set xss. ledger {#} xs \<noteq> None \<Longrightarrow>
   ledger {#} zs = Some (\<Sum>xs\<leftarrow>xss. the (ledger {#} xs))"
proof (induction xss arbitrary: zs)
  case (Cons xs xss)
  then obtain ys where ys: "zs \<in> shuffles xs ys" "ledger {#} ys = Some (\<Sum>xs\<leftarrow>xss. the (ledger {#} xs))" by auto
  from Cons.prems(2) obtain N where "ledger {#} xs = Some N" by auto
  with ledger_shuffle [OF ys(1), of "{#}" N "{#}"] ys(2) show ?case by simp
qed simp

section \<open>The table of a ledger\<close>

text \<open>The rules of one chain that the keys in place account for.\<close>

definition placed :: "('k \<Rightarrow> rule list) \<Rightarrow> (string \<Rightarrow> 'r option) \<Rightarrow> string \<Rightarrow> 'k multiset \<Rightarrow> 'r multiset" where
  "placed rules denote c M = (\<Sum>k \<in># M. mset (denoted denote c (rules k)))"

lemma placed_simps [simp]:
  "placed rules denote c {#} = {#}"
  "placed rules denote c (add_mset k M) = mset (denoted denote c (rules k)) + placed rules denote c M"
  by (simp_all add: placed_def)

lemma placed_remove:
  "k \<in># M \<Longrightarrow> placed rules denote c M = mset (denoted denote c (rules k)) + placed rules denote c (M - {#k#})"
  by (metis insert_DiffM placed_simps(2))

context rule_pair
begin

definition entry_commands :: "bool \<times> 'k \<Rightarrow> string list" where
  "entry_commands q = (case q of (b, k) \<Rightarrow> projr ((if b then install else remove) k))"

lemma installs_commands:
  "list_all fits ks \<Longrightarrow> concat (map entry_commands (map (Pair True) ks)) = map append_cmd (all_rules ks)"
  by (induction ks) (auto simp: all_rules_def entry_commands_def install_eq)

lemma removes_commands:
  "list_all fits ks \<Longrightarrow> concat (map entry_commands (map (Pair False) ks)) = map delete_cmd (all_rules ks)"
  by (induction ks) (auto simp: all_rules_def entry_commands_def remove_eq)

text \<open>
  Installing and removing in any order that never removes what is not in place: the table
  is what it was, and the rules of the keys in place.
\<close>

lemma ledger_table:
  assumes "iptables_semantics exec denote chain"
    and "ledger M qs = Some N" "\<forall>k \<in> snd ` set qs. fits k \<and> plain_key k"
    and "mset (chain t c) = B + placed rules denote c M"
  shows "mset (chain (fold exec (concat (map entry_commands qs)) t) c) = B + placed rules denote c N"
  using assms(2-)
proof (induction M qs arbitrary: t rule: ledger.induct)
  case (2 M k qs)
  have p: "proper_rules (rules k)" and f: "fits k" using 2(3) by (simp_all add: rules_proper)
  have "mset (chain (fold exec (entry_commands (True, k)) t) c) = B + placed rules denote c (add_mset k M)"
    using exec_appends [OF assms(1) p, of t c] 2(4) f by (simp add: entry_commands_def install_eq)
  with 2 show ?case by simp
next
  case (3 M k qs)
  have p: "proper_rules (rules k)" and f: "fits k" using 3(3) by (simp_all add: rules_proper)
  have k: "k \<in># M" using 3(2) by (simp split: if_splits)
  have "mset (chain (fold exec (entry_commands (False, k)) t) c) = B + placed rules denote c (M - {#k#})"
    using exec_deletes [OF assms(1) p, of t c] 3(4) f
    by (simp add: entry_commands_def remove_eq placed_remove [OF k, of rules denote c])
  with 3 k show ?case by simp
qed simp

end

end
