(* ===== verification/Node_Requests.thy ===== *)
theory Node_Requests
  imports Session_Properties Node_Properties Rule_Ledgers
begin

text \<open>
  What an overlay node makes of the connections of senders: the connections that the exchanges
  of a sender are, and their commands and threads at the node, one request after another,
  whichever sender each comes from.
\<close>

section \<open>The connections of a node\<close>

text \<open>
  An exchange of the sender is a connection to one address; what the node there receives is
  the rules that are sent over it.
\<close>

fun sent_rules :: "node_io list \<Rightarrow> stream" where
  "sent_rules [] = []"
| "sent_rules (Send_Rule b # ios) = b # sent_rules ios"
| "sent_rules (io # ios) = sent_rules ios"

definition connects_to :: "string \<Rightarrow> node_io list \<Rightarrow> bool" where
  "connects_to addr ios \<longleftrightarrow> list_ex (\<lambda>io. case io of Connect ip p \<Rightarrow> ip = addr | _ \<Rightarrow> False) ios"

definition connections_to :: "string \<Rightarrow> node_io list list \<Rightarrow> stream list" where
  "connections_to addr exs = map sent_rules (filter (connects_to addr) exs)"

lemma connections_to_append: "connections_to addr (xs @ ys) = connections_to addr xs @ connections_to addr ys"
  by (simp add: connections_to_def)

lemma connections_of_flows:
  "connections_to addr (map (flow_exchange op rp dar env ty) ks) =
     map (\<lambda>k. sent_rules (flow_exchange op rp dar env ty k)) (filter (\<lambda>(src, dst, hop). hop = addr) ks)"
proof -
  have "connects_to addr (flow_exchange op rp dar env ty k) = (case k of (src, dst, hop) \<Rightarrow> hop = addr)" for k
    by (cases k) (simp add: connects_to_def flow_exchange_def)
  then show ?thesis by (simp add: connections_to_def filter_map comp_def)
qed

section \<open>What the node does\<close>

definition node_key :: "string \<Rightarrow> int \<Rightarrow> string \<times> string \<times> string \<Rightarrow> string \<times> string \<times> string \<times> string" where
  "node_key addr rp k = (case k of (src, dst, hop) \<Rightarrow> (addr, src, dst, dec_int rp))"

definition ends_ok :: "string \<times> string \<times> string \<Rightarrow> bool" where
  "ends_ok k = (case k of (src, dst, hop) \<Rightarrow> addr_ok src \<and> addr_ok dst)"

section \<open>Requests\<close>

text \<open>One connection of a sender, for one of its flows, with rules of type A or of type D.\<close>

record node_request =
  appends :: bool
  request_node_port :: int
  request_port :: int
  request_dar :: string
  request_env :: flow_env
  request_flow :: "string \<times> string \<times> string"

definition request_stream :: "node_request \<Rightarrow> stream" where
  "request_stream q = sent_rules (flow_exchange (request_node_port q) (request_port q) (request_dar q) (request_env q)
     (if appends q then 1 else 0) (request_flow q))"

definition request_ok :: "node_request \<Rightarrow> bool" where
  "request_ok q \<longleftrightarrow> addr_ok (request_dar q) \<and> 0 \<le> request_port q \<and> request_port q < 100000 \<and>
     RULE_SIZE \<le> Suc (length (junk (request_env q))) \<and> ends_ok (request_flow q)"

definition request_entry :: "string \<Rightarrow> node_request \<Rightarrow> bool \<times> string \<times> string \<times> string \<times> string" where
  "request_entry addr q = (appends q, node_key addr (request_port q) (request_flow q))"

text \<open>The Darshana client that a node runs for a request.\<close>

definition request_client :: "string \<Rightarrow> node_request \<Rightarrow> string" where
  "request_client addr q = (case request_flow q of (src, dst, hop) \<Rightarrow>
     client_command addr (request_dar q) (dec_int DAR_PORT) dst (dec_int 11130))"

fun thread_effects :: "node_effect list \<Rightarrow> node_effect list" where
  "thread_effects [] = []"
| "thread_effects (Run_Thread c # es) = Run_Thread c # thread_effects es"
| "thread_effects (Cancel_Thread t # es) = Cancel_Thread t # thread_effects es"
| "thread_effects (e # es) = thread_effects es"

lemma thread_effects_append [simp]: "thread_effects (es @ fs) = thread_effects es @ thread_effects fs"
  by (induction es rule: thread_effects.induct) simp_all

lemma thread_effects_System [simp]: "thread_effects (map System cs) = []"
  by (induction cs) simp_all

lemma entry_commands_node:
  "node_nat.entry_commands (b, (ov, src, dst, port)) = projr ((if b then forwardPaths else removeRules) ov src dst port)"
  by (simp add: node_nat.entry_commands_def)

lemma serve_request:
  assumes n: "node_ok n" and q: "request_ok q" and th: "appends q \<or> darshana_client_pthread n \<noteq> None"
  obtains n' es where "serve_connection (request_stream q) n = Inr n'" "node_ok n'"
    "overlay_addr n' = overlay_addr n" "effects n' = effects n @ es"
    "nat_commands es = node_nat.entry_commands (request_entry (overlay_addr n) q)"
    "node_fits (snd (request_entry (overlay_addr n) q))"
    "thread_effects es = [if appends q then Run_Thread (request_client (overlay_addr n) q)
       else Cancel_Thread (the (darshana_client_pthread n))]"
    "if appends q then es \<noteq> [] \<and> last es = Run_Thread (request_client (overlay_addr n) q) \<and>
       darshana_client_pthread n' = Some (length (effects n') - 1)
     else darshana_client_pthread n' = darshana_client_pthread n"
proof -
  let ?ty = "if appends q then 1 else 0 :: int" and ?rp = "request_port q" and ?dar = "request_dar q"
    and ?j = "junk (request_env q)" and ?n = "overlay_addr n"
  obtain src dst hop where k: "request_flow q = (src, dst, hop)" by (cases "request_flow q")
  have ok: "addr_ok src" "addr_ok dst" "addr_ok ?dar" "0 \<le> ?rp" "?rp < 100000" and j: "RULE_SIZE \<le> Suc (length ?j)"
    using q by (simp_all add: request_ok_def k ends_ok_def)
  have fk: "forward_key_ok (src, dst, ?rp, ?ty)" using ok by (simp add: forward_key_ok_def addr_ok_def)
  have dk: "darshana_key_ok (?dar, DAR_PORT, dst, 11130, ?ty)"
    using ok by (simp add: darshana_key_ok_def addr_ok_def DAR_PORT_def)
  obtain fs ds where b: "build_hop_forward_rules_spec src dst ?rp ?ty = Inr fs"
    "build_hop_run_darshana_spec ?dar DAR_PORT dst 11130 ?ty = Inr ds"
    using build_hop_forward_rules_spec_eq [OF fk] build_hop_run_darshana_spec_eq [OF dk] by blast
  have th': "?ty = 1 \<or> darshana_client_pthread n \<noteq> None" using th by auto
  let ?e = "if ?ty = 1 then Run_Thread (client_command ?n ?dar (dec_int DAR_PORT) dst (dec_int 11130))
        else Cancel_Thread (the (darshana_client_pthread n))"
  obtain n' r1 r2 cmds where r:
    "serve_connection [rule_array fs ?j, rule_array ds ?j] n = Inr n'" "node_ok n'" "overlay_addr n' = ?n"
    "darshana_client_pthread n' = (if ?ty = 1 then Some (length (effects n') - 1) else darshana_client_pthread n)"
    "(if ?ty = 1 then forwardPaths else removeRules) ?n src dst (dec_int ?rp) = Inr cmds"
    "effects n' = effects n @ Reply r1 # map System cmds @ [Reply r2, ?e]"
    using serve_rule_messages [OF n fk dk b j j th'] by metis
  have "node_fits (?n, src, dst, dec_int ?rp)"
    using r(5) by (auto simp: forwardPaths_eq removeRules_eq split: if_splits)
  moreover have "cmds = node_nat.entry_commands (request_entry ?n q)"
    using r(5) by (simp add: request_entry_def node_key_def k entry_commands_node split: if_splits)
  ultimately show thesis
    using r b by (intro that [of n' "Reply r1 # map System cmds @ [Reply r2, ?e]"])
      (simp_all add: request_stream_def request_entry_def node_key_def request_client_def k flow_exchange_def split: if_splits)
qed

text \<open>
  Any sequence of requests that never removes what is not in place: all are served, each with
  its own commands.
\<close>

lemma serve_requests:
  assumes "node_ok n" "list_all request_ok qs" "ledger M (map (request_entry (overlay_addr n)) qs) = Some N"
    and "M \<noteq> {#} \<longrightarrow> darshana_client_pthread n \<noteq> None"
  shows "\<exists>n' es. start_overlay (map request_stream qs) n = Inr n' \<and> node_ok n' \<and> overlay_addr n' = overlay_addr n \<and>
    effects n' = effects n @ es \<and>
    nat_commands es = concat (map (\<lambda>q. node_nat.entry_commands (request_entry (overlay_addr n) q)) qs) \<and>
    (\<forall>k \<in> snd ` request_entry (overlay_addr n) ` set qs. node_fits k)"
  using assms
proof (induction qs arbitrary: n M)
  case Nil
  then show ?case by (intro exI [of _ n] exI [of _ "[]"]) (simp add: start_overlay_def)
next
  case (Cons q qs)
  obtain k where e: "request_entry (overlay_addr n) q = (appends q, k)" by (simp add: request_entry_def)
  have q: "request_ok q" "appends q \<or> darshana_client_pthread n \<noteq> None"
    using Cons.prems(2-4) e by (cases "appends q"; auto split: if_splits)+
  obtain n1 es1 where 1: "serve_connection (request_stream q) n = Inr n1" "node_ok n1"
    "overlay_addr n1 = overlay_addr n" "effects n1 = effects n @ es1"
    "nat_commands es1 = node_nat.entry_commands (request_entry (overlay_addr n) q)"
    "node_fits (snd (request_entry (overlay_addr n) q))"
    "if appends q then es1 \<noteq> [] \<and> last es1 = Run_Thread (request_client (overlay_addr n) q) \<and>
       darshana_client_pthread n1 = Some (length (effects n1) - 1)
     else darshana_client_pthread n1 = darshana_client_pthread n"
    by (rule serve_request [OF Cons.prems(1) q])
  obtain M' where M': "ledger M' (map (request_entry (overlay_addr n1)) qs) = Some N"
    using Cons.prems(3) e unfolding 1(3) by (cases "appends q") (auto split: if_splits)
  have "darshana_client_pthread n1 \<noteq> None" using 1(7) q(2) by (auto split: if_splits)
  with Cons.IH [OF 1(2) _ M'] Cons.prems(2) obtain n2 es2 where
    2: "start_overlay (map request_stream qs) n1 = Inr n2" "node_ok n2" "overlay_addr n2 = overlay_addr n1"
    "effects n2 = effects n1 @ es2"
    "nat_commands es2 = concat (map (\<lambda>q. node_nat.entry_commands (request_entry (overlay_addr n1) q)) qs)"
    "\<forall>k \<in> snd ` request_entry (overlay_addr n1) ` set qs. node_fits k" by auto
  from 1 2 show ?case by (intro exI [of _ n2] exI [of _ "es1 @ es2"]) (simp add: start_overlay_def)
qed

lemma start_overlay_append: "start_overlay (xs @ ys) n = rbind (start_overlay xs n) (\<lambda>m. start_overlay ys m)"
  by (simp add: start_overlay_def run_steps_append)

end
