(* ===== verification/Network_Session.thy ===== *)
theory Network_Session
  imports Node_Requests
begin

text \<open>
  The sender and its overlay nodes together: what a node makes of all the connections that a
  whole session of the sender opens to it, from the set-up to the teardown.
\<close>

section \<open>A session at one node\<close>

definition flow_requests :: "bool \<Rightarrow> setup_sender_arg \<Rightarrow> string \<Rightarrow> flow_env \<Rightarrow> (string \<times> string \<times> string) list \<Rightarrow> node_request list" where
  "flow_requests b arg dar env ks = map (\<lambda>k. \<lparr>appends = b, request_node_port = overlay_port arg,
     request_port = receiver_port arg, request_dar = dar, request_env = env, request_flow = k\<rparr>) ks"

definition session_requests ::
    "setup_sender_arg \<Rightarrow> string \<Rightarrow> flow_env \<Rightarrow> flow_env \<Rightarrow> (string \<times> string \<times> string) list \<Rightarrow> node_request list" where
  "session_requests arg dar env env' ks = flow_requests True arg dar env ks @ flow_requests False arg dar env' ks"

lemma flow_requests_length [simp]: "length (flow_requests b arg dar env ks) = length ks"
  by (simp add: flow_requests_def)

lemma flow_requests_stream:
  "map request_stream (flow_requests b arg dar env ks) =
     map (\<lambda>k. sent_rules (flow_exchange (overlay_port arg) (receiver_port arg) dar env (if b then 1 else 0) k)) ks"
  by (simp add: flow_requests_def request_stream_def)

lemma flow_requests_entries:
  "map (request_entry addr) (flow_requests b arg dar env ks) = map (Pair b) (map (node_key addr (receiver_port arg)) ks)"
  by (simp add: flow_requests_def request_entry_def)

lemma session_requests_ledger: "ledger {#} (map (request_entry addr) (session_requests arg dar env env' ks)) = Some {#}"
  unfolding session_requests_def map_append flow_requests_entries by (rule ledger_session)

lemma session_requests_ok:
  assumes "addr_ok dar" "0 \<le> receiver_port arg" "receiver_port arg < 100000"
    and "RULE_SIZE \<le> Suc (length (junk env))" "RULE_SIZE \<le> Suc (length (junk env'))" "list_all ends_ok ks"
  shows "list_all request_ok (session_requests arg dar env env' ks)"
  using assms by (auto simp: session_requests_def flow_requests_def request_ok_def list_all_iff)

text \<open>The keys of proper requests have plain text, so that their rules are proper.\<close>

lemma request_key_plain:
  assumes "request_ok q" "plain addr"
  shows "case snd (request_entry addr q) of (ov, src, dst, port) \<Rightarrow> plain ov \<and> plain src \<and> plain dst \<and> plain port"
  using assms plain_dec_int [of "request_port q"]
  by (auto simp: request_ok_def request_entry_def node_key_def ends_ok_def addr_ok_def split: prod.splits)

text \<open>What requests in order make of the NAT table of the node.\<close>

lemma requests_table:
  assumes sem: "iptables_semantics exec denote chain" and n: "node_ok n" "plain (overlay_addr n)"
    and qs: "list_all request_ok qs" "ledger {#} (map (request_entry (overlay_addr n)) qs) = Some N"
  obtains n' es where "start_overlay (map request_stream qs) n = Inr n'" "node_ok n'" "effects n' = effects n @ es"
    "nat_commands es = concat (map (\<lambda>q. node_nat.entry_commands (request_entry (overlay_addr n) q)) qs)"
    "\<And>t c. mset (chain (fold exec (nat_commands es) t) c) = mset (chain t c) + placed node_rules denote c N"
proof -
  let ?es = "map (request_entry (overlay_addr n)) qs"
  obtain n' es where
    1: "start_overlay (map request_stream qs) n = Inr n'" "node_ok n'" "effects n' = effects n @ es"
      "nat_commands es = concat (map (\<lambda>q. node_nat.entry_commands (request_entry (overlay_addr n) q)) qs)"
      "\<forall>k \<in> snd ` request_entry (overlay_addr n) ` set qs. node_fits k"
    using serve_requests [OF n(1) qs] by auto
  have "\<forall>k \<in> snd ` set ?es. node_fits k \<and> (case k of (ov, src, dst, port) \<Rightarrow> plain ov \<and> plain src \<and> plain dst \<and> plain port)"
    using 1(5) request_key_plain [OF _ n(2)] qs(1) by (auto simp: list_all_iff)
  from node_nat.ledger_table [OF sem qs(2) this]
  have "mset (chain (fold exec (nat_commands es) t) c) = mset (chain t c) + placed node_rules denote c N" for t c
    by (simp add: 1(4) comp_def)
  with 1(1-4) that show thesis by blast
qed

text \<open>
  The threads of requests of one type: every request of type A creates one, and every request of
  type D cancels the one that was created last.
\<close>

lemma append_threads:
  assumes "node_ok n" "list_all request_ok qs" "list_all appends qs"
  shows "\<exists>n' es. start_overlay (map request_stream qs) n = Inr n' \<and> node_ok n' \<and> overlay_addr n' = overlay_addr n \<and>
    effects n' = effects n @ es \<and>
    thread_effects es = map (\<lambda>q. Run_Thread (request_client (overlay_addr n) q)) qs \<and>
    (qs \<noteq> [] \<longrightarrow> es \<noteq> [] \<and> last es = Run_Thread (request_client (overlay_addr n) (last qs)) \<and>
       darshana_client_pthread n' = Some (length (effects n') - 1))"
  using assms
proof (induction qs arbitrary: n)
  case Nil
  then show ?case by (intro exI [of _ n] exI [of _ "[]"]) (simp add: start_overlay_def)
next
  case (Cons q qs)
  have q: "request_ok q" "appends q \<or> darshana_client_pthread n \<noteq> None" "appends q" using Cons.prems(2,3) by simp_all
  obtain n1 es1 where 1: "serve_connection (request_stream q) n = Inr n1" "node_ok n1"
    "overlay_addr n1 = overlay_addr n" "effects n1 = effects n @ es1"
    "thread_effects es1 = [Run_Thread (request_client (overlay_addr n) q)]"
    "es1 \<noteq> []" "last es1 = Run_Thread (request_client (overlay_addr n) q)"
    "darshana_client_pthread n1 = Some (length (effects n1) - 1)"
    by (rule serve_request [OF Cons.prems(1) q(1,2)]) (simp add: q(3))
  from Cons.IH [OF 1(2)] Cons.prems(2,3) obtain n2 es2 where
    2: "start_overlay (map request_stream qs) n1 = Inr n2" "node_ok n2" "overlay_addr n2 = overlay_addr n1"
    "effects n2 = effects n1 @ es2"
    "thread_effects es2 = map (\<lambda>q. Run_Thread (request_client (overlay_addr n1) q)) qs"
    "qs \<noteq> [] \<longrightarrow> es2 \<noteq> [] \<and> last es2 = Run_Thread (request_client (overlay_addr n1) (last qs)) \<and>
       darshana_client_pthread n2 = Some (length (effects n2) - 1)" by auto
  have "qs = [] \<Longrightarrow> n2 = n1" using 2(1) by (simp add: start_overlay_def)
  with 1 2 show ?case
    by (intro exI [of _ n2] exI [of _ "es1 @ es2"]) (cases "qs = []"; simp add: start_overlay_def)
qed

lemma remove_threads:
  assumes "node_ok n" "list_all request_ok qs" "list_all (\<lambda>q. \<not> appends q) qs" "qs \<noteq> [] \<longrightarrow> darshana_client_pthread n = Some t"
  shows "\<exists>n' es. start_overlay (map request_stream qs) n = Inr n' \<and> effects n' = effects n @ es \<and>
    thread_effects es = replicate (length qs) (Cancel_Thread t)"
  using assms
proof (induction qs arbitrary: n)
  case Nil
  then show ?case by (intro exI [of _ n] exI [of _ "[]"]) (simp add: start_overlay_def)
next
  case (Cons q qs)
  have q: "request_ok q" "appends q \<or> darshana_client_pthread n \<noteq> None" "\<not> appends q" using Cons.prems(2-4) by simp_all
  obtain n1 es1 where 1: "serve_connection (request_stream q) n = Inr n1" "node_ok n1" "effects n1 = effects n @ es1"
    "thread_effects es1 = [Cancel_Thread (the (darshana_client_pthread n))]"
    "darshana_client_pthread n1 = darshana_client_pthread n"
    by (rule serve_request [OF Cons.prems(1) q(1,2)]) (simp add: q(3))
  from Cons.IH [OF 1(2)] Cons.prems(2-4) 1(5) obtain n2 es2 where
    2: "start_overlay (map request_stream qs) n1 = Inr n2" "effects n2 = effects n1 @ es2"
    "thread_effects es2 = replicate (length qs) (Cancel_Thread t)" by auto
  from 1 2 Cons.prems(4) show ?case by (intro exI [of _ n2] exI [of _ "es1 @ es2"]) (simp add: start_overlay_def)
qed

lemma run_in_threads: "Run_Thread c \<in> set es \<Longrightarrow> Run_Thread c \<in> set (thread_effects es)"
  by (induction es rule: thread_effects.induct) auto

lemma session_threads:
  assumes "node_ok n" "list_all request_ok (session_requests arg dar env env' ks)"
    and "start_overlay (map request_stream (session_requests arg dar env env' ks)) n = Inr n'"
  obtains es t where "effects n' = effects n @ es"
    "thread_effects es = map (\<lambda>q. Run_Thread (request_client (overlay_addr n) q)) (flow_requests True arg dar env ks) @
       replicate (length ks) (Cancel_Thread t)"
    "ks = [] \<or> length (effects n) \<le> t \<and>
       effects n' ! t = Run_Thread (request_client (overlay_addr n) (last (flow_requests True arg dar env ks))) \<and>
       (\<forall>c. Run_Thread c \<notin> set (drop (Suc t) (effects n')))"
proof -
  let ?as = "flow_requests True arg dar env ks" and ?ds = "flow_requests False arg dar env' ks"
  have ok: "list_all request_ok ?as" "list_all request_ok ?ds" using assms(2) by (simp_all add: session_requests_def)
  have ne: "?as = [] \<longleftrightarrow> ks = []" "?ds = [] \<longleftrightarrow> ks = []" by (simp_all add: flow_requests_def)
  have ty: "list_all appends ?as" "list_all (\<lambda>q. \<not> appends q) ?ds" by (simp_all add: flow_requests_def list_all_iff)
  obtain n1 es1 where 1: "start_overlay (map request_stream ?as) n = Inr n1" "node_ok n1" "effects n1 = effects n @ es1"
    "thread_effects es1 = map (\<lambda>q. Run_Thread (request_client (overlay_addr n) q)) ?as"
    "ks \<noteq> [] \<longrightarrow> es1 \<noteq> [] \<and> last es1 = Run_Thread (request_client (overlay_addr n) (last ?as)) \<and>
       darshana_client_pthread n1 = Some (length (effects n1) - 1)"
    using append_threads [OF assms(1) ok(1) ty(1)] unfolding ne by blast
  let ?t = "length (effects n1) - 1"
  have t: "?ds \<noteq> [] \<longrightarrow> darshana_client_pthread n1 = Some ?t" using 1(5) ne by simp
  obtain n2 es2 where 2: "start_overlay (map request_stream ?ds) n1 = Inr n2" "effects n2 = effects n1 @ es2"
    "thread_effects es2 = replicate (length ?ds) (Cancel_Thread ?t)"
    using remove_threads [OF 1(2) ok(2) ty(2) t] by blast
  have n2: "n2 = n'" using assms(3) 1(1) 2(1) by (simp add: session_requests_def start_overlay_append)
  have "length (effects n) \<le> ?t \<and> effects n' ! ?t = Run_Thread (request_client (overlay_addr n) (last ?as)) \<and>
      (\<forall>c. Run_Thread c \<notin> set (drop (Suc ?t) (effects n')))" if "ks \<noteq> []"
  proof -
    have es1: "es1 \<noteq> []" "last es1 = Run_Thread (request_client (overlay_addr n) (last ?as))" using 1(5) that by simp_all
    have len: "Suc ?t = length (effects n1)" "length (effects n) \<le> ?t" using es1(1) 1(3) by (cases es1; simp)+
    have "effects n1 ! ?t = last es1" using es1(1) 1(3) last_conv_nth [of "effects n1"] by simp
    moreover have "effects n' ! ?t = effects n1 ! ?t" using 2(2) len(1) unfolding n2 by (simp add: nth_append)
    moreover have "drop (Suc ?t) (effects n') = es2" unfolding len(1) using 2(2) n2 by simp
    moreover have "Run_Thread c \<notin> set es2" for c using run_in_threads [of c es2] 2(3) by auto
    ultimately show ?thesis using es1(2) len(2) by simp
  qed
  with 1(3,4) 2(2,3) n2 show thesis by (intro that [of "es1 @ es2" ?t]) auto
qed

section \<open>Properties\<close>

lemma flow_keys_ends_ok:
  assumes "list_all addr_ok ss" "list_all addr_ok ds"
  shows "list_all ends_ok (flow_keys ss ds hs)"
  using assms by (auto simp: flow_keys_def ends_ok_def list_all_iff)

text \<open>The connections that a whole session opens to one address, as requests.\<close>

lemma session_requests_sent:
  assumes "session_ready env arg ls as ifap s" "log_open s" "monitored (monitor s) al ps"
    and "replies_ok env'" "list_all inet_ok ifap'" "iptables_semantics exec denote chain"
  defines "ks \<equiv> flow_keys (addresses ifap) as (map line_ip ls)"
  obtains s1 s2 cs vs exs where "setup_sender env arg s = Some (Inr s1)" "teardown_sender env' ifap' arg s1 = Inr s2"
    "commands s2 = commands s @ cs @ vs" "clean_virtual_interfaces ifap' = Inr vs" "exchanges s2 = exchanges s @ exs"
    "cs = map append_cmd (sender_nat.all_rules ks) @ map delete_cmd (sender_nat.all_rules ks)"
    "proper_rules (sender_nat.all_rules ks)"
    "connections_to addr exs = map request_stream (session_requests arg (addresses ifap ! 0) (flow_environment env) env'
       (filter (\<lambda>(src, dst, hop). hop = addr) ks))"
    "list_all request_ok (session_requests arg (addresses ifap ! 0) (flow_environment env) env'
       (filter (\<lambda>(src, dst, hop). hop = addr) ks))"
proof -
  note r = assms(1) [unfolded session_ready_def]
  let ?op = "overlay_port arg" and ?rp = "receiver_port arg" and ?dar = "addresses ifap ! 0"
    and ?here = "filter (\<lambda>(src, dst, hop). hop = addr) ks"
  obtain s1 s2 cs vs where s: "setup_sender env arg s = Some (Inr s1)" "teardown_sender env' ifap' arg s1 = Inr s2"
    "commands s2 = commands s @ cs @ vs" "clean_virtual_interfaces ifap' = Inr vs"
    "exchanges s2 = exchanges s @ map (flow_exchange ?op ?rp ?dar (flow_environment env) 1) ks @
      map (flow_exchange ?op ?rp ?dar env' 0) ks"
    "cs = map append_cmd (sender_nat.all_rules ks) @ map delete_cmd (sender_nat.all_rules ks)"
    "proper_rules (sender_nat.all_rules ks)"
    unfolding ks_def by (rule session_runs [OF assms(1-6)]) blast
  have "ls \<noteq> []" using r by (auto dest: adapter_answersD)
  then have "addresses ifap \<noteq> []" using r by auto
  then have dar: "addr_ok ?dar" using r by (simp add: list_all_length)
  have rp: "0 \<le> ?rp" "?rp < 100000" using r by simp_all
  have j: "RULE_SIZE \<le> Suc (length (junk (flow_environment env)))" "RULE_SIZE \<le> Suc (length (junk env'))"
    using r assms(4) by (simp_all add: replies_ok_def)
  have "list_all ends_ok ?here"
    using flow_keys_ends_ok [of "addresses ifap" as "map line_ip ls"] r unfolding ks_def by (auto simp: list_all_iff)
  from session_requests_ok [OF dar rp j this] s show thesis
    by (intro that [OF s(1-5)])
      (simp_all add: connections_to_append connections_of_flows session_requests_def flow_requests_stream)
qed

text \<open>The commands of the requests of a session at one node.\<close>

lemma session_requests_commands:
  assumes "\<forall>k \<in> snd ` request_entry addr ` set (session_requests arg dar env env' ks). node_fits k"
  shows "concat (map (\<lambda>q. node_nat.entry_commands (request_entry addr q)) (session_requests arg dar env env' ks)) =
    map append_cmd (node_nat.all_rules (map (node_key addr (receiver_port arg)) ks)) @
    map delete_cmd (node_nat.all_rules (map (node_key addr (receiver_port arg)) ks))"
proof -
  have e: "map (request_entry addr) (session_requests arg dar env env' ks) =
      map (Pair True) (map (node_key addr (receiver_port arg)) ks) @ map (Pair False) (map (node_key addr (receiver_port arg)) ks)"
    unfolding session_requests_def map_append flow_requests_entries ..
  have "snd ` request_entry addr ` set (session_requests arg dar env env' ks) = set (map (node_key addr (receiver_port arg)) ks)"
    unfolding set_map [symmetric] e by (auto simp: image_iff)
  with assms have "list_all node_fits (map (node_key addr (receiver_port arg)) ks)" by (simp only: list_all_iff)
  from node_nat.installs_commands [OF this] node_nat.removes_commands [OF this]
  have "concat (map node_nat.entry_commands (map (request_entry addr) (session_requests arg dar env env' ks))) =
      map append_cmd (node_nat.all_rules (map (node_key addr (receiver_port arg)) ks)) @
      map delete_cmd (node_nat.all_rules (map (node_key addr (receiver_port arg)) ks))"
    unfolding e map_append concat_append by (simp only:)
  then show ?thesis by (simp add: comp_def)
qed

lemma node_rules_of_flows_proper:
  assumes "list_all ends_ok ks" "plain addr" "0 \<le> rp"
  shows "proper_rules (node_nat.all_rules (map (node_key addr rp) ks))"
  using assms plain_dec_int [of rp]
  by (intro node_nat.all_rules_proper) (auto simp: list_all_iff node_key_def ends_ok_def addr_ok_def split: prod.splits)

text \<open>C1.
  The whole network after a whole session without STUN: for every ready session and every
  overlay node, the node that serves the connections that the sender opens to its address, from
  the set-up to the teardown, serves all of them, one for the set-up and one for the teardown of
  every flow over it.  Sender and node install exactly the rules of the flows and then delete
  exactly those, so that, for any iptables with the documented behaviour on either side, every
  chain of either NAT table ends with the rules it had before, each as often, and is exactly as it
  was if it held none of the rules of the session before.\<close>

theorem network_restored:
  assumes "session_ready env arg ls as ifap s" "log_open s" "monitored (monitor s) al ps"
    and "replies_ok env'" "list_all inet_ok ifap'"
    and "iptables_semantics exec denote chain" "iptables_semantics exec' denote' chain'"
    and "node_ok n" "plain (overlay_addr n)"
    and "conns = connections_to (overlay_addr n)"
    and "ks = flow_keys (addresses ifap) as (map line_ip ls)"
    and "here = filter (\<lambda>(src, dst, hop). hop = overlay_addr n) ks"
    and "rs = sender_nat.all_rules ks"
    and "rs' = node_nat.all_rules (map (node_key (overlay_addr n) (receiver_port arg)) here)"
  shows "\<exists>s1 s2 cs vs n' es. setup_sender env arg s = Some (Inr s1) \<and> teardown_sender env' ifap' arg s1 = Inr s2 \<and>
    commands s2 = commands s @ cs @ vs \<and> clean_virtual_interfaces ifap' = Inr vs \<and>
    cs = map append_cmd rs @ map delete_cmd rs \<and> restores exec denote chain rs cs \<and>
    conns (exchanges s2) = conns (exchanges s) @ conns (drop (length (exchanges s)) (exchanges s2)) \<and>
    length (conns (drop (length (exchanges s)) (exchanges s2))) = 2 * length here \<and>
    start_overlay (conns (drop (length (exchanges s)) (exchanges s2))) n = Inr n' \<and> effects n' = effects n @ es \<and>
    nat_commands es = map append_cmd rs' @ map delete_cmd rs' \<and> restores exec' denote' chain' rs' (nat_commands es)"
proof -
  obtain s1 s2 cs vs exs qs where s: "setup_sender env arg s = Some (Inr s1)" "teardown_sender env' ifap' arg s1 = Inr s2"
    "commands s2 = commands s @ cs @ vs" "clean_virtual_interfaces ifap' = Inr vs" "exchanges s2 = exchanges s @ exs"
    "cs = map append_cmd rs @ map delete_cmd rs" "proper_rules rs"
    "qs = session_requests arg (addresses ifap ! 0) (flow_environment env) env' here"
    "connections_to (overlay_addr n) exs = map request_stream qs" "list_all request_ok qs"
    unfolding assms(11-13) by (rule session_requests_sent [OF assms(1-6), of "overlay_addr n"]) blast
  have l: "ledger {#} (map (request_entry (overlay_addr n)) qs) = Some {#}"
    unfolding s(8) by (rule session_requests_ledger)
  obtain n' es where n': "start_overlay (map request_stream qs) n = Inr n'" "effects n' = effects n @ es"
    "nat_commands es = concat (map (\<lambda>q. node_nat.entry_commands (request_entry (overlay_addr n) q)) qs)"
    "\<forall>k \<in> snd ` request_entry (overlay_addr n) ` set qs. node_fits k"
    using serve_requests [OF assms(8) s(10) l] by auto
  have es: "nat_commands es = map append_cmd rs' @ map delete_cmd rs'"
    unfolding n'(3) s(8) assms(14) by (rule session_requests_commands [OF n'(4) [unfolded s(8)]])
  have "list_all ends_ok here"
    using flow_keys_ends_ok [of "addresses ifap" as "map line_ip ls"] assms(1)
    unfolding assms(11,12) by (auto simp: list_all_iff session_ready_def)
  then have "proper_rules rs'"
    unfolding assms(14) using assms(1,9) by (intro node_rules_of_flows_proper) (simp_all add: session_ready_def)
  from removal_restores [OF assms(6) s(7)] removal_restores [OF assms(7) this] s n'(1,2) es show ?thesis
    by (intro exI [of _ s1] exI [of _ s2] exI [of _ cs] exI [of _ vs] exI [of _ n'] exI [of _ es])
      (simp add: assms(10) connections_to_append session_requests_def)
qed

theorem network_restored_witness:
  "\<exists>s1 s2 cs n' es. setup_sender demo_env demo_arg demo_sender = Some (Inr s1) \<and>
    teardown_sender quiet_env sample_interfaces demo_arg s1 = Inr s2 \<and> commands s2 = commands demo_sender @ cs \<and>
    start_overlay (connections_to ''10.0.0.7'' (drop (length (exchanges demo_sender)) (exchanges s2)))
      (sample_node\<lparr>overlay_addr := ''10.0.0.7''\<rparr>) = Inr n' \<and>
    effects n' = es \<and> nat_commands es \<noteq> [] \<and>
    (\<forall>c. fold text_exec (nat_commands es) (\<lambda>c. [''other'']) c = [''other''])"
proof -
  let ?n = "sample_node\<lparr>overlay_addr := ''10.0.0.7''\<rparr>"
  have i: "list_all inet_ok sample_interfaces" "clean_virtual_interfaces sample_interfaces = Inr []"
    by (simp_all add: sample_interfaces_def inet_ok_def inet_address_def strcpy_def strchr_def)
  have n: "node_ok ?n" "plain (overlay_addr ?n)" using sample_rules(1) by (simp_all add: node_ok_def plain_char_def)
  have e: "effects ?n = []" "overlay_addr ?n = ''10.0.0.7''" by (simp_all add: sample_node_def)
  have a: "addresses sample_interfaces = [''10.0.0.1'', ''10.0.1.1'']" "map line_ip sample_lines = [''10.0.0.7'', ''10.0.0.8'']"
    by (simp_all add: sample_interfaces_def addresses_def usable_def sample_lines_def line_ip_def)
  have h: "filter (\<lambda>(src, dst, hop). hop = ''10.0.0.7'') (flow_keys (addresses sample_interfaces) [''10.0.0.5''] (map line_ip sample_lines)) =
      [(''10.0.0.1'', ''10.0.0.5'', ''10.0.0.7'')]"
    unfolding a by (simp add: flow_keys_def)
  let ?rs = "node_nat.all_rules (map (node_key ''10.0.0.7'' (receiver_port demo_arg)) [(''10.0.0.1'', ''10.0.0.5'', ''10.0.0.7'')])"
  have r: "?rs \<noteq> []" "''other'' \<notin> set (denoted Some c ?rs)" for c
    by (auto simp: node_nat.all_rules_def node_key_def node_rules_def denoted_def List.map_filter_def)
  obtain s1 s2 cs n' es where w: "setup_sender demo_env demo_arg demo_sender = Some (Inr s1)"
    "teardown_sender quiet_env sample_interfaces demo_arg s1 = Inr s2" "commands s2 = commands demo_sender @ cs"
    "start_overlay (connections_to ''10.0.0.7'' (drop (length (exchanges demo_sender)) (exchanges s2))) ?n = Inr n'"
    "effects n' = es" "nat_commands es = map append_cmd ?rs @ map delete_cmd ?rs" "restores text_exec Some id ?rs (nat_commands es)"
    using network_restored [OF demo_ready demo_monitored(2,1) quiet_env_ok i(1) text_exec_semantics text_exec_semantics n refl refl
      refl refl refl, unfolded e h i(2)] by auto
  have "fold text_exec (nat_commands es) (\<lambda>c. [''other'']) c = [''other'']" for c
    using w(7) r(2) [of c] unfolding restores_def by fastforce
  with w r(1) show ?thesis by auto
qed

text \<open>C9.
  The Darshana clients of a session at one node: it creates one for every flow over it, but keeps
  the handle of the last one only, so the teardown cancels that thread once per flow, and the
  clients of all other flows are never cancelled.\<close>

theorem node_cancels_last_client:
  assumes "session_ready env arg ls as ifap s" "log_open s" "monitored (monitor s) al ps"
    and "replies_ok env'" "list_all inet_ok ifap'" "node_ok n"
    and "conns = connections_to (overlay_addr n)"
    and "here = filter (\<lambda>(src, dst, hop). hop = overlay_addr n) (flow_keys (addresses ifap) as (map line_ip ls))"
    and "client = (\<lambda>(src, dst, hop). client_command (overlay_addr n) (addresses ifap ! 0) (dec_int DAR_PORT) dst (dec_int 11130))"
  shows "\<exists>s1 s2 n' es t. setup_sender env arg s = Some (Inr s1) \<and> teardown_sender env' ifap' arg s1 = Inr s2 \<and>
    start_overlay (conns (drop (length (exchanges s)) (exchanges s2))) n = Inr n' \<and> effects n' = effects n @ es \<and>
    thread_effects es = map (\<lambda>k. Run_Thread (client k)) here @ replicate (length here) (Cancel_Thread t) \<and>
    (here = [] \<or> length (effects n) \<le> t \<and> effects n' ! t = Run_Thread (client (last here)) \<and>
       (\<forall>c. Run_Thread c \<notin> set (drop (Suc t) (effects n'))))"
proof -
  let ?dar = "addresses ifap ! 0" and ?env = "flow_environment env"
  obtain s1 s2 exs where s: "setup_sender env arg s = Some (Inr s1)" "teardown_sender env' ifap' arg s1 = Inr s2"
    "exchanges s2 = exchanges s @ exs"
    "connections_to (overlay_addr n) exs = map request_stream (session_requests arg ?dar ?env env' here)"
    "list_all request_ok (session_requests arg ?dar ?env env' here)"
    unfolding assms(8) by (rule session_requests_sent [OF assms(1-5) text_exec_semantics, of "overlay_addr n"]) blast
  obtain n' where n': "start_overlay (map request_stream (session_requests arg ?dar ?env env' here)) n = Inr n'"
    using serve_requests [OF assms(6) s(5) session_requests_ledger] by auto
  obtain es t where t: "effects n' = effects n @ es"
    "thread_effects es = map (\<lambda>q. Run_Thread (request_client (overlay_addr n) q)) (flow_requests True arg ?dar ?env here) @
       replicate (length here) (Cancel_Thread t)"
    "here = [] \<or> length (effects n) \<le> t \<and>
       effects n' ! t = Run_Thread (request_client (overlay_addr n) (last (flow_requests True arg ?dar ?env here))) \<and>
       (\<forall>c. Run_Thread c \<notin> set (drop (Suc t) (effects n')))"
    by (rule session_threads [OF assms(6) s(5) n'])
  have c: "request_client (overlay_addr n) \<lparr>appends = True, request_node_port = overlay_port arg,
     request_port = receiver_port arg, request_dar = ?dar, request_env = ?env, request_flow = k\<rparr> = client k" for k
    by (simp add: request_client_def assms(9))
  have "map (\<lambda>q. Run_Thread (request_client (overlay_addr n) q)) (flow_requests True arg ?dar ?env here) =
      map (\<lambda>k. Run_Thread (client k)) here"
    by (simp add: flow_requests_def c comp_def)
  then have t2: "thread_effects es = map (\<lambda>k. Run_Thread (client k)) here @ replicate (length here) (Cancel_Thread t)"
    using t(2) by simp
  have t3: "here = [] \<or> length (effects n) \<le> t \<and> effects n' ! t = Run_Thread (client (last here)) \<and>
       (\<forall>c. Run_Thread c \<notin> set (drop (Suc t) (effects n')))"
  proof (cases "here = []")
    case False
    then have "request_client (overlay_addr n) (last (flow_requests True arg ?dar ?env here)) = client (last here)"
      by (simp add: flow_requests_def last_map c)
    with t(3) False show ?thesis by simp
  qed simp
  have conns: "start_overlay (conns (drop (length (exchanges s)) (exchanges s2))) n = Inr n'"
    using n' by (simp add: assms(7) s(3,4))
  show ?thesis by (rule exI [of _ s1], rule exI [of _ s2], rule exI [of _ n'], rule exI [of _ es], rule exI [of _ t])
    (intro conjI s(1,2) conns t(1) t2 t3)
qed

theorem node_cancels_last_client_witness:
  "\<exists>s1 s2 n' t. setup_sender demo_env demo_arg demo_sender = Some (Inr s1) \<and>
    teardown_sender quiet_env sample_interfaces demo_arg s1 = Inr s2 \<and>
    start_overlay (connections_to ''10.0.0.7'' (drop (length (exchanges demo_sender)) (exchanges s2)))
      (sample_node\<lparr>overlay_addr := ''10.0.0.7''\<rparr>) = Inr n' \<and>
    thread_effects (effects n') =
      [Run_Thread (client_command ''10.0.0.7'' ''10.0.0.1'' (dec_int DAR_PORT) ''10.0.0.5'' (dec_int 11130)), Cancel_Thread t]"
proof -
  let ?n = "sample_node\<lparr>overlay_addr := ''10.0.0.7''\<rparr>"
  have i: "list_all inet_ok sample_interfaces" by (simp add: sample_interfaces_def inet_ok_def)
  have n: "node_ok ?n" using sample_rules(1) by (simp add: node_ok_def)
  have e: "effects ?n = []" "overlay_addr ?n = ''10.0.0.7''" by (simp_all add: sample_node_def)
  have a: "addresses sample_interfaces = [''10.0.0.1'', ''10.0.1.1'']" "map line_ip sample_lines = [''10.0.0.7'', ''10.0.0.8'']"
    by (simp_all add: sample_interfaces_def addresses_def usable_def sample_lines_def line_ip_def)
  have h: "filter (\<lambda>(src, dst, hop). hop = ''10.0.0.7'') (flow_keys (addresses sample_interfaces) [''10.0.0.5''] (map line_ip sample_lines)) =
      [(''10.0.0.1'', ''10.0.0.5'', ''10.0.0.7'')]"
    unfolding a by (simp add: flow_keys_def)
  from node_cancels_last_client [OF demo_ready demo_monitored(2,1) quiet_env_ok i n refl refl refl, unfolded e h]
  show ?thesis unfolding a(1) by auto
qed

end
