(* ===== verification/Session_Alerts.thy ===== *)
theory Session_Alerts
  imports Session_Properties
begin

text \<open>
  What an alert does to a sender whose session is set up, for every configured reaction.  The
  handler of the signal is one step here; \<open>Session_Threads\<close> interleaves its calls with those of
  the main thread.
\<close>

section \<open>A running sender\<close>

text \<open>
  What the set-up of the flows leaves.  The clock of the connection is null in the first session
  of a process, and freed in every later one.
\<close>

definition configured :: "setup_sender_arg \<Rightarrow> flow_env \<Rightarrow> ifaddrs list \<Rightarrow> sender \<Rightarrow> bool" where
  "configured arg fe ifap s \<longleftrightarrow> sender_ready s \<and> connection_timer s \<noteq> Clock_Running \<and>
     dar_ip s = srcs s ! 0 \<and> dar_port s = DAR_PORT \<and>
     (\<forall>f\<in>set (flows s). sender_darshanas (monitor s) ! hop_index s f \<noteq> None) \<and>
     0 \<le> receiver_port arg \<and> receiver_port arg < 100000 \<and> replies_ok fe \<and> list_all inet_ok ifap"

text \<open>The rules of all flows are removed, and the interfaces cleaned.\<close>

definition cleaned :: "ifaddrs list \<Rightarrow> sender \<Rightarrow> sender \<Rightarrow> bool" where
  "cleaned ifap s s' \<longleftrightarrow> (\<exists>cs. clean_virtual_interfaces ifap = Inr cs \<and>
     commands s' = commands s @ map delete_cmd (sender_nat.all_rules (map (flow_key s) (flows s))) @ cs)"

text \<open>A state of the main thread after the set-up of the flows.\<close>

definition running :: "sender \<Rightarrow> sender \<Rightarrow> bool" where
  "running s0 s \<longleftrightarrow> same_flows s0 s \<and> dar_ip s = dar_ip s0 \<and> dar_port s = dar_port s0 \<and> log_open s = log_open s0 \<and>
     commands s = commands s0 \<and> sender_darshanas (monitor s) = sender_darshanas (monitor s0)"

lemma running_refl [simp]: "running s s"
  by (simp add: running_def)

lemma running_simps:
  assumes "running s0 s"
  shows "commands s = commands s0" "flows s = flows s0" "flow_key s = flow_key s0" "hop_index s = hop_index s0"
    "srcs s = srcs s0" "dar_ip s = dar_ip s0" "dar_port s = dar_port s0"
    "sender_darshanas (monitor s) = sender_darshanas (monitor s0)" "sender_ready s = sender_ready s0"
  using assms same_flows_simps [of s0 s] by (auto simp: running_def same_flows_def sender_ready_def)

lemma start_monitoring_fails: "start_monitoring env arg s = Inl e \<Longrightarrow> e = Exit 1 \<and> dar_bind_result env < 0"
  by (auto simp: start_monitoring_def start_path_monitoring_module_def init_dar_socket_def rbind_eq_Inl split: if_splits)

lemma run_steps_keeps_timer: "run_steps clean_own xs s = Inr u \<Longrightarrow> connection_timer u = connection_timer s"
  by (induction xs arbitrary: s) (auto simp: clean_own_def rbind_eq_Inr split: prod.splits)

lemma torn_down_timer:
  assumes "teardown_sender fe ifap arg s = Inr s'"
  shows "connection_timer s' = Clock_Freed"
proof -
  obtain m u v where u: "run_steps (clean_node (overlay_port arg) (receiver_port arg) fe) (flows m) m = Inr u"
      "run_steps clean_own (flows u) u = Inr v" "connection_timer m = Clock_Freed" "connection_timer s' = connection_timer v"
    using assms by (auto simp: teardown_sender_def close_socket_communication_with_receiver_def clean_rules_def rbind_eq_Inr
        split: clock_pointer.splits)
  have "connection_timer v = connection_timer u"
    using u(2) by (rule run_steps_keeps_timer)
  with u run_steps_keeps_connection [OF u(1)] show ?thesis by simp
qed

text \<open>Tearing down a running sender succeeds exactly when it is connected.\<close>

lemma running_tears_down:
  assumes "configured arg fe ifap s0" "running s0 s" "dar_pthread_running (monitor s)"
  shows "connection_timer s = Clock_Running \<Longrightarrow> \<exists>s'. teardown_sender fe ifap arg s = Inr s' \<and> cleaned ifap s0 s'"
    and "connection_timer s = Clock_Null \<Longrightarrow> teardown_sender fe ifap arg s = Inl NullDeref"
proof -
  assume timer: "connection_timer s = Clock_Running"
  note rs = running_simps [OF assms(2)] and c = assms(1) [unfolded configured_def]
  have "sender_ready s" "0 \<le> receiver_port arg" "receiver_port arg < 100000" "replies_ok fe"
      "dar_ip s = srcs s ! 0" "dar_port s = DAR_PORT" "list_all inet_ok ifap"
      "\<forall>f\<in>set (flows s). sender_darshanas (monitor s) ! hop_index s f \<noteq> None"
    using c by (simp_all add: rs)
  then have "\<exists>s' cs. teardown_sender fe ifap arg s = Inr s' \<and> clean_virtual_interfaces ifap = Inr cs \<and>
      commands s' = commands s @ map delete_cmd (sender_nat.all_rules (map (flow_key s) (flows s))) @ cs \<and>
      \<not> connection_open s' \<and> connection_timer s' = Clock_Freed \<and> \<not> log_open s'"
    using connected_tears_down timer assms(3) by blast
  then show "\<exists>s'. teardown_sender fe ifap arg s = Inr s' \<and> cleaned ifap s0 s'"
    unfolding rs cleaned_def by blast
next
  assume "connection_timer s = Clock_Null"
  then show "teardown_sender fe ifap arg s = Inl NullDeref"
    by (simp add: teardown_sender_def close_socket_communication_with_receiver_def)
qed

section \<open>Properties\<close>

text \<open>A configured sender.\<close>

definition configured_sender :: sender where
  "configured_sender = sample_sender\<lparr>dar_ip := ''10.0.0.1'', dar_port := DAR_PORT,
     monitor := (monitor sample_sender)\<lparr>sender_darshanas := [Some ''a'', Some ''b'']\<rparr>\<rparr>"

lemma configured_sender: "configured demo_arg quiet_env [] configured_sender"
  using sample_sender_ready(1) quiet_env_ok
  by (simp add: configured_def configured_sender_def sender_ready_def sample_sender_def demo_arg_def flows_def
      hop_index_def upt_rec)

text \<open>C16.
  What an alert does, for every reaction: the three reactions about paths leave the sender
  exactly as it was; restarting tears it down and goes on, after which the teardown of the
  application is a use after free; every other value ends the process like a shutdown.\<close>

theorem reaction_table:
  assumes "configured arg fe ifap s0" "running s0 s" "dar_pthread_running (monitor s)" "connection_timer s = Clock_Running"
  shows "case reaction_spec arg of
      SHUTDOWN_COMMUNICATION_AND_STARTS_AGAIN_WOUT_BAD_PATH \<Rightarrow>
        \<exists>s'. handle_dar_signal fe ifap arg s = Inr (s', Resume) \<and> cleaned ifap s0 s' \<and>
          (\<forall>e i. teardown_sender e i arg s' = Inl UseAfterFree)
    | SHUTDOWN_COMMUNICATION \<Rightarrow> \<exists>s'. handle_dar_signal fe ifap arg s = Inr (s', Exit_Process 1) \<and> cleaned ifap s0 s'
    | Unknown_Reaction n \<Rightarrow> \<exists>s'. handle_dar_signal fe ifap arg s = Inr (s', Exit_Process 1) \<and> cleaned ifap s0 s'
    | r \<Rightarrow> handle_dar_signal fe ifap arg s = Inr (s, Resume)"
proof -
  obtain s' where s': "teardown_sender fe ifap arg s = Inr s'" "cleaned ifap s0 s'"
    using running_tears_down(1) [OF assms] by blast
  have "\<forall>e i. teardown_sender e i arg s' = Inl UseAfterFree"
    using torn_down_timer [OF s'(1)] by (simp add: teardown_sender_def close_socket_communication_with_receiver_def)
  with s' show ?thesis by (auto simp: handle_dar_signal_def split: machete_reaction.splits)
qed

theorem reaction_table_witness:
  "\<exists>s'. handle_dar_signal quiet_env [] demo_arg
      (configured_sender\<lparr>monitor := (monitor configured_sender)\<lparr>dar_pthread_running := True\<rparr>,
        connection_timer := Clock_Running\<rparr>) = Inr (s', Exit_Process 1) \<and> cleaned [] configured_sender s'"
  using reaction_table [OF configured_sender, of "configured_sender\<lparr>monitor := (monitor configured_sender)\<lparr>
      dar_pthread_running := True\<rparr>, connection_timer := Clock_Running\<rparr>"]
  by (simp add: running_def same_flows_def demo_arg_def)

end
