(* ===== verification/Teardown_Calls.thy ===== *)
theory Teardown_Calls
  imports Session_Alerts
begin

text \<open>
  \<^verbatim>\<open>teardown_sender\<close> and the functions it calls as a list of calls, each of which is one step
  of the thread that runs it, and the lemma that these calls in a row are the teardown of
  \<open>Sender_Session\<close>.
\<close>

section \<open>The calls of the teardown\<close>

text \<open>
  \<^verbatim>\<open>end_clock\<close> is two calls: it reads the time of the connection, and frees it after it has
  written to the log.  \<open>Log_Entry\<close> stands for a write to the log.
  Reading a freed clock is undefined behaviour, which is a fault here; \<open>Second_Teardown\<close> says what
  the program can do instead.
\<close>

datatype teardown_call =
    Close_Connection
  | Read_Clock
  | Free_Clock
  | Log_Entry
  | Stop_Monitoring
  | Clean_Node "nat \<times> nat"
  | Clean_Own "nat \<times> nat"
  | Clean_Interfaces
  | Close_Log

definition read_clock :: "sender \<Rightarrow> sender res" where
  "read_clock s =
     rbind (case connection_timer s of Clock_Null \<Rightarrow> Inl NullDeref | Clock_Freed \<Rightarrow> Inl UseAfterFree
              | Clock_Running \<Rightarrow> Inr ()) (\<lambda>_.
     rbind (guard (log_open s) UseAfterFree) (\<lambda>_. Inr s))"

definition free_clock :: "sender \<Rightarrow> sender res" where
  "free_clock s =
     (case connection_timer s of Clock_Null \<Rightarrow> Inr s | Clock_Freed \<Rightarrow> Inl UseAfterFree
        | Clock_Running \<Rightarrow> Inr (s\<lparr>connection_timer := Clock_Freed\<rparr>))"

declare read_clock_def [simp] free_clock_def [simp]

fun run_call :: "flow_env \<Rightarrow> ifaddrs list \<Rightarrow> setup_sender_arg \<Rightarrow> teardown_call \<Rightarrow> sender \<Rightarrow> sender res" where
  "run_call fe ifap arg Close_Connection s = Inr (s\<lparr>connection_open := False\<rparr>)"
| "run_call fe ifap arg Read_Clock s = read_clock s"
| "run_call fe ifap arg Free_Clock s = free_clock s"
| "run_call fe ifap arg Log_Entry s = rbind (guard (log_open s) UseAfterFree) (\<lambda>_. Inr s)"
| "run_call fe ifap arg Stop_Monitoring s =
     rbind (stop_path_monitoring_module (monitor s)) (\<lambda>m. Inr (s\<lparr>monitor := m\<rparr>))"
| "run_call fe ifap arg (Clean_Node f) s = clean_node (overlay_port arg) (receiver_port arg) fe f s"
| "run_call fe ifap arg (Clean_Own f) s = clean_own f s"
| "run_call fe ifap arg Clean_Interfaces s =
     rbind (clean_virtual_interfaces ifap) (\<lambda>cs. Inr (s\<lparr>commands := commands s @ cs\<rparr>))"
| "run_call fe ifap arg Close_Log s =
     rbind (guard (log_open s) UseAfterFree) (\<lambda>_. Inr (s\<lparr>log_open := False\<rparr>))"

text \<open>The calls after the connection's clock is freed.\<close>

definition remaining_calls :: "(nat \<times> nat) list \<Rightarrow> teardown_call list" where
  "remaining_calls fs =
     [Log_Entry, Stop_Monitoring] @ map Clean_Node fs @ Log_Entry # map Clean_Own fs @
     [Log_Entry, Clean_Interfaces, Log_Entry, Close_Log]"

definition teardown_calls :: "(nat \<times> nat) list \<Rightarrow> teardown_call list" where
  "teardown_calls fs = Close_Connection # Read_Clock # Free_Clock # remaining_calls fs"

lemma no_free_remaining [simp]: "Free_Clock \<notin> set (remaining_calls fs)"
  by (auto simp: remaining_calls_def)

lemma run_node_calls [simp]: "run_steps (run_call fe ifap arg) (map Clean_Node fs) s =
    run_steps (clean_node (overlay_port arg) (receiver_port arg) fe) fs s"
  by (induction fs arbitrary: s) (simp_all add: rbind_def split: sum.splits)

lemma run_own_calls [simp]: "run_steps (run_call fe ifap arg) (map Clean_Own fs) s = run_steps clean_own fs s"
  by (induction fs arbitrary: s) (simp_all add: rbind_def split: sum.splits)

text \<open>Every call keeps what the flows and the other modules rest on.\<close>

definition kept :: "sender \<Rightarrow> sender \<Rightarrow> bool" where
  "kept s u \<longleftrightarrow> same_flows s u \<and> dar_ip u = dar_ip s \<and> dar_port u = dar_port s \<and>
     handler_registered u = handler_registered s \<and> dar_state (monitor u) = dar_state (monitor s) \<and>
     dar_pthread_running (monitor u) = dar_pthread_running (monitor s) \<and>
     sender_darshanas (monitor u) = sender_darshanas (monitor s)"

lemma run_call_kept: "run_call fe ifap arg c s = Inr u \<Longrightarrow> kept s u"
  by (cases c) (auto simp: kept_def same_flows_def clean_node_def clean_own_def kill_sender_darshana_pthreads_def
    stop_path_monitoring_module_def' pthread_kill_0_def rbind_eq_Inr split: prod.splits clock_pointer.splits if_splits)

lemma run_call_clock:
  "run_call fe ifap arg c s = Inr u \<Longrightarrow> c \<noteq> Free_Clock \<Longrightarrow> connection_timer u = connection_timer s"
  by (cases c) (auto simp: clean_node_def clean_own_def rbind_eq_Inr split: prod.splits)

lemma run_call_log:
  "run_call fe ifap arg c s = Inr u \<Longrightarrow> log_open u = (log_open s \<and> c \<noteq> Close_Log)"
  by (cases c) (auto simp: clean_node_def clean_own_def rbind_eq_Inr split: prod.splits clock_pointer.splits)

lemma kept_refl [simp]: "kept s s"
  by (simp add: kept_def)

lemma kept_trans: "kept s u \<Longrightarrow> kept u v \<Longrightarrow> kept s v"
  by (auto simp: kept_def intro: same_flows_trans)

lemma run_nodes_kept:
  fixes arg :: setup_sender_arg
  assumes "run_steps (clean_node (overlay_port arg) (receiver_port arg) fe) xs s = Inr u"
  shows "kept s u \<and> log_open u = log_open s \<and> connection_timer u = connection_timer s"
proof (rule run_steps_invariant [OF assms, where P = "\<lambda>u. kept s u \<and> log_open u = log_open s \<and>
    connection_timer u = connection_timer s"])
  fix f v w assume "clean_node (overlay_port arg) (receiver_port arg) fe f v = Inr w"
    and "kept s v \<and> log_open v = log_open s \<and> connection_timer v = connection_timer s"
  moreover from this(1) have "run_call fe [] arg (Clean_Node f) v = Inr w" by simp
  from run_call_kept [OF this] run_call_log [OF this] run_call_clock [OF this]
  have "kept v w \<and> log_open w = log_open v \<and> connection_timer w = connection_timer v" by simp
  ultimately show "kept s w \<and> log_open w = log_open s \<and> connection_timer w = connection_timer s"
    using kept_trans by auto
qed simp

lemma run_owns_log:
  assumes "run_steps clean_own xs s = Inr u"
  shows "log_open u = log_open s"
proof (rule run_steps_invariant [OF assms, where P = "\<lambda>u. log_open u = log_open s"])
  fix f v w assume "clean_own f v = Inr w" "log_open v = log_open s"
  with run_call_log [of undefined undefined undefined "Clean_Own f" v w]
  show "log_open w = log_open s" by simp
qed simp

lemma remaining_by_calls:
  assumes "log_open s"
  shows "run_steps (run_call fe ifap arg) (remaining_calls (flows s)) s =
    rbind (stop_path_monitoring_module (monitor s)) (\<lambda>m.
    rbind (clean_rules (overlay_port arg) (receiver_port arg) (use_stun_server arg) fe (s\<lparr>monitor := m\<rparr>)) (\<lambda>s2.
    rbind (clean_virtual_interfaces ifap) (\<lambda>cs.
      Inr (s2\<lparr>commands := commands s2 @ cs, log_open := False\<rparr>))))"
proof (cases "stop_path_monitoring_module (monitor s)")
  case (Inr m)
  let ?t = "s\<lparr>monitor := m\<rparr>" and ?node = "clean_node (overlay_port arg) (receiver_port arg) fe"
  have fl: "flows ?t = flows s" by (simp add: flows_def)
  have head: "run_steps (run_call fe ifap arg) (remaining_calls (flows s)) s =
      rbind (run_steps ?node (flows s) ?t) (run_steps (run_call fe ifap arg) (Log_Entry # map Clean_Own (flows s) @
        [Log_Entry, Clean_Interfaces, Log_Entry, Close_Log]))"
    using assms Inr by (simp add: remaining_calls_def run_steps_append)
  show ?thesis
  proof (cases "run_steps ?node (flows s) ?t")
    case (Inr u)
    from run_nodes_kept [OF this] have u: "log_open u" "flows u = flows s"
      using assms same_flows_simps(1) [of ?t u] fl by (simp_all add: kept_def)
    show ?thesis
    proof (cases "run_steps clean_own (flows s) u")
      case (Inr v)
      from run_owns_log [OF this] u have "log_open v" by simp
      with u Inr \<open>run_steps ?node (flows s) ?t = Inr u\<close> \<open>stop_path_monitoring_module (monitor s) = Inr m\<close>
      show ?thesis
        unfolding head
        by (cases "clean_virtual_interfaces ifap") (simp_all add: run_steps_append clean_rules_def fl)
    next
      case (Inl e)
      with u \<open>run_steps ?node (flows s) ?t = Inr u\<close> \<open>stop_path_monitoring_module (monitor s) = Inr m\<close>
      show ?thesis unfolding head by (simp add: run_steps_append clean_rules_def fl)
    qed
  next
    case (Inl e)
    then show ?thesis unfolding head using \<open>stop_path_monitoring_module (monitor s) = Inr m\<close> by (simp add: clean_rules_def fl)
  qed
next
  case (Inl e)
  with assms show ?thesis by (simp add: remaining_calls_def)
qed

text \<open>The calls, run without interruption, are the teardown, faults included.\<close>

lemma teardown_by_calls:
  "run_steps (run_call fe ifap arg) (teardown_calls (flows s)) s = teardown_sender fe ifap arg s"
proof (cases "connection_timer s = Clock_Running \<and> log_open s")
  case True
  let ?t = "s\<lparr>connection_open := False, connection_timer := Clock_Freed\<rparr>"
  have "flows ?t = flows s" by (simp add: flows_def)
  with remaining_by_calls [of ?t fe ifap arg] True show ?thesis
    by (simp add: teardown_calls_def teardown_sender_def close_socket_communication_with_receiver_def)
next
  case False
  then show ?thesis
    by (auto simp: teardown_calls_def teardown_sender_def close_socket_communication_with_receiver_def
        split: clock_pointer.splits)
qed

end
