(* ===== verification/Session_Threads.thy ===== *)
theory Session_Threads
  imports Teardown_Calls "HOL-Library.Sublist"
begin

text \<open>
  The sender as a process of two threads.  \<^verbatim>\<open>raise\<close> delivers the signal to the thread that
  calls it, so \<^verbatim>\<open>handle_dar_signal\<close> runs in the thread of the alert receiver while the main
  thread goes on, and both may be in \<^verbatim>\<open>teardown_sender\<close> at once; until the handler is
  registered the signal kills the process.  The alerts are the datagrams that the receive loop
  reads.
\<close>

section \<open>Invariants of step relations\<close>

locale step_invariant =
  fixes step :: "'p \<Rightarrow> 'p \<Rightarrow> bool" and start :: 'p and inv :: "'p \<Rightarrow> bool"
  assumes start: "inv start"
    and keeps: "step p q \<Longrightarrow> inv p \<Longrightarrow> inv q"
begin

lemma reachable: "step\<^sup>*\<^sup>* start p \<Longrightarrow> inv p"
  by (induction rule: rtranclp_induct) (auto intro: start keeps)

end

section \<open>Two threads\<close>

datatype main_thread =
    Main_Configured
  | Main_Monitoring
  | Main_Handling
  | Main_Connecting
  | Main_Connected
  | Main_Tearing "teardown_call list"
  | Main_Closed

text \<open>
  The alert receiver with the number of alerts it has received; in the handler, with whether
  the process exits after it and the calls it still makes.  In \<open>Dar_Blocked\<close> it waits in
  \<^verbatim>\<open>read\<close> for a datagram; closing the socket in the other thread does not wake it.
\<close>

datatype dar_thread =
    Dar_Absent
  | Dar_Reading int
  | Dar_Blocked int
  | Dar_Raising int
  | Dar_Handling int bool "teardown_call list"
  | Dar_Left

datatype execution = Threads main_thread dar_thread sender | Died sender | Ended int sender | Crashed fault sender

definition crash :: "fault \<Rightarrow> sender \<Rightarrow> execution" where
  "crash e s = (case e of Exit n \<Rightarrow> Ended n s | _ \<Rightarrow> Crashed e s)"

text \<open>One iteration of the receive loop, and whether it raises the signal.\<close>

definition dar_iteration :: "tm \<Rightarrow> char list \<Rightarrow> int \<Rightarrow> sender \<Rightarrow> (sender \<times> int \<times> bool) res option" where
  "dar_iteration now bytes n s =
     cbind (handle_darshana_client_loop [(now, ReadData bytes)] (dar_state (monitor s)) n 0) (\<lambda>(d, n', raised, e).
       Some (Inr (s\<lparr>monitor := (monitor s)\<lparr>dar_state := d\<rparr>\<rparr>, n', 0 < raised)))"

text \<open>What the handler is about to do.\<close>

definition on_signal :: "setup_sender_arg \<Rightarrow> int \<Rightarrow> sender \<Rightarrow> dar_thread" where
  "on_signal arg n s =
     (if reaction_spec arg = SHUTDOWN_COMMUNICATION then Dar_Handling n True (teardown_calls (flows s))
      else if reaction_spec arg = SHUTDOWN_COMMUNICATION_AND_STARTS_AGAIN_WOUT_BAD_PATH
        then Dar_Handling n False (teardown_calls (flows s))
      else if reaction_spec arg = REUSE_PATHS_LEFT then Dar_Reading n
      else if reaction_spec arg = CREATE_NEW_PATH then Dar_Reading n
      else if reaction_spec arg = DO_NOTHING_AND_IGNORE_ALERTS then Dar_Reading n
      else Dar_Handling n True (teardown_calls (flows s)))"

text \<open>Run without interruption, it is \<^verbatim>\<open>handle_dar_signal\<close>.\<close>

lemma handler_by_calls:
  "(case on_signal arg n s of
      Dar_Handling k ends cs \<Rightarrow> rbind (run_steps (run_call fe ifap arg) cs s) (\<lambda>u.
        Inr (u, if ends then Exit_Process 1 else Resume))
    | _ \<Rightarrow> Inr (s, Resume)) = handle_dar_signal fe ifap arg s"
  by (simp add: on_signal_def handle_dar_signal_def teardown_by_calls [symmetric])

text \<open>
  The steps.  An execution ends with its first undefined behaviour (\<open>Crashed\<close>): the program may go
  on from there, and nothing is said of how.  A thread that waits for a silent node has no step of
  its own.
\<close>

inductive thread_step :: "session_env \<Rightarrow> setup_sender_arg \<Rightarrow> flow_env \<Rightarrow> ifaddrs list \<Rightarrow> execution \<Rightarrow> execution \<Rightarrow> bool"
  for env arg fe ifap where
  main_start: "start_monitoring env arg s = Inr u \<Longrightarrow>
    thread_step env arg fe ifap (Threads Main_Configured Dar_Absent s)
      (Threads Main_Monitoring (if dar_thread_result env = 0 then Dar_Reading 0 else Dar_Absent) u)"
| main_start_fails: "start_monitoring env arg s = Inl e \<Longrightarrow>
    thread_step env arg fe ifap (Threads Main_Configured Dar_Absent s) (crash e s)"
| main_register: "thread_step env arg fe ifap (Threads Main_Monitoring d s) (Threads Main_Handling d (register_handler env s))"
| main_clock: "thread_step env arg fe ifap (Threads Main_Handling d s)
    (Threads Main_Connecting d (s\<lparr>connection_timer := Clock_Running\<rparr>))"
| main_connect: "0 \<le> connect_result env \<Longrightarrow>
    thread_step env arg fe ifap (Threads Main_Connecting d s) (Threads Main_Connected d (s\<lparr>connection_open := True\<rparr>))"
| main_connect_fails: "connect_result env < 0 \<Longrightarrow>
    thread_step env arg fe ifap (Threads Main_Connecting d s) (crash (Exit (- 1)) s)"
| main_close: "thread_step env arg fe ifap (Threads Main_Connected d s) (Threads (Main_Tearing (teardown_calls (flows s))) d s)"
| main_call: "run_call fe ifap arg c s = Inr u \<Longrightarrow>
    thread_step env arg fe ifap (Threads (Main_Tearing (c # cs)) d s) (Threads (Main_Tearing cs) d u)"
| main_call_fails: "run_call fe ifap arg c s = Inl e \<Longrightarrow> e \<noteq> Blocked \<Longrightarrow>
    thread_step env arg fe ifap (Threads (Main_Tearing (c # cs)) d s) (crash e s)"
| main_closed: "thread_step env arg fe ifap (Threads (Main_Tearing []) d s) (Threads Main_Closed d s)"
| dar_reads: "dar_socket_open (monitor s) \<Longrightarrow>
    thread_step env arg fe ifap (Threads m (Dar_Reading n) s) (Threads m (Dar_Blocked n) s)"
| dar_alert: "dar_iteration now bytes n s = Some (Inr (u, k, raised)) \<Longrightarrow>
    thread_step env arg fe ifap (Threads m (Dar_Blocked n) s) (Threads m (if raised then Dar_Raising k else Dar_Reading k) u)"
| dar_alert_fails: "dar_iteration now bytes n s = Some (Inl e) \<Longrightarrow>
    thread_step env arg fe ifap (Threads m (Dar_Blocked n) s) (crash e s)"
| dar_read_fails: "thread_step env arg fe ifap (Threads m (Dar_Blocked n) s) (Threads m Dar_Left s)"
| dar_leaves: "thread_step env arg fe ifap (Threads m (Dar_Reading n) s) (Threads m Dar_Left s)"
| signal_default: "\<not> handler_registered s \<Longrightarrow> thread_step env arg fe ifap (Threads m (Dar_Raising n) s) (Died s)"
| signal_handled: "handler_registered s \<Longrightarrow>
    thread_step env arg fe ifap (Threads m (Dar_Raising n) s) (Threads m (on_signal arg n s) s)"
| handler_call: "run_call fe ifap arg c s = Inr u \<Longrightarrow>
    thread_step env arg fe ifap (Threads m (Dar_Handling n ends (c # cs)) s) (Threads m (Dar_Handling n ends cs) u)"
| handler_call_fails: "run_call fe ifap arg c s = Inl e \<Longrightarrow> e \<noteq> Blocked \<Longrightarrow>
    thread_step env arg fe ifap (Threads m (Dar_Handling n ends (c # cs)) s) (crash e s)"
| handler_exits: "thread_step env arg fe ifap (Threads m (Dar_Handling n True []) s) (Ended 1 s)"
| handler_returns: "thread_step env arg fe ifap (Threads m (Dar_Handling n False []) s) (Threads m (Dar_Reading n) s)"

inductive_simps after_death: "thread_step env arg fe ifap (Died s) p"
inductive_simps after_end: "thread_step env arg fe ifap (Ended n s) p"
inductive_simps after_crash: "thread_step env arg fe ifap (Crashed e s) p"

section \<open>Where the threads can be\<close>

text \<open>The commands of a call, and those of a list of calls.\<close>

definition call_commands :: "sender \<Rightarrow> ifaddrs list \<Rightarrow> teardown_call \<Rightarrow> string list" where
  "call_commands s0 ifap c =
     (case c of Clean_Own f \<Rightarrow> map delete_cmd (sender_rules (flow_key s0 f))
        | Clean_Interfaces \<Rightarrow> projr (clean_virtual_interfaces ifap) | _ \<Rightarrow> [])"

definition removal :: "sender \<Rightarrow> ifaddrs list \<Rightarrow> teardown_call list \<Rightarrow> string list" where
  "removal s0 ifap cs = concat (map (call_commands s0 ifap) cs)"

lemma removal_simps [simp]:
  "removal s0 ifap [] = []" "removal s0 ifap (c # cs) = call_commands s0 ifap c @ removal s0 ifap cs"
  "removal s0 ifap (cs @ ds) = removal s0 ifap cs @ removal s0 ifap ds"
  by (simp_all add: removal_def)

text \<open>The messages of a call to the nodes, and those of a list of calls.\<close>

definition call_messages :: "setup_sender_arg \<Rightarrow> flow_env \<Rightarrow> sender \<Rightarrow> teardown_call \<Rightarrow> node_io list list" where
  "call_messages arg fe s0 c = (case c of Clean_Node f \<Rightarrow>
       [flow_exchange (overlay_port arg) (receiver_port arg) (dar_ip s0) fe 0 (flow_key s0 f)] | _ \<Rightarrow> [])"

definition messages :: "setup_sender_arg \<Rightarrow> flow_env \<Rightarrow> sender \<Rightarrow> teardown_call list \<Rightarrow> node_io list list" where
  "messages arg fe s0 cs = concat (map (call_messages arg fe s0) cs)"

lemma messages_simps [simp]:
  "messages arg fe s0 [] = []" "messages arg fe s0 (c # cs) = call_messages arg fe s0 c @ messages arg fe s0 cs"
  "messages arg fe s0 (cs @ ds) = messages arg fe s0 cs @ messages arg fe s0 ds"
  by (simp_all add: messages_def)

text \<open>The calls \<open>cs\<close> have been made since the clock was freed.\<close>

definition made :: "setup_sender_arg \<Rightarrow> flow_env \<Rightarrow> sender \<Rightarrow> ifaddrs list \<Rightarrow> teardown_call list \<Rightarrow> sender \<Rightarrow> bool" where
  "made arg fe s0 ifap cs s \<longleftrightarrow> commands s = commands s0 @ removal s0 ifap cs \<and> exchanges s = exchanges s0 @ messages arg fe s0 cs"

lemma madeD: "made arg fe s0 ifap cs s \<Longrightarrow> commands s = commands s0 @ removal s0 ifap cs"
  by (simp add: made_def)

lemma made_Nil [simp]: "made arg fe s0 ifap [] s \<longleftrightarrow> commands s = commands s0 \<and> exchanges s = exchanges s0"
  by (simp add: made_def)

text \<open>A teardown that has not freed the clock yet.\<close>

definition unfreed :: "sender \<Rightarrow> teardown_call list \<Rightarrow> bool" where
  "unfreed s0 cs \<longleftrightarrow> suffix cs (teardown_calls (flows s0)) \<and> Free_Clock \<in> set cs"

lemma unfreed_cases:
  "unfreed s0 cs \<longleftrightarrow> cs \<in> {teardown_calls (flows s0), Read_Clock # Free_Clock # remaining_calls (flows s0),
     Free_Clock # remaining_calls (flows s0)}"
proof -
  have "Free_Clock \<notin> set cs" if "suffix cs (remaining_calls (flows s0))"
    using set_mono_suffix [OF that] by auto
  then show ?thesis by (auto simp: unfreed_def teardown_calls_def suffix_Cons)
qed

lemma unfreed_start [simp]: "unfreed s0 (teardown_calls (flows s0))"
  by (simp add: unfreed_cases)

lemma unfreed_Nil [simp]: "\<not> unfreed s0 []"
  by (simp add: unfreed_def)

lemma unfreed_call:
  assumes "unfreed s0 (c # cs)" "run_call fe ifap arg c s = Inr u" "c = Free_Clock \<Longrightarrow> connection_timer s \<noteq> Clock_Null"
  shows "commands u = commands s \<and> exchanges u = exchanges s \<and> log_open u = log_open s \<and>
    (if c = Free_Clock then connection_timer s = Clock_Running \<and> connection_timer u = Clock_Freed \<and> cs = remaining_calls (flows s0)
     else unfreed s0 cs \<and> connection_timer u = connection_timer s \<and>
       (Read_Clock \<notin> set cs \<longrightarrow> connection_timer s = Clock_Running))"
proof -
  have "Read_Clock \<notin> set (remaining_calls (flows s0))" by (auto simp: remaining_calls_def)
  with assms show ?thesis
    by (auto simp: unfreed_cases teardown_calls_def rbind_eq_Inr split: clock_pointer.splits)
qed

lemma unfreed_call_fails:
  "unfreed s0 (c # cs) \<Longrightarrow> run_call fe ifap arg c s = Inl e \<Longrightarrow> e = NullDeref \<or> e = UseAfterFree"
  by (auto simp: unfreed_cases teardown_calls_def rbind_eq_Inl guard_def split: clock_pointer.splits if_splits)

text \<open>Two states of the sender with the same flows and threads.\<close>

definition same_session :: "sender \<Rightarrow> sender \<Rightarrow> bool" where
  "same_session s u \<longleftrightarrow> same_flows s u \<and> dar_ip u = dar_ip s \<and> dar_port u = dar_port s \<and>
     sender_darshanas (monitor u) = sender_darshanas (monitor s)"

lemma kept_same_session: "kept s u \<Longrightarrow> same_session s0 s \<Longrightarrow> same_session s0 u"
  by (auto simp: kept_def same_session_def intro: same_flows_trans)

lemma run_steps_one: "run_steps body [x] s = Inr u \<Longrightarrow> body x s = Inr u"
  by (auto simp: rbind_eq_Inr)

lemma clean_own_exchanges: "clean_own f s = Inr u \<Longrightarrow> exchanges u = exchanges s"
  by (auto simp: clean_own_def rbind_eq_Inr split: prod.splits)

lemma clean_node_commands: "clean_node op rp fe f s = Inr u \<Longrightarrow> commands u = commands s"
  by (auto simp: clean_node_def rbind_eq_Inr split: prod.splits)

text \<open>A call after the clock is freed succeeds as long as the log is open.\<close>

lemma freed_call:
  assumes c: "configured arg fe ifap s0" and s: "same_session s0 s" "log_open s" "dar_pthread_running (monitor s)"
    and o: "suffix (c # cs) (remaining_calls (flows s0))"
  shows "\<exists>u. run_call fe ifap arg c s = Inr u \<and> commands u = commands s @ call_commands s0 ifap c \<and>
    exchanges u = exchanges s @ call_messages arg fe s0 c \<and> log_open u = (cs \<noteq> [])"
proof -
  note conf = c [unfolded configured_def] and sf = same_flows_simps [OF s(1) [unfolded same_session_def, THEN conjunct1]]
  have ready: "sender_ready s" using conf s by (simp add: sender_ready_def same_session_def same_flows_def)
  have "c \<in> set (remaining_calls (flows s0))" using set_mono_suffix [OF o] by auto
  then consider (log) "c = Log_Entry" | (stop) "c = Stop_Monitoring" | (node) f where "c = Clean_Node f" "f \<in> set (flows s)"
    | (own) f where "c = Clean_Own f" "f \<in> set (flows s)" | (ifs) "c = Clean_Interfaces" | (close) "c = Close_Log"
    unfolding sf(1) by (auto simp: remaining_calls_def)
  then have "\<exists>u. run_call fe ifap arg c s = Inr u \<and> commands u = commands s @ call_commands s0 ifap c \<and>
      exchanges u = exchanges s @ call_messages arg fe s0 c"
  proof cases
    case (node f)
    obtain src dst hop where "flow_key s f = (src, dst, hop)" by (metis prod.exhaust)
    then have "addr_ok (dar_ip s)" "dar_port s = DAR_PORT"
      using flow_addresses(4) [OF ready node(2)] conf s(1) by (simp_all add: same_session_def same_flows_def)
    moreover have "replies_ok fe" "0 \<le> receiver_port arg" "receiver_port arg < 100000" using conf by simp_all
    moreover have "sender_darshanas (monitor s) ! hop_index s f \<noteq> None"
      using node(2) conf s(1) sf by (simp add: same_session_def)
    ultimately obtain u where u: "clean_node (overlay_port arg) (receiver_port arg) fe f s = Inr u"
      "exchanges u = exchanges s @ [flow_exchange (overlay_port arg) (receiver_port arg) (dar_ip s) fe 0 (flow_key s f)]"
      using clean_node_ok [OF ready node(2), of fe "receiver_port arg" "overlay_port arg"] by auto
    have "dar_ip s = dar_ip s0" using s(1) by (simp add: same_session_def)
    with clean_node_commands [OF u(1)] u node(1) show ?thesis by (simp add: call_commands_def call_messages_def sf(3))
  next
    case (own f)
    from clean_own_commands [OF ready own(2)] own(1) show ?thesis by (auto simp: call_commands_def call_messages_def sf(3) [symmetric] dest: clean_own_exchanges)
  next
    case ifs
    with conf clean_loop [of ifap] show ?thesis by (simp add: call_commands_def call_messages_def)
  qed (use s in \<open>simp_all add: call_commands_def call_messages_def stop_path_monitoring_module_def' pthread_kill_0_def\<close>)
  then obtain u where u: "run_call fe ifap arg c s = Inr u" "commands u = commands s @ call_commands s0 ifap c"
    "exchanges u = exchanges s @ call_messages arg fe s0 c" by blast
  have "c = Close_Log \<longleftrightarrow> cs = []"
  proof -
    have "suffix (c # cs) (xs @ [Close_Log]) \<Longrightarrow> Close_Log \<notin> set xs \<Longrightarrow> c = Close_Log \<longleftrightarrow> cs = []" for xs
      by (induction cs rule: rev_induct) (auto dest!: set_mono_suffix)
    moreover have "remaining_calls (flows s0) = butlast (remaining_calls (flows s0)) @ [Close_Log]"
      "Close_Log \<notin> set (butlast (remaining_calls (flows s0)))"
      by (auto simp: remaining_calls_def butlast_append)
    ultimately show ?thesis using o by metis
  qed
  with u run_call_log [OF u(1)] s(2) show ?thesis by auto
qed

section \<open>The invariant of the two threads\<close>

definition main_waits :: "sender \<Rightarrow> main_thread \<Rightarrow> bool" where
  "main_waits s0 m = (case m of Main_Tearing cs \<Rightarrow> unfreed s0 cs | Main_Closed \<Rightarrow> False | _ \<Rightarrow> True)"

definition dar_waits :: "sender \<Rightarrow> dar_thread \<Rightarrow> bool" where
  "dar_waits s0 d = (case d of Dar_Handling n ends cs \<Rightarrow> unfreed s0 cs | _ \<Rightarrow> True)"

text \<open>The thread that freed the clock has the calls \<open>cs\<close> left, or is done with its teardown.\<close>

definition main_has :: "main_thread \<Rightarrow> teardown_call list \<Rightarrow> bool" where
  "main_has m cs \<longleftrightarrow> m = Main_Tearing cs \<or> m = Main_Closed \<and> cs = []"

definition dar_has :: "dar_thread \<Rightarrow> teardown_call list \<Rightarrow> bool" where
  "dar_has d cs \<longleftrightarrow> (\<exists>n ends. d = Dar_Handling n ends cs)"

text \<open>A teardown is made up to the calls \<open>cs\<close>.\<close>

definition undone :: "setup_sender_arg \<Rightarrow> flow_env \<Rightarrow> sender \<Rightarrow> ifaddrs list \<Rightarrow> sender \<Rightarrow> teardown_call list \<Rightarrow> bool" where
  "undone arg fe s0 ifap s cs \<longleftrightarrow> (\<exists>xs. remaining_calls (flows s0) = xs @ cs \<and> made arg fe s0 ifap xs s)"

definition unconnected :: "main_thread \<Rightarrow> bool" where
  "unconnected m \<longleftrightarrow> m \<in> {Main_Configured, Main_Monitoring, Main_Handling}"

definition teardown_ok :: "setup_sender_arg \<Rightarrow> flow_env \<Rightarrow> sender \<Rightarrow> ifaddrs list \<Rightarrow> main_thread \<Rightarrow> dar_thread \<Rightarrow> sender \<Rightarrow> bool" where
  "teardown_ok arg fe s0 ifap m d s =
     (if connection_timer s = Clock_Freed \<and> \<not> unconnected m
      then \<exists>cs. undone arg fe s0 ifap s cs \<and> log_open s = (cs \<noteq> []) \<and>
        (main_has m cs \<and> dar_waits s0 d \<or> main_waits s0 m \<and> dar_has d cs \<or>
         main_waits s0 m \<and> dar_waits s0 d \<and> cs = [])
      else main_waits s0 m \<and> dar_waits s0 d \<and> log_open s \<and> commands s = commands s0 \<and> exchanges s = exchanges s0)"

text \<open>The alerts so far; the list of monitored paths is empty.\<close>

definition alerts_ok :: "setup_sender_arg \<Rightarrow> dar_thread \<Rightarrow> sender \<Rightarrow> bool" where
  "alerts_ok arg d s \<longleftrightarrow> max_dar_alerts (dar_state (monitor s)) = max_alerts arg \<and>
     (\<exists>al. dar_rel (dar_state (monitor s)) al [] \<and>
       (case d of Dar_Absent \<Rightarrow> False | Dar_Reading n \<Rightarrow> n = int (length al) | Dar_Blocked n \<Rightarrow> n = int (length al)
          | Dar_Raising n \<Rightarrow> n = int (length al) \<and> max_alerts arg \<le> n
          | Dar_Handling n ends cs \<Rightarrow> n = int (length al) \<and> max_alerts arg \<le> n | Dar_Left \<Rightarrow> True))"

definition threads_ok ::
    "session_env \<Rightarrow> setup_sender_arg \<Rightarrow> flow_env \<Rightarrow> ifaddrs list \<Rightarrow> sender \<Rightarrow> main_thread \<Rightarrow> dar_thread \<Rightarrow> sender \<Rightarrow> bool" where
  "threads_ok env arg fe ifap s0 m d s \<longleftrightarrow> same_session s0 s \<and>
     (if m = Main_Configured then s = s0 \<and> d = Dar_Absent else dar_pthread_running (monitor s) \<and> alerts_ok arg d s) \<and>
     handler_registered s = (handler_registered s0 \<or> signal_ok env \<and> m \<noteq> Main_Configured \<and> m \<noteq> Main_Monitoring) \<and>
     (if unconnected m then connection_timer s = connection_timer s0 else connection_timer s \<noteq> Clock_Null) \<and>
     (\<forall>n ends cs. d = Dar_Handling n ends cs \<longrightarrow> Read_Clock \<notin> set cs \<longrightarrow> \<not> unconnected m) \<and>
     teardown_ok arg fe s0 ifap m d s"

text \<open>How far the sender's rules are removed.\<close>

definition partly_removed :: "setup_sender_arg \<Rightarrow> flow_env \<Rightarrow> sender \<Rightarrow> ifaddrs list \<Rightarrow> sender \<Rightarrow> bool" where
  "partly_removed arg fe s0 ifap s \<longleftrightarrow> (\<exists>xs. prefix xs (remaining_calls (flows s0)) \<and> made arg fe s0 ifap xs s)"

definition enough_alerts :: "setup_sender_arg \<Rightarrow> sender \<Rightarrow> bool" where
  "enough_alerts arg s \<longleftrightarrow> (\<exists>al. dar_rel (dar_state (monitor s)) al [] \<and> max_alerts arg \<le> int (length al))"

fun execution_ok :: "session_env \<Rightarrow> setup_sender_arg \<Rightarrow> flow_env \<Rightarrow> ifaddrs list \<Rightarrow> sender \<Rightarrow> execution \<Rightarrow> bool" where
  "execution_ok env arg fe ifap s0 (Threads m d s) = threads_ok env arg fe ifap s0 m d s"
| "execution_ok env arg fe ifap s0 (Died s) =
     (enough_alerts arg s \<and> partly_removed arg fe s0 ifap s \<and> \<not> handler_registered s0 \<and>
      (signal_ok env \<longrightarrow> connection_timer s = connection_timer s0 \<and> commands s = commands s0))"
| "execution_ok env arg fe ifap s0 (Ended n s) =
     (n = 1 \<and> s = s0 \<and> dar_bind_result env < 0 \<or>
      n = 1 \<and> enough_alerts arg s \<and> made arg fe s0 ifap (remaining_calls (flows s0)) s \<or>
      n = - 1 \<and> connect_result env < 0 \<and> partly_removed arg fe s0 ifap s)"
| "execution_ok env arg fe ifap s0 (Crashed e s) = ((e = NullDeref \<or> e = UseAfterFree) \<and> partly_removed arg fe s0 ifap s)"

lemma undone_suffix: "undone arg fe s0 ifap s cs \<Longrightarrow> suffix cs (remaining_calls (flows s0))"
  by (auto simp: undone_def suffix_def)

lemma undone_prefix: "undone arg fe s0 ifap s cs \<Longrightarrow> partly_removed arg fe s0 ifap s"
  by (auto simp: undone_def partly_removed_def prefix_def)

lemma undone_Nil: "undone arg fe s0 ifap s [] \<longleftrightarrow> made arg fe s0 ifap (remaining_calls (flows s0)) s"
  by (simp add: undone_def)

lemma nothing_removed:
  "commands s = commands s0 \<Longrightarrow> exchanges s = exchanges s0 \<Longrightarrow> partly_removed arg fe s0 ifap s"
  unfolding partly_removed_def by (rule exI [of _ "[]"]) simp

lemma teardown_ok_removed: "teardown_ok arg fe s0 ifap m d s \<Longrightarrow> partly_removed arg fe s0 ifap s"
  by (auto simp: teardown_ok_def intro: undone_prefix nothing_removed split: if_splits)

lemma remaining_not_Nil [simp]: "remaining_calls fs \<noteq> []"
  by (simp add: remaining_calls_def)

lemma undone_all:
  "commands s = commands s0 \<Longrightarrow> exchanges s = exchanges s0 \<Longrightarrow> undone arg fe s0 ifap s (remaining_calls (flows s0))"
  by (simp add: undone_def)

lemma undone_call:
  assumes "undone arg fe s0 ifap s (c # cs)" "commands u = commands s @ call_commands s0 ifap c"
    and "exchanges u = exchanges s @ call_messages arg fe s0 c"
  shows "undone arg fe s0 ifap u cs"
proof -
  obtain xs where "remaining_calls (flows s0) = (xs @ [c]) @ cs" "made arg fe s0 ifap xs s"
    using assms(1) by (auto simp: undone_def)
  with assms(2,3) show ?thesis unfolding undone_def made_def by (intro exI [of _ "xs @ [c]"]) simp
qed

lemma undone_cong:
  "commands u = commands s \<Longrightarrow> exchanges u = exchanges s \<Longrightarrow> undone arg fe s0 ifap u = undone arg fe s0 ifap s"
  by (simp add: undone_def made_def fun_eq_iff)

lemma undone_updates [simp]:
  "undone arg fe s0 ifap (s\<lparr>monitor := m\<rparr>) = undone arg fe s0 ifap s"
  "undone arg fe s0 ifap (s\<lparr>connection_open := b\<rparr>) = undone arg fe s0 ifap s"
  "undone arg fe s0 ifap (s\<lparr>handler_registered := b\<rparr>) = undone arg fe s0 ifap s"
  "undone arg fe s0 ifap (s\<lparr>connection_timer := k\<rparr>) = undone arg fe s0 ifap s"
  by (simp_all add: undone_def made_def fun_eq_iff)

text \<open>One call of either thread keeps the order of the teardowns.\<close>

lemma freed_call_undone:
  assumes "configured arg fe ifap s0" "same_session s0 s" "dar_pthread_running (monitor s)"
    and "undone arg fe s0 ifap s (c # cs)" "log_open s" "run_call fe ifap arg c s = Inr u"
  shows "undone arg fe s0 ifap u cs \<and> log_open u = (cs \<noteq> []) \<and> connection_timer u = connection_timer s"
proof -
  have o: "suffix (c # cs) (remaining_calls (flows s0))" using assms(4) by (rule undone_suffix)
  from freed_call [OF assms(1,2,5,3) o] assms(6)
  have "commands u = commands s @ call_commands s0 ifap c" "exchanges u = exchanges s @ call_messages arg fe s0 c"
    "log_open u = (cs \<noteq> [])" by auto
  moreover have "c \<noteq> Free_Clock" using set_mono_suffix [OF o] by auto
  ultimately show ?thesis using undone_call [OF assms(4)] run_call_clock [OF assms(6)] by simp
qed

lemma unfreed_not_undone: "unfreed s0 ds \<Longrightarrow> \<not> undone arg fe s0 ifap s ds"
  using undone_suffix [of arg fe s0 ifap s ds] set_mono_suffix [of ds "remaining_calls (flows s0)"]
    no_free_remaining [of "flows s0"] unfolding unfreed_def by blast

lemma main_call_keeps:
  assumes ok: "configured arg fe ifap s0" "same_session s0 s" "dar_pthread_running (monitor s)"
    and t: "teardown_ok arg fe s0 ifap (Main_Tearing (c # cs)) d s" and call: "run_call fe ifap arg c s = Inr u"
    and clock: "connection_timer s \<noteq> Clock_Null"
  shows "teardown_ok arg fe s0 ifap (Main_Tearing cs) d u \<and> connection_timer u \<noteq> Clock_Null"
proof (cases "unfreed s0 (c # cs)")
  case True
  note u = unfreed_call [OF True call clock]
  show ?thesis
  proof (cases "connection_timer s = Clock_Freed")
    case freed: True
    then obtain ds where "undone arg fe s0 ifap s ds" "log_open s = (ds \<noteq> [])" "dar_has d ds \<or> dar_waits s0 d \<and> ds = []"
      using t unfreed_not_undone [OF True] by (auto simp: teardown_ok_def unconnected_def main_has_def)
    with u freed undone_cong [of u s] show ?thesis by (auto simp: teardown_ok_def unconnected_def main_waits_def split: if_splits)
  next
    case False
    with t have "dar_waits s0 d" "log_open s" "commands s = commands s0" "exchanges s = exchanges s0"
      by (simp_all add: teardown_ok_def unconnected_def)
    with u False clock undone_all [of u s0 arg fe ifap] show ?thesis
      by (cases "c = Free_Clock") (auto simp: teardown_ok_def unconnected_def main_waits_def main_has_def)
  qed
next
  case False
  with t have "connection_timer s = Clock_Freed" "undone arg fe s0 ifap s (c # cs)" "log_open s" "dar_waits s0 d"
    by (auto simp: teardown_ok_def unconnected_def main_waits_def main_has_def split: if_splits)
  with freed_call_undone [OF ok _ _ call] show ?thesis by (auto simp: teardown_ok_def unconnected_def main_has_def)
qed

lemma dar_call_keeps:
  assumes ok: "configured arg fe ifap s0" "same_session s0 s" "dar_pthread_running (monitor s)"
    and t: "teardown_ok arg fe s0 ifap m (Dar_Handling n ends (c # cs)) s" and call: "run_call fe ifap arg c s = Inr u"
    and clock: "if unconnected m then connection_timer s \<noteq> Clock_Running else connection_timer s \<noteq> Clock_Null"
    and read: "Read_Clock \<notin> set (c # cs) \<Longrightarrow> \<not> unconnected m"
  shows "teardown_ok arg fe s0 ifap m (Dar_Handling n ends cs) u \<and>
    (if unconnected m then connection_timer u = connection_timer s else connection_timer u \<noteq> Clock_Null) \<and>
    (Read_Clock \<notin> set cs \<longrightarrow> \<not> unconnected m)"
proof (cases "unfreed s0 (c # cs)")
  case True
  have free: "c = Free_Clock \<Longrightarrow> \<not> unconnected m"
    using True read by (auto simp: unfreed_cases teardown_calls_def remaining_calls_def)
  with clock have "c = Free_Clock \<Longrightarrow> connection_timer s \<noteq> Clock_Null" by simp
  note u = unfreed_call [OF True call this]
  show ?thesis
  proof (cases "connection_timer s = Clock_Freed \<and> \<not> unconnected m")
    case freed: True
    then obtain ds where "undone arg fe s0 ifap s ds" "log_open s = (ds \<noteq> [])" "main_has m ds \<or> main_waits s0 m \<and> ds = []"
      using t unfreed_not_undone [OF True] by (auto simp: teardown_ok_def dar_has_def)
    with u freed undone_cong [of u s] show ?thesis by (auto simp: teardown_ok_def dar_waits_def split: if_splits)
  next
    case False
    with t have w: "main_waits s0 m" "log_open s" "commands s = commands s0" "exchanges s = exchanges s0"
      by (auto simp: teardown_ok_def)
    show ?thesis
    proof (cases "c = Free_Clock")
      case True
      with u w free undone_all [of u s0 arg fe ifap] show ?thesis by (auto simp: teardown_ok_def dar_has_def)
    next
      case False
      with u have u': "unfreed s0 cs" "connection_timer u = connection_timer s" "commands u = commands s"
        "exchanges u = exchanges s" "log_open u = log_open s" "Read_Clock \<notin> set cs \<longrightarrow> connection_timer s = Clock_Running" by simp_all
      have "\<not> (connection_timer u = Clock_Freed \<and> \<not> unconnected m)"
        using \<open>\<not> (connection_timer s = Clock_Freed \<and> \<not> unconnected m)\<close> u'(2) by simp
      with u' w clock show ?thesis by (auto simp: teardown_ok_def dar_waits_def split: if_splits)
    qed
  qed
next
  case False
  with t have "connection_timer s = Clock_Freed" "undone arg fe s0 ifap s (c # cs)" "log_open s" "main_waits s0 m" "\<not> unconnected m"
    by (auto simp: teardown_ok_def dar_waits_def dar_has_def split: if_splits)
  with freed_call_undone [OF ok _ _ call] show ?thesis by (auto simp: teardown_ok_def dar_has_def)
qed

text \<open>A call that fails.\<close>

lemma call_fails:
  assumes ok: "configured arg fe ifap s0" "same_session s0 s" "dar_pthread_running (monitor s)"
    and t: "unfreed s0 (c # cs) \<or> undone arg fe s0 ifap s (c # cs) \<and> log_open s" and call: "run_call fe ifap arg c s = Inl e"
  shows "e = NullDeref \<or> e = UseAfterFree"
proof (cases "unfreed s0 (c # cs)")
  case True
  then show ?thesis using call by (rule unfreed_call_fails)
next
  case False
  with t undone_suffix have "log_open s" "suffix (c # cs) (remaining_calls (flows s0))" by blast+
  from freed_call [OF ok(1,2) this(1) ok(3) this(2)] call show ?thesis by auto
qed

lemma main_call_fails_ok:
  assumes "configured arg fe ifap s0" "threads_ok env arg fe ifap s0 (Main_Tearing (c # cs)) d s" "run_call fe ifap arg c s = Inl e"
  shows "execution_ok env arg fe ifap s0 (crash e s)"
proof -
  have t: "teardown_ok arg fe s0 ifap (Main_Tearing (c # cs)) d s" "same_session s0 s" "dar_pthread_running (monitor s)"
    using assms(2) by (simp_all add: threads_ok_def)
  then have "unfreed s0 (c # cs) \<or> undone arg fe s0 ifap s (c # cs) \<and> log_open s"
    by (auto simp: teardown_ok_def main_waits_def main_has_def split: if_splits)
  from call_fails [OF assms(1) t(2,3) this assms(3)] teardown_ok_removed [OF t(1)] show ?thesis by (auto simp: crash_def)
qed

lemma dar_call_fails_ok:
  assumes "configured arg fe ifap s0" "threads_ok env arg fe ifap s0 m (Dar_Handling n ends (c # cs)) s" "run_call fe ifap arg c s = Inl e"
  shows "execution_ok env arg fe ifap s0 (crash e s)"
proof -
  have t: "teardown_ok arg fe s0 ifap m (Dar_Handling n ends (c # cs)) s" "same_session s0 s" "dar_pthread_running (monitor s)"
    using assms(2) by (auto simp: threads_ok_def split: if_splits)
  then have "unfreed s0 (c # cs) \<or> undone arg fe s0 ifap s (c # cs) \<and> log_open s"
    by (auto simp: teardown_ok_def dar_waits_def dar_has_def split: if_splits)
  from call_fails [OF assms(1) t(2,3) this assms(3)] teardown_ok_removed [OF t(1)] show ?thesis by (auto simp: crash_def)
qed

text \<open>An iteration of the receive loop.\<close>

lemma spec_step_Nil [simp]: "spec_step e [] = []"
  by (rule length_0_conv [THEN iffD1]) simp

lemma dar_iteration_cases:
  assumes "dar_rel (dar_state (monitor s)) al []"
  shows "if well_formed bytes
    then \<exists>d. dar_iteration now bytes n s = Some (Inr (s\<lparr>monitor := (monitor s)\<lparr>dar_state := d\<rparr>\<rparr>, n + 1,
        max_dar_alerts (dar_state (monitor s)) \<le> n + 1)) \<and>
      dar_rel d (al @ [alert_of (now, bytes)]) [] \<and> max_dar_alerts d = max_dar_alerts (dar_state (monitor s))
    else dar_iteration now bytes n s = Some (Inl NullDeref)"
proof (cases "well_formed bytes")
  case True
  from handle_client_alert_refines [OF assms True, of now] obtain d where
    "handle_client_alert now (datagram_text bytes) (dar_state (monitor s)) = Some (Inr d)"
    "dar_rel d (al @ [alert_of (now, bytes)]) []" "max_dar_alerts d = max_dar_alerts (dar_state (monitor s))" by auto
  with True show ?thesis
    by (auto simp: dar_iteration_def loop_step simp del: handle_darshana_client_loop.simps(3) intro!: exI [of _ d])
next
  case False
  with parse_malformed [OF False, of now] show ?thesis
    by (simp add: dar_iteration_def loop_step handle_client_alert_def del: handle_darshana_client_loop.simps(3))
qed

lemma dar_iteration_ok:
  assumes "alerts_ok arg (Dar_Blocked n) s" "dar_iteration now bytes n s = Some (Inr (u, k, raised))"
  shows "alerts_ok arg (if raised then Dar_Raising k else Dar_Reading k) u \<and>
    (\<exists>d. u = s\<lparr>monitor := (monitor s)\<lparr>dar_state := d\<rparr>\<rparr>)"
proof -
  obtain al where al: "dar_rel (dar_state (monitor s)) al []" "n = int (length al)"
      "max_dar_alerts (dar_state (monitor s)) = max_alerts arg"
    using assms(1) by (auto simp: alerts_ok_def)
  have w: "well_formed bytes"
  proof (rule ccontr)
    assume "\<not> well_formed bytes"
    then show False using dar_iteration_cases [OF al(1), of bytes now n] assms(2) by simp
  qed
  then obtain d where d: "u = s\<lparr>monitor := (monitor s)\<lparr>dar_state := d\<rparr>\<rparr>" "k = n + 1" "raised = (max_alerts arg \<le> n + 1)"
      "dar_rel d (al @ [alert_of (now, bytes)]) []" "max_dar_alerts d = max_alerts arg"
    using dar_iteration_cases [OF al(1), of bytes now n] assms(2) al(3) by auto
  from d(4) have "\<exists>bl. dar_rel d bl [] \<and> n + 1 = int (length bl)"
    by (rule exI [where x = "al @ [alert_of (now, bytes)]", OF conjI]) (simp add: al(2))
  with d show ?thesis by (auto simp: alerts_ok_def)
qed

lemma dar_iteration_fails:
  assumes "alerts_ok arg (Dar_Blocked n) s" "dar_iteration now bytes n s = Some (Inl e)"
  shows "e = NullDeref"
proof -
  obtain al where al: "dar_rel (dar_state (monitor s)) al []" using assms(1) by (auto simp: alerts_ok_def)
  show ?thesis using dar_iteration_cases [OF al, of bytes now n] assms(2) by (auto split: if_splits)
qed

lemma alerts_ok_enough: "alerts_ok arg (Dar_Raising n) s \<Longrightarrow> enough_alerts arg s"
    "alerts_ok arg (Dar_Handling n ends cs) s \<Longrightarrow> enough_alerts arg s"
  by (auto simp: alerts_ok_def enough_alerts_def)

text \<open>The start of the alert receiver.\<close>

lemma start_threads:
  assumes c: "configured arg fe ifap s0" and m: "monitored (monitor s0) al ps" and t: "dar_thread_result env = 0"
    and s: "start_monitoring env arg s0 = Inr u"
  shows "threads_ok env arg fe ifap s0 Main_Monitoring (Dar_Reading 0) u"
proof -
  obtain fd m' where u: "init_dar_socket (dar_sockfd env) (dar_bind_result env) = Inr fd" "u = s0\<lparr>monitor := m'\<rparr>"
      "start_path_monitoring_module (dar_sockfd env) (dar_bind_result env) (dar_thread_result env) (max_alerts arg) (monitor s0) = Inr m'"
    using s by (auto simp: start_monitoring_def start_path_monitoring_module_def rbind_eq_Inr)
  then have m': "m' = (monitor s0)\<lparr>dar_state := setup_dar (dar_state (monitor s0)) (max_alerts arg),
      alert_receiver_socket_fd := fd, dar_socket_open := 0 \<le> fd, dar_pthread_running := True\<rparr>"
    using t by (simp add: start_path_monitoring_module_def start_dar_handler_def)
  have "dar_rel (dar_state m') [] []" by (rule start_forgets [OF m u(3)])
  with u(2) m' c show ?thesis
    by (auto simp: threads_ok_def alerts_ok_def same_session_def same_flows_def configured_def unconnected_def
      teardown_ok_def main_waits_def dar_waits_def sender_ready_def setup_dar_def)
qed

lemma main_call_ok:
  assumes c: "configured arg fe ifap s0" and ok: "threads_ok env arg fe ifap s0 (Main_Tearing (c # cs)) d s"
    and call: "run_call fe ifap arg c s = Inr u"
  shows "threads_ok env arg fe ifap s0 (Main_Tearing cs) d u"
proof -
  have t: "same_session s0 s" "dar_pthread_running (monitor s)" "teardown_ok arg fe s0 ifap (Main_Tearing (c # cs)) d s"
      "connection_timer s \<noteq> Clock_Null"
    using ok by (auto simp: threads_ok_def unconnected_def)
  have k: "kept s u" by (rule run_call_kept [OF call])
  have "alerts_ok arg d u" "handler_registered u = handler_registered s" "dar_pthread_running (monitor u)"
    using ok k by (auto simp: threads_ok_def alerts_ok_def kept_def)
  with kept_same_session [OF k t(1)] main_call_keeps [OF c t(1,2,3) call t(4)] ok show ?thesis
    by (auto simp: threads_ok_def unconnected_def)
qed

lemma dar_call_ok:
  assumes c: "configured arg fe ifap s0" and ok: "threads_ok env arg fe ifap s0 m (Dar_Handling n ends (c # cs)) s"
    and call: "run_call fe ifap arg c s = Inr u"
  shows "threads_ok env arg fe ifap s0 m (Dar_Handling n ends cs) u"
proof -
  have t: "same_session s0 s" "dar_pthread_running (monitor s)" "teardown_ok arg fe s0 ifap m (Dar_Handling n ends (c # cs)) s"
      "m \<noteq> Main_Configured" "Read_Clock \<notin> set (c # cs) \<Longrightarrow> \<not> unconnected m"
    using ok by (auto simp: threads_ok_def split: if_splits)
  have clock: "if unconnected m then connection_timer s \<noteq> Clock_Running else connection_timer s \<noteq> Clock_Null"
    using ok c by (simp add: threads_ok_def configured_def split: if_splits)
  have k: "kept s u" by (rule run_call_kept [OF call])
  have "alerts_ok arg (Dar_Handling n ends cs) u" "handler_registered u = handler_registered s" "dar_pthread_running (monitor u)"
    using ok k t(4) by (auto simp: threads_ok_def alerts_ok_def kept_def)
  with kept_same_session [OF k t(1)] dar_call_keeps [OF c t(1,2,3) call clock t(5)] ok show ?thesis
    by (auto simp: threads_ok_def split: if_splits)
qed

lemma on_signal_cases:
  "on_signal arg n s = Dar_Reading n \<or> (\<exists>ends. on_signal arg n s = Dar_Handling n ends (teardown_calls (flows s)))"
  by (auto simp: on_signal_def)

text \<open>A thread that is in no teardown may start one.\<close>

lemma signal_ok_step:
  assumes "threads_ok env arg fe ifap s0 m (Dar_Raising n) s"
  shows "threads_ok env arg fe ifap s0 m (on_signal arg n s) s"
proof -
  have ok: "m \<noteq> Main_Configured" "alerts_ok arg (Dar_Raising n) s" "teardown_ok arg fe s0 ifap m (Dar_Raising n) s"
    using assms by (auto simp: threads_ok_def split: if_splits)
  have fl: "flows s = flows s0"
    using assms same_flows_simps(1) [of s0 s] by (simp add: threads_ok_def same_session_def)
  have "alerts_ok arg (Dar_Reading n) s" "alerts_ok arg (Dar_Handling n ends cs) s" for ends cs
    using ok(2) by (auto simp: alerts_ok_def)
  moreover have "teardown_ok arg fe s0 ifap m (Dar_Reading n) s"
    using ok(3) by (auto simp: teardown_ok_def dar_waits_def dar_has_def)
  moreover have "teardown_ok arg fe s0 ifap m (Dar_Handling n ends (teardown_calls (flows s0))) s" for ends
    using ok(3) by (auto simp: teardown_ok_def dar_waits_def dar_has_def)
  moreover have "Read_Clock \<in> set (teardown_calls (flows s0))" by (simp add: teardown_calls_def)
  ultimately show ?thesis
    using on_signal_cases [of arg n s] assms by (auto simp: threads_ok_def fl)
qed

lemma threads_ok_partly: "threads_ok env arg fe ifap s0 m d s \<Longrightarrow> partly_removed arg fe s0 ifap s"
  by (auto simp: threads_ok_def intro: teardown_ok_removed)

text \<open>A thread of the alert receiver whose teardown is complete.\<close>

lemma handler_done:
  assumes "threads_ok env arg fe ifap s0 m (Dar_Handling n ends []) s"
  shows "made arg fe s0 ifap (remaining_calls (flows s0)) s \<and> main_waits s0 m \<and> m \<noteq> Main_Configured \<and>
    alerts_ok arg (Dar_Handling n ends []) s \<and> undone arg fe s0 ifap s [] \<and> \<not> log_open s \<and> connection_timer s = Clock_Freed \<and>
    \<not> unconnected m"
  using assms by (auto simp: threads_ok_def teardown_ok_def dar_waits_def dar_has_def undone_Nil made_def split: if_splits)

lemma dar_alert_ok:
  assumes "threads_ok env arg fe ifap s0 m (Dar_Blocked n) s" "alerts_ok arg d u" "u = s\<lparr>monitor := (monitor s)\<lparr>dar_state := st\<rparr>\<rparr>"
    and "d = Dar_Raising k \<or> d = Dar_Reading k"
  shows "threads_ok env arg fe ifap s0 m d u"
proof -
  have "teardown_ok arg fe s0 ifap m d u"
    using assms(1,3,4) by (auto simp: threads_ok_def teardown_ok_def dar_waits_def dar_has_def)
  moreover have "m \<noteq> Main_Configured" using assms(1) by (auto simp: threads_ok_def)
  moreover have "same_session s0 u" "dar_pthread_running (monitor u) = dar_pthread_running (monitor s)"
      "handler_registered u = handler_registered s" "connection_timer u = connection_timer s"
    using assms(1) by (simp_all add: assms(3) threads_ok_def same_session_def same_flows_def)
  ultimately show ?thesis using assms(1,2,4) by (auto simp: threads_ok_def)
qed

lemma signal_kills:
  assumes "threads_ok env arg fe ifap s0 m (Dar_Raising n) s" "\<not> handler_registered s"
  shows "execution_ok env arg fe ifap s0 (Died s)"
proof -
  have a: "m \<noteq> Main_Configured" "alerts_ok arg (Dar_Raising n) s" using assms(1) by (auto simp: threads_ok_def split: if_splits)
  have "m = Main_Monitoring" if "signal_ok env"
    using that a(1) assms by (auto simp: threads_ok_def)
  then have "connection_timer s = connection_timer s0 \<and> commands s = commands s0" if "signal_ok env"
    using that assms(1) by (simp add: threads_ok_def unconnected_def teardown_ok_def)
  moreover have "\<not> handler_registered s0" using assms by (simp add: threads_ok_def)
  ultimately show ?thesis using a(2) threads_ok_partly [OF assms(1)] alerts_ok_enough(1) by simp
qed

lemma threads_ok_step:
  assumes step: "thread_step env arg fe ifap p q" and ok: "execution_ok env arg fe ifap s0 p"
    and c: "configured arg fe ifap s0" and m: "monitored (monitor s0) al ps" and t: "dar_thread_result env = 0"
  shows "execution_ok env arg fe ifap s0 q"
  using step
proof cases
  case (main_start s u)
  with ok start_threads [OF c m t, of u] t show ?thesis by (simp add: threads_ok_def)
next
  case (main_start_fails s e)
  with ok start_monitoring_fails [OF main_start_fails(3)] show ?thesis by (simp add: crash_def threads_ok_def)
next
  case (main_register d s)
  with ok show ?thesis
    by (auto simp: threads_ok_def register_handler_def same_session_def same_flows_def alerts_ok_def unconnected_def
      teardown_ok_def main_waits_def main_has_def split: if_splits)
next
  case (main_clock d s)
  with ok show ?thesis
    by (auto simp: threads_ok_def same_session_def same_flows_def alerts_ok_def unconnected_def
      teardown_ok_def main_waits_def main_has_def)
next
  case (main_connect d s)
  with ok show ?thesis
    by (auto simp: threads_ok_def same_session_def same_flows_def alerts_ok_def unconnected_def
      teardown_ok_def main_waits_def main_has_def)
next
  case (main_connect_fails d s)
  with ok threads_ok_partly [of env arg fe ifap s0] show ?thesis by (auto simp: crash_def)
next
  case (main_close d s)
  have "flows s = flows s0"
    using ok main_close(1) same_flows_simps(1) [of s0 s] by (simp add: threads_ok_def same_session_def)
  with ok main_close show ?thesis
    by (auto simp: threads_ok_def unconnected_def teardown_ok_def main_waits_def main_has_def)
next
  case (main_call c' s u cs d)
  with ok main_call_ok [OF c] show ?thesis by simp
next
  case (main_call_fails c' s e cs d)
  with ok main_call_fails_ok [OF c] show ?thesis by simp
next
  case (main_closed d s)
  with ok show ?thesis
    by (auto simp: threads_ok_def unconnected_def teardown_ok_def main_waits_def main_has_def split: if_splits)
next
  case (dar_reads s m' n)
  with ok show ?thesis
    by (auto simp: threads_ok_def alerts_ok_def teardown_ok_def dar_waits_def dar_has_def split: if_splits)
next
  case (dar_alert now bytes n s u k raised m')
  with ok have a: "alerts_ok arg (Dar_Blocked n) s" "m' \<noteq> Main_Configured" by (auto simp: threads_ok_def split: if_splits)
  from dar_iteration_ok [OF a(1) dar_alert(3)] obtain d where
    d: "alerts_ok arg (if raised then Dar_Raising k else Dar_Reading k) u" "u = s\<lparr>monitor := (monitor s)\<lparr>dar_state := d\<rparr>\<rparr>" by blast
  show ?thesis
    using dar_alert_ok [OF _ d, of env fe ifap s0 m' n k] ok dar_alert(1,2) by (simp split: if_splits)
next
  case (dar_alert_fails now bytes n s e m')
  with ok have "alerts_ok arg (Dar_Blocked n) s" by (auto simp: threads_ok_def split: if_splits)
  from dar_iteration_fails [OF this dar_alert_fails(3)] dar_alert_fails ok threads_ok_partly [of env arg fe ifap s0] show ?thesis
    by (auto simp: crash_def)
next
  case (dar_read_fails m' n s)
  with ok show ?thesis
    by (auto simp: threads_ok_def alerts_ok_def teardown_ok_def dar_waits_def dar_has_def split: if_splits)
next
  case (dar_leaves m' n s)
  with ok show ?thesis
    by (auto simp: threads_ok_def alerts_ok_def teardown_ok_def dar_waits_def dar_has_def split: if_splits)
next
  case (signal_default s m' n)
  with ok signal_kills show ?thesis by simp
next
  case (signal_handled s m' n)
  with ok signal_ok_step show ?thesis by simp
next
  case (handler_call c' s u m' n ends cs)
  with ok dar_call_ok [OF c] show ?thesis by simp
next
  case (handler_call_fails c' s e m' n ends cs)
  with ok dar_call_fails_ok [OF c] show ?thesis by simp
next
  case (handler_exits m' n s)
  then have d: "threads_ok env arg fe ifap s0 m' (Dar_Handling n True []) s" using ok by simp
  from handler_done [OF d] alerts_ok_enough(2) show ?thesis unfolding handler_exits(2) by auto
next
  case (handler_returns m' n s)
  then have d: "threads_ok env arg fe ifap s0 m' (Dar_Handling n False []) s" using ok by simp
  from handler_done [OF d] have "teardown_ok arg fe s0 ifap m' (Dar_Reading n) s" "alerts_ok arg (Dar_Reading n) s"
    by (auto simp: teardown_ok_def dar_waits_def alerts_ok_def)
  with d show ?thesis unfolding handler_returns(2) by (auto simp: threads_ok_def)
qed

definition execution_inv ::
    "session_env \<Rightarrow> setup_sender_arg \<Rightarrow> flow_env \<Rightarrow> ifaddrs list \<Rightarrow> sender \<Rightarrow> execution \<Rightarrow> bool" where
  "execution_inv env arg fe ifap s0 p \<longleftrightarrow>
     configured arg fe ifap s0 \<longrightarrow> (\<exists>al ps. monitored (monitor s0) al ps) \<longrightarrow> dar_thread_result env = 0 \<longrightarrow>
     execution_ok env arg fe ifap s0 p"

lemma execution_start:
  "execution_inv env arg fe ifap s0 (Threads Main_Configured Dar_Absent s0)"
  by (simp add: execution_inv_def threads_ok_def same_session_def same_flows_def configured_def unconnected_def
    teardown_ok_def main_waits_def dar_waits_def sender_ready_def)

lemma execution_step:
  "thread_step env arg fe ifap p q \<Longrightarrow> execution_inv env arg fe ifap s0 p \<Longrightarrow> execution_inv env arg fe ifap s0 q"
  unfolding execution_inv_def using threads_ok_step by blast

interpretation threads: step_invariant "thread_step env arg fe ifap" "Threads Main_Configured Dar_Absent s0"
    "execution_inv env arg fe ifap s0" for env arg fe ifap s0
  by unfold_locales (rule execution_start, erule (1) execution_step)

section \<open>What a use of the freed clock takes\<close>

text \<open>
  While the main thread has not freed the clock of a connection, only a handler can have freed
  it, and it takes as many alerts as configured to start one.
\<close>

fun alert_caused :: "setup_sender_arg \<Rightarrow> sender \<Rightarrow> execution \<Rightarrow> bool" where
  "alert_caused arg s0 (Threads m d s) =
     (connection_timer s = Clock_Freed \<longrightarrow> \<not> unconnected m \<longrightarrow> main_waits s0 m \<longrightarrow> enough_alerts arg s)"
| "alert_caused arg s0 (Crashed e s) = (e = UseAfterFree \<longrightarrow> enough_alerts arg s)"
| "alert_caused arg s0 p = True"

lemma enough_kept: "kept s u \<Longrightarrow> enough_alerts arg s \<Longrightarrow> enough_alerts arg u"
  by (simp add: kept_def enough_alerts_def)

lemma enough_alert:
  assumes "enough_alerts arg s" "dar_iteration now bytes n s = Some (Inr (u, k, raised))"
  shows "enough_alerts arg u"
proof -
  obtain al where al: "dar_rel (dar_state (monitor s)) al []" "max_alerts arg \<le> int (length al)"
    using assms(1) by (auto simp: enough_alerts_def)
  have w: "well_formed bytes"
  proof (rule ccontr)
    assume "\<not> well_formed bytes"
    then show False using dar_iteration_cases [OF al(1), of bytes now n] assms(2) by simp
  qed
  then obtain d where "u = s\<lparr>monitor := (monitor s)\<lparr>dar_state := d\<rparr>\<rparr>" "dar_rel d (al @ [alert_of (now, bytes)]) []"
    using dar_iteration_cases [OF al(1), of bytes now n] assms(2) by auto
  with al(2) show ?thesis
    unfolding enough_alerts_def by (intro exI [of _ "al @ [alert_of (now, bytes)]"]) simp
qed

lemma unfreed_call_fault:
  assumes "unfreed s0 (c # cs)" "run_call fe ifap arg c s = Inl e" "e = UseAfterFree" "log_open s"
  shows "connection_timer s = Clock_Freed"
  using assms by (auto simp: unfreed_cases teardown_calls_def rbind_eq_Inl guard_def split: clock_pointer.splits if_splits)

lemma main_call_caused:
  assumes c: "configured arg fe ifap s0" and ok: "threads_ok env arg fe ifap s0 (Main_Tearing (c # cs)) d s"
    and before: "alert_caused arg s0 (Threads (Main_Tearing (c # cs)) d s)"
  shows "run_call fe ifap arg c s = Inr u \<Longrightarrow> alert_caused arg s0 (Threads (Main_Tearing cs) d u)"
    and "run_call fe ifap arg c s = Inl e \<Longrightarrow> alert_caused arg s0 (crash e s)"
proof -
  have t: "teardown_ok arg fe s0 ifap (Main_Tearing (c # cs)) d s" "same_session s0 s" "dar_pthread_running (monitor s)"
    "connection_timer s \<noteq> Clock_Null"
    using ok by (auto simp: threads_ok_def unconnected_def)
  then consider (waits) "unfreed s0 (c # cs)" | (has) "undone arg fe s0 ifap s (c # cs)" "log_open s"
    by (auto simp: teardown_ok_def main_waits_def main_has_def split: if_splits)
  note cases = this
  show "alert_caused arg s0 (Threads (Main_Tearing cs) d u)" if call: "run_call fe ifap arg c s = Inr u"
    using cases
  proof cases
    case waits
    from unfreed_call [OF this call t(4)] before waits enough_kept [OF run_call_kept [OF call]] show ?thesis
      by (cases "c = Free_Clock") (auto simp: main_waits_def unconnected_def unfreed_def [of s0 "remaining_calls (flows s0)"])
  next
    case has
    then have "Free_Clock \<notin> set cs"
      using set_mono_suffix [OF undone_suffix [OF has(1)]] no_free_remaining [of "flows s0"] by auto
    then show ?thesis by (simp add: main_waits_def unfreed_def)
  qed
  show "alert_caused arg s0 (crash e s)" if call: "run_call fe ifap arg c s = Inl e"
    using cases
  proof cases
    case waits
    have "enough_alerts arg s" if e: "e = UseAfterFree"
    proof -
      have "connection_timer s = Clock_Freed"
        using unfreed_call_fault [OF waits call e] t(1) by (auto simp: teardown_ok_def unconnected_def split: if_splits)
      with before waits show ?thesis by (simp add: main_waits_def unconnected_def)
    qed
    then show ?thesis by (cases e) (simp_all add: crash_def)
  next
    case has
    from freed_call [OF c t(2) has(2) t(3) undone_suffix [OF has(1)]] call show ?thesis by auto
  qed
qed

lemma alert_caused_step:
  assumes step: "thread_step env arg fe ifap p q" and ok: "execution_ok env arg fe ifap s0 p"
    and c: "configured arg fe ifap s0" and before: "alert_caused arg s0 p"
  shows "alert_caused arg s0 q"
  using step
proof cases
  case (main_start_fails s e)
  from start_monitoring_fails [OF main_start_fails(3)] main_start_fails(2) show ?thesis by (simp add: crash_def)
next
  case (main_call c' s u cs d)
  with ok before main_call_caused(1) [OF c] show ?thesis by simp
next
  case (main_call_fails c' s e cs d)
  with ok before main_call_caused(2) [OF c] show ?thesis by simp
next
  case (dar_alert now bytes n s u k raised m')
  then have a: "alerts_ok arg (Dar_Blocked n) s" using ok by (auto simp: threads_ok_def split: if_splits)
  from dar_iteration_ok [OF this dar_alert(3)] obtain st where "u = s\<lparr>monitor := (monitor s)\<lparr>dar_state := st\<rparr>\<rparr>" by blast
  with before dar_alert(1,2) enough_alert [OF _ dar_alert(3), of arg] show ?thesis by simp
next
  case (dar_alert_fails now bytes n s e m')
  with ok have "alerts_ok arg (Dar_Blocked n) s" by (auto simp: threads_ok_def split: if_splits)
  from dar_iteration_fails [OF this dar_alert_fails(3)] dar_alert_fails(2) show ?thesis by (simp add: crash_def)
next
  case (handler_call c' s u m' n ends cs)
  then have "enough_alerts arg s" using ok alerts_ok_enough(2) by (auto simp: threads_ok_def split: if_splits)
  with enough_kept [OF run_call_kept [OF handler_call(3)]] handler_call(2) show ?thesis by simp
next
  case (handler_call_fails c' s e m' n ends cs)
  then have "enough_alerts arg s" using ok alerts_ok_enough(2) by (auto simp: threads_ok_def split: if_splits)
  with handler_call_fails(2) show ?thesis by (cases e) (simp_all add: crash_def)
qed (use before in \<open>auto simp: unconnected_def main_waits_def crash_def enough_alerts_def register_handler_def
    start_monitoring_def dest: same_flows_simps split: if_splits\<close>)

definition caused_inv ::
    "session_env \<Rightarrow> setup_sender_arg \<Rightarrow> flow_env \<Rightarrow> ifaddrs list \<Rightarrow> sender \<Rightarrow> execution \<Rightarrow> bool" where
  "caused_inv env arg fe ifap s0 p \<longleftrightarrow>
     configured arg fe ifap s0 \<longrightarrow> (\<exists>al ps. monitored (monitor s0) al ps) \<longrightarrow> dar_thread_result env = 0 \<longrightarrow>
     execution_ok env arg fe ifap s0 p \<and> alert_caused arg s0 p"

interpretation causes: step_invariant "thread_step env arg fe ifap" "Threads Main_Configured Dar_Absent s0"
    "caused_inv env arg fe ifap s0" for env arg fe ifap s0
proof unfold_locales
  show "caused_inv env arg fe ifap s0 (Threads Main_Configured Dar_Absent s0)"
    using execution_start [of env arg fe ifap s0] by (simp add: caused_inv_def execution_inv_def unconnected_def)
  fix p q
  assume "thread_step env arg fe ifap p q" "caused_inv env arg fe ifap s0 p"
  then show "caused_inv env arg fe ifap s0 q"
    unfolding caused_inv_def using threads_ok_step alert_caused_step by blast
qed

lemma removal_remaining:
  "removal s0 ifap (remaining_calls (flows s0)) =
     map delete_cmd (sender_nat.all_rules (map (flow_key s0) (flows s0))) @ projr (clean_virtual_interfaces ifap)"
  by (simp add: removal_def remaining_calls_def call_commands_def sender_nat.all_rules_def map_concat comp_def)

end
