(* ===== verification/Session_Runs.thy ===== *)
theory Session_Runs
  imports Session_Threads
begin

text \<open>
  Executions of the two threads that happen: every way in which a session can end, and the
  alert that arrives during a teardown.
\<close>

section \<open>Runs\<close>

lemma main_runs:
  "run_steps (run_call fe ifap arg) cs s = Inr u \<Longrightarrow>
   (thread_step env arg fe ifap)\<^sup>*\<^sup>* (Threads (Main_Tearing (cs @ ds)) d s) (Threads (Main_Tearing ds) d u)"
proof (induction cs arbitrary: s)
  case (Cons c cs)
  then obtain v where v: "run_call fe ifap arg c s = Inr v" "run_steps (run_call fe ifap arg) cs v = Inr u"
    by (auto simp: rbind_eq_Inr)
  have "thread_step env arg fe ifap (Threads (Main_Tearing (c # (cs @ ds))) d s) (Threads (Main_Tearing (cs @ ds)) d v)"
    by (rule main_call [OF v(1)])
  with Cons.IH [OF v(2)] show ?case by (simp add: converse_rtranclp_into_rtranclp)
qed simp

text \<open>The alerts that it takes to have the next one raise the signal.\<close>

lemma alerts_arrive:
  assumes "dar_rel (dar_state (monitor s)) al []" "dar_socket_open (monitor s)"
  shows "\<exists>n st bl. (thread_step env arg fe ifap)\<^sup>*\<^sup>* (Threads m (Dar_Reading k) s)
      (Threads m (Dar_Blocked n) (s\<lparr>monitor := (monitor s)\<lparr>dar_state := st\<rparr>\<rparr>)) \<and>
    dar_rel st bl [] \<and> max_dar_alerts st = max_dar_alerts (dar_state (monitor s)) \<and> max_dar_alerts st \<le> n + 1"
  using assms
proof (induction "nat (max_dar_alerts (dar_state (monitor s)) - k)" arbitrary: k s al rule: less_induct)
  case less
  let ?R = "thread_step env arg fe ifap" and ?m = "max_dar_alerts (dar_state (monitor s))"
  have wait: "?R (Threads m (Dar_Reading k) s) (Threads m (Dar_Blocked k) s)" by (rule dar_reads [OF less.prems(2)])
  show ?case
  proof (cases "?m \<le> k + 1")
    case True
    with wait less.prems(1) show ?thesis
      by (intro exI [of _ k] exI [of _ "dar_state (monitor s)"] exI [of _ al]) (simp add: r_into_rtranclp)
  next
    case False
    obtain d where d: "dar_iteration sample_tm sample_alert k s =
          Some (Inr (s\<lparr>monitor := (monitor s)\<lparr>dar_state := d\<rparr>\<rparr>, k + 1, ?m \<le> k + 1))"
        "dar_rel d (al @ [alert_of (sample_tm, sample_alert)]) []" "max_dar_alerts d = ?m"
      using dar_iteration_cases [OF less.prems(1), of sample_alert sample_tm k] by (auto simp: sample_well_formed)
    let ?u = "s\<lparr>monitor := (monitor s)\<lparr>dar_state := d\<rparr>\<rparr>"
    from dar_alert [OF d(1), of env arg fe ifap m] False
    have step: "?R (Threads m (Dar_Blocked k) s) (Threads m (Dar_Reading (k + 1)) ?u)" by simp
    have "\<exists>n st bl. ?R\<^sup>*\<^sup>* (Threads m (Dar_Reading (k + 1)) ?u)
          (Threads m (Dar_Blocked n) (?u\<lparr>monitor := (monitor ?u)\<lparr>dar_state := st\<rparr>\<rparr>)) \<and>
        dar_rel st bl [] \<and> max_dar_alerts st = max_dar_alerts (dar_state (monitor ?u)) \<and> max_dar_alerts st \<le> n + 1"
      by (rule less.hyps) (use False d less.prems(2) in simp_all)
    then obtain n st bl where "?R\<^sup>*\<^sup>* (Threads m (Dar_Reading (k + 1)) ?u)
        (Threads m (Dar_Blocked n) (s\<lparr>monitor := (monitor s)\<lparr>dar_state := st\<rparr>\<rparr>))"
      and st: "dar_rel st bl []" "max_dar_alerts st = ?m" "?m \<le> n + 1" by (auto simp: d(3))
    from converse_rtranclp_into_rtranclp [OF wait converse_rtranclp_into_rtranclp [OF step this(1)]] st show ?thesis
      by (intro exI [of _ n] exI [of _ st] exI [of _ bl]) simp
  qed
qed

text \<open>The alert that raises the signal.\<close>

lemma last_alert:
  assumes "dar_rel (dar_state (monitor s)) al []" "max_dar_alerts (dar_state (monitor s)) \<le> n + 1" "well_formed bytes"
  obtains st where "dar_iteration now bytes n s = Some (Inr (s\<lparr>monitor := (monitor s)\<lparr>dar_state := st\<rparr>\<rparr>, n + 1, True))"
    "thread_step env arg fe ifap (Threads m (Dar_Blocked n) s)
      (Threads m (Dar_Raising (n + 1)) (s\<lparr>monitor := (monitor s)\<lparr>dar_state := st\<rparr>\<rparr>))"
proof -
  obtain st where i: "dar_iteration now bytes n s = Some (Inr (s\<lparr>monitor := (monitor s)\<lparr>dar_state := st\<rparr>\<rparr>, n + 1, True))"
    using dar_iteration_cases [OF assms(1), of bytes now n] assms(2,3) by auto
  from that [OF i] dar_alert [OF i, of env arg fe ifap m] show thesis by simp
qed

lemma dar_runs:
  "run_steps (run_call fe ifap arg) cs s = Inr u \<Longrightarrow>
   (thread_step env arg fe ifap)\<^sup>*\<^sup>* (Threads m (Dar_Handling n ends (cs @ ds)) s) (Threads m (Dar_Handling n ends ds) u)"
proof (induction cs arbitrary: s)
  case (Cons c cs)
  then obtain v where v: "run_call fe ifap arg c s = Inr v" "run_steps (run_call fe ifap arg) cs v = Inr u"
    by (auto simp: rbind_eq_Inr)
  have "thread_step env arg fe ifap (Threads m (Dar_Handling n ends (c # (cs @ ds))) s) (Threads m (Dar_Handling n ends (cs @ ds)) v)"
    by (rule handler_call [OF v(1)])
  with Cons.IH [OF v(2)] show ?case by (simp add: converse_rtranclp_into_rtranclp)
qed simp

text \<open>Wherever the main thread is, the alerts for the signal may arrive.\<close>

lemma blocked_at:
  assumes "(thread_step env arg fe ifap)\<^sup>*\<^sup>* p (Threads m (Dar_Reading k) s)" "threads_ok env arg fe ifap s0 m (Dar_Reading k) s"
    and "dar_socket_open (monitor s)"
  obtains n st bl where "(thread_step env arg fe ifap)\<^sup>*\<^sup>* p (Threads m (Dar_Blocked n) (s\<lparr>monitor := (monitor s)\<lparr>dar_state := st\<rparr>\<rparr>))"
    "dar_rel st bl []" "max_dar_alerts st = max_alerts arg" "max_dar_alerts st \<le> n + 1"
proof -
  obtain al where "dar_rel (dar_state (monitor s)) al []" "max_dar_alerts (dar_state (monitor s)) = max_alerts arg"
    using assms(2) by (auto simp: threads_ok_def alerts_ok_def split: if_splits)
  with alerts_arrive [OF this(1) assms(3)] rtranclp_trans [OF assms(1)] that show thesis by metis
qed

lemma raising_at:
  assumes "(thread_step env arg fe ifap)\<^sup>*\<^sup>* p (Threads m (Dar_Reading k) s)" "threads_ok env arg fe ifap s0 m (Dar_Reading k) s"
    and "dar_socket_open (monitor s)"
  obtains n st where "(thread_step env arg fe ifap)\<^sup>*\<^sup>* p (Threads m (Dar_Raising n) (s\<lparr>monitor := (monitor s)\<lparr>dar_state := st\<rparr>\<rparr>))"
proof -
  obtain n st bl where b: "(thread_step env arg fe ifap)\<^sup>*\<^sup>* p (Threads m (Dar_Blocked n) (s\<lparr>monitor := (monitor s)\<lparr>dar_state := st\<rparr>\<rparr>))"
    "dar_rel st bl []" "max_dar_alerts st \<le> n + 1"
    using blocked_at [OF assms] by metis
  let ?u = "s\<lparr>monitor := (monitor s)\<lparr>dar_state := st\<rparr>\<rparr>"
  obtain st' where "thread_step env arg fe ifap (Threads m (Dar_Blocked n) ?u)
      (Threads m (Dar_Raising (n + 1)) (?u\<lparr>monitor := (monitor ?u)\<lparr>dar_state := st'\<rparr>\<rparr>))"
    by (rule last_alert [of ?u bl n sample_alert sample_tm]) (use b(2,3) sample_well_formed in simp_all)
  with rtranclp.rtrancl_into_rtrancl [OF b(1) this] that show thesis by simp
qed

text \<open>The stages of the main thread while the alert receiver waits.\<close>

lemma stages_reached:
  assumes c: "configured arg fe ifap s0" and m: "monitored (monitor s0) al ps" and t: "dar_thread_result env = 0"
    and e: "0 \<le> dar_sockfd env" "0 \<le> dar_bind_result env" "0 \<le> connect_result env"
  obtains s1 s2 s3 where
    "(thread_step env arg fe ifap)\<^sup>*\<^sup>* (Threads Main_Configured Dar_Absent s0) (Threads Main_Monitoring (Dar_Reading 0) s1)"
    "(thread_step env arg fe ifap)\<^sup>*\<^sup>* (Threads Main_Configured Dar_Absent s0) (Threads Main_Handling (Dar_Reading 0) s2)"
    "(thread_step env arg fe ifap)\<^sup>*\<^sup>* (Threads Main_Configured Dar_Absent s0) (Threads Main_Connected (Dar_Reading 0) s3)"
    "threads_ok env arg fe ifap s0 Main_Monitoring (Dar_Reading 0) s1" "threads_ok env arg fe ifap s0 Main_Handling (Dar_Reading 0) s2"
    "threads_ok env arg fe ifap s0 Main_Connected (Dar_Reading 0) s3"
    "dar_socket_open (monitor s1)" "dar_socket_open (monitor s2)" "dar_socket_open (monitor s3)" "connection_timer s3 = Clock_Running"
proof -
  let ?R = "thread_step env arg fe ifap" and ?s = "Threads Main_Configured Dar_Absent s0"
  obtain s1 where s1: "start_monitoring env arg s0 = Inr s1" "dar_socket_open (monitor s1)"
    using e by (simp add: start_monitoring_def start_path_monitoring_module_def start_dar_handler_def init_dar_socket_def)
  define s2 where "s2 = register_handler env s1"
  define s3 where "s3 = s2\<lparr>connection_timer := Clock_Running, connection_open := True\<rparr>"
  have "?R ?s (Threads Main_Monitoring (Dar_Reading 0) s1)"
    using main_start [OF s1(1)] t by (metis (full_types))
  then have r1: "?R\<^sup>*\<^sup>* ?s (Threads Main_Monitoring (Dar_Reading 0) s1)" by (rule r_into_rtranclp)
  have r2: "?R\<^sup>*\<^sup>* ?s (Threads Main_Handling (Dar_Reading 0) s2)"
    unfolding s2_def by (rule rtranclp.rtrancl_into_rtrancl [OF r1 main_register])
  have "?R (Threads Main_Connecting (Dar_Reading 0) (s2\<lparr>connection_timer := Clock_Running\<rparr>)) (Threads Main_Connected (Dar_Reading 0) s3)"
    using main_connect [OF e(3)] by (simp add: s3_def)
  with rtranclp.rtrancl_into_rtrancl [OF r2 main_clock] have r3: "?R\<^sup>*\<^sup>* ?s (Threads Main_Connected (Dar_Reading 0) s3)"
    by (rule rtranclp.rtrancl_into_rtrancl)
  have ok: "threads_ok env arg fe ifap s0 x y z" if "?R\<^sup>*\<^sup>* ?s (Threads x y z)" for x y z
    using threads.reachable [OF that] c m t by (auto simp: execution_inv_def)
  show thesis
    by (rule that [OF r1 r2 r3 ok [OF r1] ok [OF r2] ok [OF r3] s1(2)]) (simp_all add: s1(2) s2_def s3_def register_handler_def)
qed

text \<open>A connected sender whose alert receiver is about to raise the signal.\<close>

lemma connected_raising:
  assumes c: "configured arg fe ifap s0" and m: "monitored (monitor s0) al ps" and t: "dar_thread_result env = 0"
    and e: "0 \<le> dar_sockfd env" "0 \<le> dar_bind_result env" "0 \<le> connect_result env"
  obtains n s where "(thread_step env arg fe ifap)\<^sup>*\<^sup>* (Threads Main_Configured Dar_Absent s0) (Threads Main_Connected (Dar_Raising n) s)"
    "handler_registered s = (handler_registered s0 \<or> signal_ok env)" "flows s = flows s0" "connection_timer s = Clock_Running" "dar_pthread_running (monitor s)"
proof -
  obtain s3 where s3: "(thread_step env arg fe ifap)\<^sup>*\<^sup>* (Threads Main_Configured Dar_Absent s0) (Threads Main_Connected (Dar_Reading 0) s3)"
    "threads_ok env arg fe ifap s0 Main_Connected (Dar_Reading 0) s3" "dar_socket_open (monitor s3)" "connection_timer s3 = Clock_Running"
    using stages_reached [OF c m t e] by metis
  obtain n st where r: "(thread_step env arg fe ifap)\<^sup>*\<^sup>* (Threads Main_Configured Dar_Absent s0)
      (Threads Main_Connected (Dar_Raising n) (s3\<lparr>monitor := (monitor s3)\<lparr>dar_state := st\<rparr>\<rparr>))"
    using raising_at [OF s3(1-3)] by metis
  show thesis
    by (rule that [OF r]) (use s3(2,4) same_flows_simps(1) [of s0 s3] in \<open>simp_all add: threads_ok_def same_session_def flows_def\<close>)
qed

text \<open>A connected sender whose alert receiver waits for the alert that will raise the signal.\<close>

lemma connected_blocked:
  assumes c: "configured arg fe ifap s0" and m: "monitored (monitor s0) al ps" and t: "dar_thread_result env = 0"
    and e: "0 \<le> dar_sockfd env" "0 \<le> dar_bind_result env" "0 \<le> connect_result env"
  obtains n s where "(thread_step env arg fe ifap)\<^sup>*\<^sup>* (Threads Main_Configured Dar_Absent s0) (Threads Main_Connected (Dar_Blocked n) s)"
    "handler_registered s = (handler_registered s0 \<or> signal_ok env)" "connection_timer s = Clock_Running" "max_alerts arg \<le> n + 1"
proof -
  obtain s3 where s3: "(thread_step env arg fe ifap)\<^sup>*\<^sup>* (Threads Main_Configured Dar_Absent s0) (Threads Main_Connected (Dar_Reading 0) s3)"
    "threads_ok env arg fe ifap s0 Main_Connected (Dar_Reading 0) s3" "dar_socket_open (monitor s3)" "connection_timer s3 = Clock_Running"
    using stages_reached [OF c m t e] by metis
  obtain n st where r: "(thread_step env arg fe ifap)\<^sup>*\<^sup>* (Threads Main_Configured Dar_Absent s0)
      (Threads Main_Connected (Dar_Blocked n) (s3\<lparr>monitor := (monitor s3)\<lparr>dar_state := st\<rparr>\<rparr>))" "max_alerts arg \<le> n + 1"
    using blocked_at [OF s3(1-3)] by metis
  show thesis by (rule that [OF r(1) _ _ r(2)]) (use s3(2,4) in \<open>simp_all add: threads_ok_def\<close>)
qed

text \<open>The main thread can make any number of the calls after the clock is freed.\<close>

lemma main_gets:
  assumes c: "configured arg fe ifap s0" and m: "monitored (monitor s0) al ps" and t: "dar_thread_result env = 0"
    and r: "(thread_step env arg fe ifap)\<^sup>*\<^sup>* (Threads Main_Configured Dar_Absent s0) (Threads Main_Connected d s)"
    and k: "remaining_calls (flows s0) = xs @ ys" and clock: "connection_timer s = Clock_Running"
  obtains u where "(thread_step env arg fe ifap)\<^sup>*\<^sup>* (Threads Main_Configured Dar_Absent s0) (Threads (Main_Tearing ys) d u)"
    "connection_timer u = Clock_Freed" "commands u = commands s0 @ removal s0 ifap xs" "handler_registered u = handler_registered s"
    "flows u = flows s0"
proof -
  let ?R = "thread_step env arg fe ifap" and ?pre = "[Close_Connection, Read_Clock, Free_Clock]"
  have ok: "threads_ok env arg fe ifap s0 Main_Connected d s"
    using threads.reachable [OF r] c m t by (auto simp: execution_inv_def)
  then have run: "running s0 s" "dar_pthread_running (monitor s)" and fl: "flows s = flows s0"
    using clock same_flows_simps(1) [of s0 s]
    by (auto simp: threads_ok_def same_session_def running_def teardown_ok_def configured_def sender_ready_def
        c [unfolded configured_def sender_ready_def])
  obtain s' where "run_steps (run_call fe ifap arg) (teardown_calls (flows s)) s = Inr s'"
    using running_tears_down(1) [OF c run clock] teardown_by_calls [of fe ifap arg s] by auto
  then obtain u where u: "run_steps (run_call fe ifap arg) (?pre @ xs) s = Inr u"
    unfolding fl teardown_calls_def k run_steps_append by (auto simp: rbind_eq_Inr run_steps_append)
  have "?R (Threads Main_Connected d s) (Threads (Main_Tearing ((?pre @ xs) @ ys)) d s)"
    using main_close [of env arg fe ifap d s] by (simp add: fl teardown_calls_def k)
  from converse_rtranclp_into_rtranclp [OF this main_runs [OF u]]
  have "?R\<^sup>*\<^sup>* (Threads Main_Connected d s) (Threads (Main_Tearing ys) d u)" .
  with r have r': "?R\<^sup>*\<^sup>* (Threads Main_Configured Dar_Absent s0) (Threads (Main_Tearing ys) d u)"
    by (rule rtranclp_trans)
  have ok': "threads_ok env arg fe ifap s0 (Main_Tearing ys) d u"
    using threads.reachable [OF r'] c m t by (auto simp: execution_inv_def)
  have "\<not> unfreed s0 ys" using k no_free_remaining [of "flows s0"] by (auto simp: unfreed_def)
  with ok' have f: "connection_timer u = Clock_Freed" "undone arg fe s0 ifap u ys"
    by (auto simp: threads_ok_def teardown_ok_def main_waits_def main_has_def split: if_splits)
  then have "commands u = commands s0 @ removal s0 ifap xs" by (auto simp: undone_def made_def k)
  moreover have "handler_registered u = handler_registered s" "flows u = flows s0"
    using ok ok' same_flows_simps(1) [of s0 u] by (simp_all add: threads_ok_def same_session_def)
  ultimately show thesis using that r' f(1) by blast
qed

section \<open>How a session ends\<close>

lemma reached_ok:
  assumes "(thread_step env arg fe ifap)\<^sup>*\<^sup>* (Threads Main_Configured Dar_Absent s0) p"
    and "configured arg fe ifap s0" "monitored (monitor s0) al ps" "dar_thread_result env = 0"
  shows "execution_ok env arg fe ifap s0 p"
  using threads.reachable [OF assms(1)] assms(2-4) by (auto simp: execution_inv_def)

lemma closed_made:
  "threads_ok env arg fe ifap s0 Main_Closed d s \<Longrightarrow> made arg fe s0 ifap (remaining_calls (flows s0)) s"
  by (auto simp: threads_ok_def teardown_ok_def unconnected_def main_waits_def main_has_def undone_Nil split: if_splits)

lemma killed_early:
  assumes "configured arg fe ifap s0" "monitored (monitor s0) al ps" "dar_thread_result env = 0"
    and "0 \<le> dar_sockfd env" "0 \<le> dar_bind_result env" "0 \<le> connect_result env"
    and "\<not> handler_registered s0"
  shows "\<exists>k. (thread_step env arg fe ifap)\<^sup>*\<^sup>* (Threads Main_Configured Dar_Absent s0) (Died k) \<and> commands k = commands s0"
proof -
  obtain s where s: "(thread_step env arg fe ifap)\<^sup>*\<^sup>* (Threads Main_Configured Dar_Absent s0) (Threads Main_Monitoring (Dar_Reading 0) s)"
    "threads_ok env arg fe ifap s0 Main_Monitoring (Dar_Reading 0) s" "dar_socket_open (monitor s)"
    using stages_reached [OF assms(1-6)] by metis
  obtain n st where r: "(thread_step env arg fe ifap)\<^sup>*\<^sup>* (Threads Main_Configured Dar_Absent s0)
      (Threads Main_Monitoring (Dar_Raising n) (s\<lparr>monitor := (monitor s)\<lparr>dar_state := st\<rparr>\<rparr>))"
    using raising_at [OF s] .
  let ?k = "s\<lparr>monitor := (monitor s)\<lparr>dar_state := st\<rparr>\<rparr>"
  have "\<not> handler_registered ?k" "commands ?k = commands s0"
    using s(2) assms(7) by (auto simp: threads_ok_def teardown_ok_def unconnected_def)
  with r signal_default [of ?k env arg fe ifap Main_Monitoring n] show ?thesis
    by (meson rtranclp.rtrancl_into_rtrancl)
qed

text \<open>The fault of the handler in a session that is not connected: the first one of the process, or a later one.\<close>

definition clock_fault :: "sender \<Rightarrow> fault" where
  "clock_fault s0 = (if connection_timer s0 = Clock_Null then NullDeref else UseAfterFree)"

lemma crashed_unconnected:
  assumes "configured arg fe ifap s0" "monitored (monitor s0) al ps" "dar_thread_result env = 0"
    and "0 \<le> dar_sockfd env" "0 \<le> dar_bind_result env" "0 \<le> connect_result env" "signal_ok env"
    and "reaction_spec arg = SHUTDOWN_COMMUNICATION"
  shows "\<exists>c. (thread_step env arg fe ifap)\<^sup>*\<^sup>* (Threads Main_Configured Dar_Absent s0) (Crashed (clock_fault s0) c) \<and> commands c = commands s0"
proof -
  let ?R = "thread_step env arg fe ifap"
  obtain s where s: "?R\<^sup>*\<^sup>* (Threads Main_Configured Dar_Absent s0) (Threads Main_Handling (Dar_Reading 0) s)"
    "threads_ok env arg fe ifap s0 Main_Handling (Dar_Reading 0) s" "dar_socket_open (monitor s)"
    using stages_reached [OF assms(1-6)] by metis
  obtain n st where r: "?R\<^sup>*\<^sup>* (Threads Main_Configured Dar_Absent s0)
      (Threads Main_Handling (Dar_Raising n) (s\<lparr>monitor := (monitor s)\<lparr>dar_state := st\<rparr>\<rparr>))"
    using raising_at [OF s] .
  let ?u = "s\<lparr>monitor := (monitor s)\<lparr>dar_state := st\<rparr>\<rparr>" and ?cs = "Free_Clock # remaining_calls (flows s)"
  have u: "handler_registered ?u" "commands ?u = commands s0" "connection_timer ?u = connection_timer s0" "connection_timer s0 \<noteq> Clock_Running"
    using s(2) assms(1,7) by (auto simp: threads_ok_def teardown_ok_def unconnected_def configured_def)
  have "flows ?u = flows s" by (simp add: flows_def)
  then have "?R (Threads Main_Handling (Dar_Raising n) ?u)
      (Threads Main_Handling (Dar_Handling n True (Close_Connection # Read_Clock # ?cs)) ?u)"
    using signal_handled [OF u(1), of env arg fe ifap Main_Handling n] assms(8) by (simp add: on_signal_def teardown_calls_def)
  moreover have "?R (Threads Main_Handling (Dar_Handling n True (Close_Connection # Read_Clock # ?cs)) ?u)
      (Threads Main_Handling (Dar_Handling n True (Read_Clock # ?cs)) (?u\<lparr>connection_open := False\<rparr>))"
    by (rule handler_call) simp
  moreover have "?R (Threads Main_Handling (Dar_Handling n True (Read_Clock # ?cs)) (?u\<lparr>connection_open := False\<rparr>))
      (crash (clock_fault s0) (?u\<lparr>connection_open := False\<rparr>))"
    by (rule handler_call_fails) (use u(3,4) in \<open>cases "connection_timer s0"; simp add: clock_fault_def\<close>)+
  ultimately have "?R\<^sup>*\<^sup>* (Threads Main_Configured Dar_Absent s0) (Crashed (clock_fault s0) (?u\<lparr>connection_open := False\<rparr>))"
    using r by (auto simp: crash_def clock_fault_def intro: rtranclp.rtrancl_into_rtrancl)
  then show ?thesis using u(2) by (intro exI [of _ "?u\<lparr>connection_open := False\<rparr>"]) simp
qed

lemma ended_by_handler:
  assumes "configured arg fe ifap s0" "monitored (monitor s0) al ps" "dar_thread_result env = 0"
    and "0 \<le> dar_sockfd env" "0 \<le> dar_bind_result env" "0 \<le> connect_result env" "signal_ok env"
    and "reaction_spec arg = SHUTDOWN_COMMUNICATION"
  shows "\<exists>x. (thread_step env arg fe ifap)\<^sup>*\<^sup>* (Threads Main_Configured Dar_Absent s0) (Ended 1 x) \<and>
    commands x = commands s0 @ removal s0 ifap (remaining_calls (flows s0))"
proof -
  let ?R = "thread_step env arg fe ifap" and ?m = Main_Connected
  obtain n s where r: "?R\<^sup>*\<^sup>* (Threads Main_Configured Dar_Absent s0) (Threads ?m (Dar_Raising n) s)"
    and s: "handler_registered s = (handler_registered s0 \<or> signal_ok env)" "connection_timer s = Clock_Running" "dar_pthread_running (monitor s)"
    using connected_raising [OF assms(1-6)] by metis
  have "running s0 s"
    using reached_ok [OF r assms(1-3)] s(2) assms(1) by (auto simp: threads_ok_def same_session_def running_def
        teardown_ok_def configured_def sender_ready_def)
  from running_tears_down(1) [OF assms(1) this s(3,2)] obtain x where
    x: "run_steps (run_call fe ifap arg) (teardown_calls (flows s) @ []) s = Inr x"
    using teardown_by_calls [of fe ifap arg s] by auto
  have "?R (Threads ?m (Dar_Raising n) s) (Threads ?m (Dar_Handling n True (teardown_calls (flows s))) s)"
    using signal_handled [of s env arg fe ifap ?m n] s(1) assms(7,8) by (simp add: on_signal_def)
  with r have "?R\<^sup>*\<^sup>* (Threads Main_Configured Dar_Absent s0) (Threads ?m (Dar_Handling n True (teardown_calls (flows s))) s)"
    by (rule rtranclp.rtrancl_into_rtrancl)
  with dar_runs [OF x, of env ?m n True "[]"]
  have r': "?R\<^sup>*\<^sup>* (Threads Main_Configured Dar_Absent s0) (Threads ?m (Dar_Handling n True []) x)"
    by simp
  have "threads_ok env arg fe ifap s0 ?m (Dar_Handling n True []) x" using reached_ok [OF r' assms(1-3)] by simp
  from madeD [OF handler_done [OF this, THEN conjunct1]] rtranclp.rtrancl_into_rtrancl [OF r' handler_exits] show ?thesis by blast
qed

lemma closed_by_main:
  assumes "configured arg fe ifap s0" "monitored (monitor s0) al ps" "dar_thread_result env = 0"
    and "0 \<le> dar_sockfd env" "0 \<le> dar_bind_result env" "0 \<le> connect_result env"
  shows "\<exists>d u. (thread_step env arg fe ifap)\<^sup>*\<^sup>* (Threads Main_Configured Dar_Absent s0) (Threads Main_Closed d u) \<and>
    commands u = commands s0 @ removal s0 ifap (remaining_calls (flows s0))"
proof -
  obtain n s where r: "(thread_step env arg fe ifap)\<^sup>*\<^sup>* (Threads Main_Configured Dar_Absent s0) (Threads Main_Connected (Dar_Raising n) s)"
    and s: "connection_timer s = Clock_Running"
    using connected_raising [OF assms] by metis
  have "remaining_calls (flows s0) = remaining_calls (flows s0) @ []" by simp
  from main_gets [OF assms(1-3) r this s] obtain u where
    "(thread_step env arg fe ifap)\<^sup>*\<^sup>* (Threads Main_Configured Dar_Absent s0) (Threads (Main_Tearing []) (Dar_Raising n) u)"
    "commands u = commands s0 @ removal s0 ifap (remaining_calls (flows s0))" by metis
  with main_closed show ?thesis by (meson rtranclp.rtrancl_into_rtrancl)
qed

text \<open>A datagram with fewer than four fields crashes the sender at any time, with its rules as they are.\<close>

lemma malformed_alert_crashes:
  assumes "alerts_ok arg (Dar_Blocked n) s" "\<not> well_formed bytes"
  shows "thread_step env arg fe ifap (Threads m (Dar_Blocked n) s) (Crashed NullDeref s)"
proof -
  obtain al where "dar_rel (dar_state (monitor s)) al []" using assms(1) by (auto simp: alerts_ok_def)
  then have "dar_iteration now bytes n s = Some (Inl NullDeref)" for now
    using dar_iteration_cases [of s al bytes now n] assms(2) by simp
  from dar_alert_fails [OF this] show ?thesis by (simp add: crash_def)
qed

section \<open>A configured sender\<close>

lemma configured_monitored: "monitored (monitor configured_sender) [] []"
  using sample_sender_ready(2) by (simp add: configured_sender_def)

lemma demo_threads: "dar_thread_result demo_env = 0" "0 \<le> dar_sockfd demo_env" "0 \<le> dar_bind_result demo_env"
    "0 \<le> connect_result demo_env" "signal_ok demo_env" "reaction_spec demo_arg = SHUTDOWN_COMMUNICATION"
  by (simp_all add: demo_env_def demo_arg_def)

section \<open>Properties\<close>

text \<open>C5.
  Up to its first undefined behaviour, however the two threads interleave, whatever the reaction
  to alerts and whatever datagrams arrive: at every moment the sender has run an initial part of
  one removal of its rules and interfaces.  A closed sender, and one that its handler ends, has run
  all of it, and only as many alerts as configured make the signal kill or end the process.  The
  first undefined behaviour can only be a null dereference or the use of a freed clock or a closed
  log, and the latter takes as many alerts as configured: with fewer of them, all well formed, the
  statement is about the whole execution.  Nothing is claimed of what the program does after an
  undefined behaviour, and \<open>reused_clock_removes_twice\<close> shows that it can then remove rules twice.\<close>

theorem session_outcomes:
  assumes "(thread_step env arg fe ifap)\<^sup>*\<^sup>* (Threads Main_Configured Dar_Absent s0) p"
    and "configured arg fe ifap s0" "monitored (monitor s0) al ps" "dar_thread_result env = 0"
  shows "case p of
      Threads m d s \<Rightarrow> partly_removed arg fe s0 ifap s \<and> (m = Main_Closed \<longrightarrow> commands s = commands s0 @
        map delete_cmd (sender_nat.all_rules (map (flow_key s0) (flows s0))) @ projr (clean_virtual_interfaces ifap))
    | Died s \<Rightarrow> enough_alerts arg s \<and> partly_removed arg fe s0 ifap s \<and> \<not> handler_registered s0 \<and>
        (signal_ok env \<longrightarrow> connection_timer s = connection_timer s0 \<and> commands s = commands s0)
    | Ended n s \<Rightarrow> n = 1 \<and> s = s0 \<and> dar_bind_result env < 0 \<or>
        n = 1 \<and> enough_alerts arg s \<and> commands s = commands s0 @
          map delete_cmd (sender_nat.all_rules (map (flow_key s0) (flows s0))) @ projr (clean_virtual_interfaces ifap) \<or>
        n = - 1 \<and> connect_result env < 0 \<and> partly_removed arg fe s0 ifap s
    | Crashed e s \<Rightarrow> (e = NullDeref \<or> e = UseAfterFree \<and> enough_alerts arg s) \<and> partly_removed arg fe s0 ifap s"
proof -
  have ok: "execution_ok env arg fe ifap s0 p" "alert_caused arg s0 p"
    using causes.reachable [OF assms(1)] assms(2-4) unfolding caused_inv_def by blast+
  show ?thesis
  proof (cases p)
    case (Threads m d s)
    with ok(1) threads_ok_partly [of env arg fe ifap s0 m d s] madeD [OF closed_made [of env arg fe ifap s0 d s]] show ?thesis
      unfolding removal_remaining [symmetric] by auto
  next
    case (Ended n s)
    with ok(1) show ?thesis unfolding removal_remaining [symmetric] by (auto dest: madeD)
  qed (use ok in auto)
qed

theorem session_outcomes_witness:
  "\<exists>n s. (thread_step demo_env demo_arg quiet_env [])\<^sup>*\<^sup>* (Threads Main_Configured Dar_Absent configured_sender)
      (Threads Main_Connected (Dar_Raising n) s) \<and> partly_removed demo_arg quiet_env configured_sender [] s"
proof -
  obtain n s where r: "(thread_step demo_env demo_arg quiet_env [])\<^sup>*\<^sup>* (Threads Main_Configured Dar_Absent configured_sender)
      (Threads Main_Connected (Dar_Raising n) s)"
    using connected_raising [OF configured_sender configured_monitored demo_threads(1-4)] by blast
  with session_outcomes [OF r configured_sender configured_monitored demo_threads(1)] show ?thesis by auto
qed

text \<open>C22.
  All of these endings happen.  From a configured sender whose alert receiver can be started:
  enough alerts before the first registration of the process kill it with its rules in place;
  enough alerts between the registration and the connection crash it, by a null clock in the
  first session and by a freed one in every later session; once it is connected they end it with
  status 1 and its rules removed; and without alerts the teardown closes it.\<close>

theorem session_endings:
  assumes "configured arg fe ifap s0" "monitored (monitor s0) al ps" "dar_thread_result env = 0"
    and "0 \<le> dar_sockfd env" "0 \<le> dar_bind_result env" "0 \<le> connect_result env" "signal_ok env"
    and "reaction_spec arg = SHUTDOWN_COMMUNICATION"
  shows "(handler_registered s0 \<or> (\<exists>k. commands k = commands s0 \<and>
      (thread_step env arg fe ifap)\<^sup>*\<^sup>* (Threads Main_Configured Dar_Absent s0) (Died k))) \<and>
    (\<exists>c. commands c = commands s0 \<and> (thread_step env arg fe ifap)\<^sup>*\<^sup>* (Threads Main_Configured Dar_Absent s0)
      (Crashed (if connection_timer s0 = Clock_Null then NullDeref else UseAfterFree) c)) \<and>
    (\<exists>x. commands x = commands s0 @ removal s0 ifap (remaining_calls (flows s0)) \<and>
      (thread_step env arg fe ifap)\<^sup>*\<^sup>* (Threads Main_Configured Dar_Absent s0) (Ended 1 x)) \<and>
    (\<exists>d u. commands u = commands s0 @ removal s0 ifap (remaining_calls (flows s0)) \<and>
      (thread_step env arg fe ifap)\<^sup>*\<^sup>* (Threads Main_Configured Dar_Absent s0) (Threads Main_Closed d u))"
  using killed_early [OF assms(1-6)] crashed_unconnected [OF assms, unfolded clock_fault_def] ended_by_handler [OF assms]
    closed_by_main [OF assms(1-6)] by blast

theorem session_endings_witness:
  "(\<exists>k. commands k = commands configured_sender \<and>
     (thread_step demo_env demo_arg quiet_env [])\<^sup>*\<^sup>* (Threads Main_Configured Dar_Absent configured_sender) (Died k)) \<and>
   (\<exists>c. (thread_step demo_env demo_arg quiet_env [])\<^sup>*\<^sup>* (Threads Main_Configured Dar_Absent
      (configured_sender\<lparr>connection_timer := Clock_Freed\<rparr>)) (Crashed UseAfterFree c))"
proof -
  have "\<not> handler_registered configured_sender" by (simp add: configured_sender_def sample_sender_def)
  with session_endings [OF configured_sender configured_monitored demo_threads]
  have first: "\<exists>k. commands k = commands configured_sender \<and>
     (thread_step demo_env demo_arg quiet_env [])\<^sup>*\<^sup>* (Threads Main_Configured Dar_Absent configured_sender) (Died k)" by blast
  let ?s = "configured_sender\<lparr>connection_timer := Clock_Freed\<rparr>"
  have c: "configured demo_arg quiet_env [] ?s"
    using configured_sender by (simp add: configured_def sender_ready_def flows_def hop_index_def)
  have "monitored (monitor ?s) [] []" using configured_monitored by simp
  from session_endings [OF c this demo_threads] first show ?thesis by auto
qed

text \<open>
  A raised signal after the clock is freed, wherever the main thread is: the handler runs into
  the freed clock.
\<close>

lemma handler_uses_freed:
  assumes "handler_registered v" "connection_timer v = Clock_Freed" "reaction_spec arg = SHUTDOWN_COMMUNICATION"
  shows "(thread_step env arg fe ifap)\<^sup>*\<^sup>* (Threads m (Dar_Raising n) v) (Crashed UseAfterFree (v\<lparr>connection_open := False\<rparr>))"
proof -
  let ?R = "thread_step env arg fe ifap" and ?v = "v\<lparr>connection_open := False\<rparr>"
    and ?cs = "Free_Clock # remaining_calls (flows v)"
  have "?R (Threads m (Dar_Raising n) v) (Threads m (Dar_Handling n True (Close_Connection # Read_Clock # ?cs)) v)"
    using signal_handled [OF assms(1), of env arg fe ifap m n] assms(3) by (simp add: on_signal_def teardown_calls_def)
  moreover have "?R (Threads m (Dar_Handling n True (Close_Connection # Read_Clock # ?cs)) v) (Threads m (Dar_Handling n True (Read_Clock # ?cs)) ?v)"
    by (rule handler_call) simp
  moreover have "?R (Threads m (Dar_Handling n True (Read_Clock # ?cs)) ?v) (crash UseAfterFree ?v)"
    by (rule handler_call_fails) (simp_all add: assms(2))
  ultimately show ?thesis by (auto simp: crash_def intro: rtranclp.rtrancl_into_rtrancl)
qed

text \<open>C23.
  An alert that arrives while the main thread tears down can crash the sender, at every point
  after the first end of the clock and even when all calls are made: closing the socket does
  not wake the thread that waits in \<^verbatim>\<open>read\<close>, so a well-formed datagram still raises the
  signal, whose handler uses the freed clock, with exactly the commands of the calls made so far
  run and all other rules left in place; a malformed datagram is a null dereference.\<close>

theorem alert_during_teardown:
  assumes "configured arg fe ifap s0" "monitored (monitor s0) al ps" "dar_thread_result env = 0"
    and "0 \<le> dar_sockfd env" "0 \<le> dar_bind_result env" "0 \<le> connect_result env" "signal_ok env"
    and "reaction_spec arg = SHUTDOWN_COMMUNICATION"
  shows "\<exists>m n s. m = Main_Tearing (drop k (remaining_calls (flows s0))) \<and>
    (thread_step env arg fe ifap)\<^sup>*\<^sup>* (Threads Main_Configured Dar_Absent s0) (Threads m (Dar_Blocked n) s) \<and>
    commands s = commands s0 @ removal s0 ifap (take k (remaining_calls (flows s0))) \<and>
    (\<forall>now bytes. case dar_iteration now bytes n s of
        Some (Inr (v, k', raised)) \<Rightarrow> well_formed bytes \<and> raised \<and> (\<exists>u. commands u = commands s \<and>
          (thread_step env arg fe ifap)\<^sup>*\<^sup>* (Threads m (Dar_Raising k') v) (Crashed UseAfterFree u))
      | Some (Inl e) \<Rightarrow> \<not> well_formed bytes \<and> e = NullDeref
      | None \<Rightarrow> False)"
proof -
  obtain n s where s: "(thread_step env arg fe ifap)\<^sup>*\<^sup>* (Threads Main_Configured Dar_Absent s0) (Threads Main_Connected (Dar_Blocked n) s)"
    "handler_registered s = (handler_registered s0 \<or> signal_ok env)" "connection_timer s = Clock_Running" "max_alerts arg \<le> n + 1"
    using connected_blocked [OF assms(1-6)] by metis
  let ?m = "Main_Tearing (drop k (remaining_calls (flows s0)))"
  obtain u where u: "(thread_step env arg fe ifap)\<^sup>*\<^sup>* (Threads Main_Configured Dar_Absent s0) (Threads ?m (Dar_Blocked n) u)"
    "connection_timer u = Clock_Freed" "commands u = commands s0 @ removal s0 ifap (take k (remaining_calls (flows s0)))"
    "handler_registered u = handler_registered s" "flows u = flows s0"
    using main_gets [OF assms(1-3) s(1) append_take_drop_id [symmetric] s(3)] by metis
  have "threads_ok env arg fe ifap s0 ?m (Dar_Blocked n) u" using reached_ok [OF u(1) assms(1-3)] by simp
  then obtain bl where bl: "dar_rel (dar_state (monitor u)) bl []" "max_dar_alerts (dar_state (monitor u)) = max_alerts arg"
    by (auto simp: threads_ok_def alerts_ok_def)
  have h: "handler_registered u" using u(4) s(2) assms(7) by simp
  have each: "case dar_iteration now bytes n u of
        Some (Inr (v, k', raised)) \<Rightarrow> well_formed bytes \<and> raised \<and> (\<exists>w. commands w = commands u \<and>
          (thread_step env arg fe ifap)\<^sup>*\<^sup>* (Threads ?m (Dar_Raising k') v) (Crashed UseAfterFree w))
      | Some (Inl e) \<Rightarrow> \<not> well_formed bytes \<and> e = NullDeref
      | None \<Rightarrow> False" for now bytes
  proof (cases "well_formed bytes")
    case True
    obtain st where i: "dar_iteration now bytes n u = Some (Inr (u\<lparr>monitor := (monitor u)\<lparr>dar_state := st\<rparr>\<rparr>, n + 1, True))"
      by (rule last_alert [OF bl(1) _ True]) (use bl(2) s(4) in auto)
    let ?v = "u\<lparr>monitor := (monitor u)\<lparr>dar_state := st\<rparr>\<rparr>"
    have "(thread_step env arg fe ifap)\<^sup>*\<^sup>* (Threads ?m (Dar_Raising (n + 1)) ?v) (Crashed UseAfterFree (?v\<lparr>connection_open := False\<rparr>))"
      by (rule handler_uses_freed) (use h u(2) assms(8) in simp_all)
    moreover have "commands (?v\<lparr>connection_open := False\<rparr>) = commands u" by simp
    ultimately show ?thesis using True unfolding i option.case sum.case prod.case by blast
  next
    case False
    with dar_iteration_cases [OF bl(1), of bytes now n] show ?thesis by simp
  qed
  show ?thesis
    by (rule exI [of _ ?m], rule exI [of _ n], rule exI [of _ u]) (intro conjI refl u(1,3) allI each)
qed

theorem alert_during_teardown_witness:
  "\<exists>n s. (thread_step demo_env demo_arg quiet_env [])\<^sup>*\<^sup>* (Threads Main_Configured Dar_Absent configured_sender)
      (Threads (Main_Tearing (drop 6 (remaining_calls (flows configured_sender)))) (Dar_Blocked n) s) \<and>
    commands s = commands configured_sender @ removal configured_sender [] (take 6 (remaining_calls (flows configured_sender)))"
  using alert_during_teardown [OF configured_sender configured_monitored demo_threads, of 6] by blast

end
