(* ===== verification/Session_With_Alerts.thy ===== *)
theory Session_With_Alerts
  imports Session_Runs
begin

text \<open>
  A whole session in which alerts may arrive at any time: the set-up of its flows, then any
  execution of the two threads, and what the NAT table of the sender holds at every moment.
\<close>

section \<open>From the set-up to the two threads\<close>

lemma setup_each_flow_keeps_clock:
  assumes "setup_each_flow op rp us env s = Some (Inr u)"
  shows "connection_timer u = connection_timer s \<and> handler_registered u = handler_registered s"
  using assms unfolding setup_each_flow_def
proof (rule crun_steps_invariant [where P = "\<lambda>u. connection_timer u = connection_timer s \<and> handler_registered u = handler_registered s"])
  fix f v w
  assume "setup_flow op rp us env f v = Some (Inr w)" "connection_timer v = connection_timer s \<and> handler_registered v = handler_registered s"
  then show "connection_timer w = connection_timer s \<and> handler_registered w = handler_registered s"
    by (auto simp: setup_flow_def cbind_eq_Inr split: prod.splits)
qed simp

text \<open>The set-up leaves a configured sender, in the first session of a process and in later ones.\<close>

lemma set_up_configured:
  assumes ready: "session_ready env arg ls as ifap s" and log: "log_open s" and mon: "monitored (monitor s) al ps"
    and clock: "connection_timer s \<noteq> Clock_Running" and fe: "replies_ok fe" "list_all inet_ok ifap'"
  defines "k \<equiv> flow_keys (addresses ifap) as (map line_ip ls)"
  obtains u where "setup_each_flow (overlay_port arg) (receiver_port arg) 0 (flow_environment env)
      (found_flows env ifap (map line_ip ls) as s) = Some (Inr u)"
    "configured arg fe ifap' u" "monitored (monitor u) al (ps @ map flow_path k)"
    "map (flow_key u) (flows u) = k" "commands u = commands s @ map append_cmd (sender_nat.all_rules k)"
    "proper_rules (sender_nat.all_rules k)" "dar_ip u = addresses ifap ! 0"
    "exchanges u = exchanges s @ map (flow_exchange (overlay_port arg) (receiver_port arg) (addresses ifap ! 0)
       (flow_environment env) 1) k"
proof -
  let ?f = "found_flows env ifap (map line_ip ls) as s"
  obtain u where u: "setup_each_flow (overlay_port arg) (receiver_port arg) 0 (flow_environment env) ?f = Some (Inr u)"
      "sender_ready u" "same_flows ?f u" "commands u = commands s @ map append_cmd (sender_nat.all_rules k)"
      "monitored (monitor u) al (ps @ map flow_path k)" "dar_ip u = addresses ifap ! 0" "dar_port u = DAR_PORT"
      "\<forall>f\<in>set (flows u). sender_darshanas (monitor u) ! hop_index u f \<noteq> None"
      "exchanges u = exchanges s @ map (flow_exchange (overlay_port arg) (receiver_port arg) (addresses ifap ! 0)
         (flow_environment env) 1) k"
    using session_set_up [OF ready log mon] unfolding k_def by blast
  have ne: "ls \<noteq> []" "0 < length (addresses ifap) * length as"
    using ready by (auto simp: session_ready_def dest: adapter_answersD)
  note sf = same_flows_simps [OF u(3)]
  have keys: "map (flow_key u) (flows u) = k"
    using found_flow_keys [of "map line_ip ls" env ifap as s] ne(1) by (simp add: sf k_def)
  have "srcs u ! 0 = addresses ifap ! 0"
    using u(3) ne(2) by (cases "addresses ifap") (simp_all add: same_flows_def found_flows_def Let_def)
  moreover have "connection_timer u = connection_timer s"
    using setup_each_flow_keeps_clock [OF u(1)] by (simp add: found_flows_def Let_def)
  moreover have "0 \<le> receiver_port arg" "receiver_port arg < 100000" using ready by (simp_all add: session_ready_def)
  ultimately have c: "configured arg fe ifap' u"
    using u(2,6-8) clock fe by (simp add: configured_def)
  have "list_all (\<lambda>(src, dst, hop). plain src \<and> plain dst \<and> plain hop) k"
    unfolding keys [symmetric] using flow_addresses [OF u(2)] by (fastforce simp: list_all_iff addr_ok_def)
  then have "proper_rules (sender_nat.all_rules k)" by (rule sender_nat.all_rules_proper)
  with u(1,4,5,6,9) c keys that show thesis by blast
qed

section \<open>The table at every moment\<close>

definition sender_of :: "execution \<Rightarrow> sender" where
  "sender_of p = (case p of Threads m d s \<Rightarrow> s | Died s \<Rightarrow> s | Ended n s \<Rightarrow> s | Crashed e s \<Rightarrow> s)"

text \<open>The session is over: the main thread has torn it down, or its handler has ended the process.\<close>

definition torn_down :: "execution \<Rightarrow> bool" where
  "torn_down p = (case p of Threads m d s \<Rightarrow> m = Main_Closed | Ended n s \<Rightarrow> True | _ \<Rightarrow> False)"

text \<open>An initial part of the removal is an initial part of its rules, with interfaces only after all of them.\<close>

lemma removal_prefix:
  assumes "prefix cs (map delete_cmd rs @ vs)"
  obtains gone left ws where "rs = gone @ left" "cs = map delete_cmd gone @ ws" "prefix ws vs" "left = [] \<or> ws = []"
proof (cases "prefix cs (map delete_cmd rs)")
  case True
  then obtain zs where "map delete_cmd rs = cs @ zs" by (auto simp: prefix_def)
  then obtain xs ys where "rs = xs @ ys" "cs = map delete_cmd xs" by (auto simp: map_eq_append_conv)
  with that [of xs ys "[]"] show thesis by simp
next
  case False
  with assms obtain ws where "cs = map delete_cmd rs @ ws" "prefix ws vs" by (auto simp: prefix_append)
  with that [of rs "[]" ws] show thesis by simp
qed

lemma outcome_removal:
  assumes ok: "execution_ok env arg fe ifap s0 p" and env: "0 \<le> dar_bind_result env" "0 \<le> connect_result env"
  obtains xs where "prefix xs (remaining_calls (flows s0))" "made arg fe s0 ifap xs (sender_of p)"
    "torn_down p \<longrightarrow> xs = remaining_calls (flows s0)"
proof (cases p)
  case (Threads m d s)
  show thesis
  proof (cases "m = Main_Closed")
    case True
    with ok Threads closed_made [of env arg fe ifap s0 d s] that [of "remaining_calls (flows s0)"] show thesis
      by (simp add: sender_of_def)
  next
    case False
    with ok Threads threads_ok_partly [of env arg fe ifap s0 m d s] that show thesis
      by (auto simp: partly_removed_def sender_of_def torn_down_def)
  qed
next
  case (Ended n s)
  have "made arg fe s0 ifap (remaining_calls (flows s0)) s \<or> made arg fe s0 ifap [] s"
    using ok env Ended by auto
  with Ended ok env that [of "remaining_calls (flows s0)"] show thesis by (auto simp: sender_of_def)
qed (use ok that in \<open>auto simp: partly_removed_def sender_of_def torn_down_def\<close>)

text \<open>The messages of a session at any moment: those of the set-up, and some of those of the teardown.\<close>

lemma messages_remaining:
  "messages arg fe u (remaining_calls fs) =
     map (flow_exchange (overlay_port arg) (receiver_port arg) (dar_ip u) fe 0) (map (flow_key u) fs)"
proof -
  have "messages arg fe u (map Clean_Own fs) = []" by (induction fs) (simp_all add: call_messages_def)
  moreover have "messages arg fe u (map Clean_Node fs) =
      map (flow_exchange (overlay_port arg) (receiver_port arg) (dar_ip u) fe 0) (map (flow_key u) fs)"
    by (induction fs) (simp_all add: call_messages_def)
  ultimately show ?thesis by (simp add: remaining_calls_def call_messages_def)
qed

lemma messages_with_alerts:
  assumes "session_ready env arg ls as ifap s" "log_open s" "monitored (monitor s) al ps" "connection_timer s \<noteq> Clock_Running"
    and "replies_ok fe" "list_all inet_ok ifap'"
    and "setup_each_flow (overlay_port arg) (receiver_port arg) 0 (flow_environment env)
      (found_flows env ifap (map line_ip ls) as s) = Some (Inr u)"
    and "(thread_step env arg fe ifap')\<^sup>*\<^sup>* (Threads Main_Configured Dar_Absent u) p"
  defines "ks \<equiv> flow_keys (addresses ifap) as (map line_ip ls)" and "dar \<equiv> addresses ifap ! 0"
  obtains told where "prefix told ks" "torn_down p \<longrightarrow> told = ks"
    "exchanges (sender_of p) = exchanges s @
       map (flow_exchange (overlay_port arg) (receiver_port arg) dar (flow_environment env) 1) ks @
       map (flow_exchange (overlay_port arg) (receiver_port arg) dar fe 0) told"
proof -
  let ?ex = "flow_exchange (overlay_port arg) (receiver_port arg) dar"
  have u: "configured arg fe ifap' u" "monitored (monitor u) al (ps @ map flow_path ks)" "map (flow_key u) (flows u) = ks"
      "dar_ip u = dar" "exchanges u = exchanges s @ map (?ex (flow_environment env) 1) ks"
    using set_up_configured [OF assms(1-6)] assms(7) unfolding ks_def dar_def by force+
  have env: "dar_thread_result env = 0" "0 \<le> dar_bind_result env" "0 \<le> connect_result env"
    using assms(1) by (simp_all add: session_ready_def)
  obtain xs where xs: "prefix xs (remaining_calls (flows u))" "made arg fe u ifap' xs (sender_of p)"
    "torn_down p \<longrightarrow> xs = remaining_calls (flows u)"
    by (rule outcome_removal [OF reached_ok [OF assms(8) u(1,2) env(1)] env(2,3)])
  have all: "messages arg fe u (remaining_calls (flows u)) = map (?ex fe 0) ks"
    by (simp only: messages_remaining u(3,4))
  obtain ys where "remaining_calls (flows u) = xs @ ys" using xs(1) by (auto simp: prefix_def)
  with all have "map (?ex fe 0) ks = messages arg fe u xs @ messages arg fe u ys" by simp
  then obtain k1 k2 where k: "ks = k1 @ k2" "messages arg fe u xs = map (?ex fe 0) k1" by (auto simp: map_eq_append_conv)
  have over: "k1 = ks" if "torn_down p"
  proof -
    have "messages arg fe u xs = map (?ex fe 0) ks" using that xs(3) all by simp
    with k show ?thesis by (metis length_map append_eq_conv_conj append_self_conv take_all_iff order_refl)
  qed
  show thesis
    by (rule that [of k1]) (use k xs(2) u(5) over in \<open>simp_all add: made_def\<close>)
qed

text \<open>C6.
  Without STUN, and up to the first undefined behaviour, whatever the interleaving and whatever
  arrives: from the set-up of the flows to any later moment the commands of the sender leave every
  NAT chain with the rules it had and, in addition, those not removed yet, up to their order, which
  are a final part of its rules; once the session is over, by the main thread or by the handler,
  none is left.  This holds for any iptables with the documented behaviour.\<close>

theorem session_with_alerts:
  assumes "session_ready env arg ls as ifap s" "log_open s" "monitored (monitor s) al ps" "connection_timer s \<noteq> Clock_Running"
    and "replies_ok fe" "list_all inet_ok ifap'" "iptables_semantics exec denote chain"
    and "setup_each_flow (overlay_port arg) (receiver_port arg) 0 (flow_environment env)
      (found_flows env ifap (map line_ip ls) as s) = Some (Inr u)"
    and "(thread_step env arg fe ifap')\<^sup>*\<^sup>* (Threads Main_Configured Dar_Absent u) p"
  shows "\<exists>cs left ws. commands (sender_of p) = commands s @ cs @ ws \<and>
    suffix left (sender_nat.all_rules (flow_keys (addresses ifap) as (map line_ip ls))) \<and>
    (\<forall>t c. mset (chain (fold exec cs t) c) = mset (chain t c) + mset (denoted denote c left)) \<and>
    prefix ws (projr (clean_virtual_interfaces ifap')) \<and> (left = [] \<or> ws = []) \<and> (torn_down p \<longrightarrow> left = [])"
proof -
  let ?k = "flow_keys (addresses ifap) as (map line_ip ls)"
  let ?rules = "sender_nat.all_rules ?k" and ?vs = "projr (clean_virtual_interfaces ifap')"
  have u: "configured arg fe ifap' u" "monitored (monitor u) al (ps @ map flow_path ?k)"
      "map (flow_key u) (flows u) = ?k" "commands u = commands s @ map append_cmd ?rules" "proper_rules ?rules"
    using set_up_configured [OF assms(1-6)] assms(8) by force+
  have env: "dar_thread_result env = 0" "0 \<le> dar_bind_result env" "0 \<le> connect_result env"
    using assms(1) by (simp_all add: session_ready_def)
  have rm: "removal u ifap' (remaining_calls (flows u)) = map delete_cmd ?rules @ ?vs"
    unfolding removal_remaining u(3) ..
  obtain xs where xs: "prefix xs (remaining_calls (flows u))" "made arg fe u ifap' xs (sender_of p)"
    "torn_down p \<longrightarrow> xs = remaining_calls (flows u)"
    by (rule outcome_removal [OF reached_ok [OF assms(9) u(1,2) env(1)] env(2,3)])
  let ?cs = "removal u ifap' xs"
  have cs: "prefix ?cs (map delete_cmd ?rules @ ?vs)" "commands (sender_of p) = commands u @ ?cs"
    using xs(1,2) unfolding rm [symmetric] by (auto simp: prefix_def made_def)
  show ?thesis
  proof (cases "torn_down p")
    case True
    with cs(2) xs(3) rm have "commands (sender_of p) = commands s @ (map append_cmd ?rules @ map delete_cmd ?rules) @ ?vs"
      by (simp add: u(4))
    moreover have "mset (chain (fold exec (map append_cmd ?rules @ map delete_cmd ?rules) t) c) =
        mset (chain t c) + mset (denoted denote c [])" for t c
      using delete_prefix [OF assms(7), of ?rules "[]" t c] u(5) by simp
    ultimately show ?thesis
      by (intro exI [of _ "map append_cmd ?rules @ map delete_cmd ?rules"] exI [of _ "[]"] exI [of _ ?vs]) simp
  next
    case False
    obtain gone left ws where r: "?rules = gone @ left" "?cs = map delete_cmd gone @ ws" "prefix ws ?vs" "left = [] \<or> ws = []"
      by (rule removal_prefix [OF cs(1)])
    have "mset (chain (fold exec (map append_cmd ?rules @ map delete_cmd gone) t) c) =
        mset (chain t c) + mset (denoted denote c left)" for t c
      using delete_prefix [OF assms(7), of gone left t c] u(5) unfolding r(1) by simp
    with cs(2) r False show ?thesis
      by (intro exI [of _ "map append_cmd ?rules @ map delete_cmd gone"] exI [of _ left] exI [of _ ws])
        (simp add: u(4) suffix_def)
  qed
qed

theorem session_with_alerts_witness:
  "\<exists>u p. setup_each_flow 5000 6000 0 quiet_env
      (found_flows demo_env sample_interfaces (map line_ip sample_lines) [''10.0.0.5''] demo_sender) = Some (Inr u) \<and>
    (thread_step demo_env demo_arg quiet_env sample_interfaces)\<^sup>*\<^sup>* (Threads Main_Configured Dar_Absent u) p \<and> torn_down p \<and>
    (\<exists>cs ws. commands (sender_of p) = commands demo_sender @ cs @ ws \<and>
      (\<forall>c. mset (id (fold text_exec cs (\<lambda>c. [''other''])) c) = mset [''other'']))"
proof -
  have ifs: "list_all inet_ok sample_interfaces" by (simp add: sample_interfaces_def inet_ok_def)
  have clock: "connection_timer demo_sender \<noteq> Clock_Running" by (simp add: demo_sender_def sample_sender_def)
  have arg: "overlay_port demo_arg = 5000" "receiver_port demo_arg = 6000" "flow_environment demo_env = quiet_env"
    by (simp_all add: demo_arg_def demo_env_def)
  obtain u where u: "setup_each_flow 5000 6000 0 quiet_env
      (found_flows demo_env sample_interfaces (map line_ip sample_lines) [''10.0.0.5''] demo_sender) = Some (Inr u)"
      "configured demo_arg quiet_env sample_interfaces u"
      "monitored (monitor u) [] ([] @ map flow_path (flow_keys (addresses sample_interfaces) [''10.0.0.5''] (map line_ip sample_lines)))"
    using set_up_configured [OF demo_ready demo_monitored(2,1) clock quiet_env_ok ifs] unfolding arg by blast
  obtain x where x: "(thread_step demo_env demo_arg quiet_env sample_interfaces)\<^sup>*\<^sup>* (Threads Main_Configured Dar_Absent u) (Ended 1 x)"
    using ended_by_handler [OF u(2,3) demo_threads] by blast
  obtain cs ws where "commands (sender_of (Ended 1 x)) = commands demo_sender @ cs @ ws"
      "\<forall>c. mset (id (fold text_exec cs (\<lambda>c. [''other''])) c) = mset (id (\<lambda>c. [''other'']) c) + mset (denoted Some c [])"
    using session_with_alerts [OF demo_ready demo_monitored(2,1) clock quiet_env_ok ifs text_exec_semantics _ x, unfolded arg, OF u(1)]
    by (auto simp: torn_down_def)
  then have "\<exists>cs ws. commands (sender_of (Ended 1 x)) = commands demo_sender @ cs @ ws \<and>
      (\<forall>c. mset (id (fold text_exec cs (\<lambda>c. [''other''])) c) = mset [''other''])"
    by (intro exI [of _ cs] exI [of _ ws]) (simp add: denoted_simps)
  with u(1) x show ?thesis by (intro exI [of _ u] exI [of _ "Ended 1 x"]) (simp add: torn_down_def)
qed

end
