(* ===== verification/Shared_Node.thy ===== *)
theory Shared_Node
  imports Network_Session Session_With_Alerts
begin

text \<open>
  An overlay node that several senders use at the same time, each of them with its alerts.  The
  accept loop of the node serves one connection after another, in whatever order they arrive.
\<close>

section \<open>Sessions as the connections they open\<close>

text \<open>
  What a sender has exchanged with nodes so far, the port and the flows of its session, and
  whether the session is over: for a session without alerts from the first query to the last
  command, and for any execution of the two threads after the set-up of the flows.
\<close>

inductive session_so_far :: "node_io list list \<Rightarrow> int \<Rightarrow> (string \<times> string \<times> string) list \<Rightarrow> bool \<Rightarrow> bool" where
  without_alerts: "session_ready env arg ls as ifap s \<Longrightarrow> log_open s \<Longrightarrow> monitored (monitor s) al ps \<Longrightarrow>
    replies_ok env' \<Longrightarrow> list_all inet_ok ifap' \<Longrightarrow>
    setup_sender env arg s = Some (Inr s1) \<Longrightarrow> teardown_sender env' ifap' arg s1 = Inr s2 \<Longrightarrow>
    exchanges s2 = exchanges s @ exs \<Longrightarrow>
    session_so_far exs (receiver_port arg) (flow_keys (addresses ifap) as (map line_ip ls)) True"
| with_alerts: "session_ready env arg ls as ifap s \<Longrightarrow> log_open s \<Longrightarrow> monitored (monitor s) al ps \<Longrightarrow>
    connection_timer s \<noteq> Clock_Running \<Longrightarrow> replies_ok fe \<Longrightarrow> list_all inet_ok ifap' \<Longrightarrow>
    setup_each_flow (overlay_port arg) (receiver_port arg) 0 (flow_environment env)
      (found_flows env ifap (map line_ip ls) as s) = Some (Inr u) \<Longrightarrow>
    (thread_step env arg fe ifap')\<^sup>*\<^sup>* (Threads Main_Configured Dar_Absent u) p \<Longrightarrow>
    exchanges (sender_of p) = exchanges s @ exs \<Longrightarrow>
    session_so_far exs (receiver_port arg) (flow_keys (addresses ifap) as (map line_ip ls)) (torn_down p)"

definition keys_at :: "string \<Rightarrow> int \<Rightarrow> (string \<times> string \<times> string) list \<Rightarrow> (string \<times> string \<times> string \<times> string) set" where
  "keys_at addr rp ks = node_key addr rp ` {k \<in> set ks. snd (snd k) = addr}"

text \<open>The keys at one node of the flows of several sessions.\<close>

type_synonym session = "node_io list list \<times> int \<times> (string \<times> string \<times> string) list \<times> bool"

definition session_keys :: "string \<Rightarrow> session list \<Rightarrow> (string \<times> string \<times> string \<times> string) set" where
  "session_keys addr sessions = (\<Union>(exs, rp, ks, over) \<in> set sessions. keys_at addr rp ks)"

lemma session_keys_Cons: "session_keys addr ((exs, rp, ks, over) # sessions) = keys_at addr rp ks \<union> session_keys addr sessions"
  by (simp add: session_keys_def)

text \<open>A session with the requests of all its flows, and requests to remove an initial part of them.\<close>

lemma told_requests:
  fixes arg :: setup_sender_arg and env env' :: flow_env
  assumes "list_all ends_ok ks" "prefix told ks" "over \<longrightarrow> told = ks"
    and "addr_ok dar" "0 \<le> receiver_port arg" "receiver_port arg < 100000"
    and "RULE_SIZE \<le> Suc (length (junk env))" "RULE_SIZE \<le> Suc (length (junk env'))"
    and "exs = map (flow_exchange (overlay_port arg) (receiver_port arg) dar env 1) ks @
      map (flow_exchange (overlay_port arg) (receiver_port arg) dar env' 0) told"
  shows "\<exists>qs N. connections_to addr exs = map request_stream qs \<and> list_all request_ok qs \<and>
    ledger {#} (map (request_entry addr) qs) = Some N \<and> snd ` request_entry addr ` set qs \<subseteq> keys_at addr (receiver_port arg) ks \<and>
    set_mset N \<subseteq> (if over then {} else keys_at addr (receiver_port arg) ks)"
proof -
  let ?at = "filter (\<lambda>(src, dst, hop). hop = addr)" and ?key = "node_key addr (receiver_port arg)"
  let ?qs = "flow_requests True arg dar env (?at ks) @ flow_requests False arg dar env' (?at told)"
  obtain rest where rest: "ks = told @ rest" using assms(2) by (auto simp: prefix_def)
  have "connections_to addr exs = map request_stream ?qs"
    unfolding assms(9) by (simp add: connections_to_append connections_of_flows flow_requests_stream)
  moreover have "list_all request_ok ?qs"
    using assms(1,4-8) unfolding rest by (auto simp: flow_requests_def request_ok_def list_all_iff)
  moreover have "ledger {#} (map (request_entry addr) ?qs) = Some (mset (map ?key (?at rest)))"
    using ledger_told [of "map ?key (?at told)" "map ?key (?at rest)"]
    unfolding map_append flow_requests_entries rest filter_append .
  moreover have "snd ` request_entry addr ` set ?qs \<subseteq> keys_at addr (receiver_port arg) ks"
    unfolding rest by (auto simp: flow_requests_def request_entry_def keys_at_def)
  moreover have "set_mset (mset (map ?key (?at rest))) \<subseteq> (if over then {} else keys_at addr (receiver_port arg) ks)"
    using assms(3) unfolding rest by (auto simp: keys_at_def)
  ultimately show ?thesis by blast
qed

lemma ready_facts:
  assumes "session_ready env arg ls as ifap s" "replies_ok env'"
  shows "list_all ends_ok (flow_keys (addresses ifap) as (map line_ip ls))" "addr_ok (addresses ifap ! 0)"
    "0 \<le> receiver_port arg" "receiver_port arg < 100000"
    "RULE_SIZE \<le> Suc (length (junk (flow_environment env)))" "RULE_SIZE \<le> Suc (length (junk env'))"
proof -
  note r = assms(1) [unfolded session_ready_def]
  have "ls \<noteq> []" using r by (auto dest: adapter_answersD)
  then have "addresses ifap \<noteq> []" using r by auto
  then show "addr_ok (addresses ifap ! 0)" using r by (simp add: list_all_length)
  show "list_all ends_ok (flow_keys (addresses ifap) as (map line_ip ls))" using r by (intro flow_keys_ends_ok) simp_all
qed (use assms in \<open>simp_all add: session_ready_def replies_ok_def\<close>)

lemma session_requests_so_far:
  assumes "session_so_far exs rp ks over"
  shows "\<exists>qs N. connections_to addr exs = map request_stream qs \<and> list_all request_ok qs \<and>
    ledger {#} (map (request_entry addr) qs) = Some N \<and> snd ` request_entry addr ` set qs \<subseteq> keys_at addr rp ks \<and>
    set_mset N \<subseteq> (if over then {} else keys_at addr rp ks)"
  using assms
proof cases
  case (without_alerts env arg ls as ifap s al ps env' ifap' s1 s2)
  note f = ready_facts [OF without_alerts(4,7)]
  obtain t1 t2 where t: "setup_sender env arg s = Some (Inr t1)" "teardown_sender env' ifap' arg t1 = Inr t2"
    "exchanges t2 = exchanges s @ map (flow_exchange (overlay_port arg) (receiver_port arg) (addresses ifap ! 0) (flow_environment env) 1)
        (flow_keys (addresses ifap) as (map line_ip ls)) @
      map (flow_exchange (overlay_port arg) (receiver_port arg) (addresses ifap ! 0) env' 0) (flow_keys (addresses ifap) as (map line_ip ls))"
    by (rule session_runs [OF without_alerts(4-8) text_exec_semantics]) blast
  have "t1 = s1" using t(1) without_alerts(9) by simp
  then have "t2 = s2" using t(2) without_alerts(10) by simp
  with t(3) without_alerts(11) have "exs = map (flow_exchange (overlay_port arg) (receiver_port arg) (addresses ifap ! 0) (flow_environment env) 1) ks @
      map (flow_exchange (overlay_port arg) (receiver_port arg) (addresses ifap ! 0) env' 0) ks"
    unfolding without_alerts(2) by simp
  from told_requests [OF f(1) [folded without_alerts(2)] prefix_order.refl _ f(2-6) this, of over addr] show ?thesis
    unfolding without_alerts(1) by simp
next
  case (with_alerts env arg ls as ifap s al ps fe ifap' u p)
  note f = ready_facts [OF with_alerts(4,8)]
  obtain told where told: "prefix told ks" "torn_down p \<longrightarrow> told = ks"
    "exchanges (sender_of p) = exchanges s @
       map (flow_exchange (overlay_port arg) (receiver_port arg) (addresses ifap ! 0) (flow_environment env) 1) ks @
       map (flow_exchange (overlay_port arg) (receiver_port arg) (addresses ifap ! 0) fe 0) told"
    unfolding with_alerts(2) by (rule messages_with_alerts [OF with_alerts(4-11)])
  have "exs = map (flow_exchange (overlay_port arg) (receiver_port arg) (addresses ifap ! 0) (flow_environment env) 1) ks @
      map (flow_exchange (overlay_port arg) (receiver_port arg) (addresses ifap ! 0) fe 0) told"
    using told(3) with_alerts(12) by simp
  from told_requests [OF f(1) [folded with_alerts(2)] told(1) _ f(2-6) this, of over addr] told(2) show ?thesis
    unfolding with_alerts(1,3) by simp
qed


definition still_open :: "session list \<Rightarrow> session list" where
  "still_open sessions = filter (\<lambda>(exs, rp, ks, over). \<not> over) sessions"

lemma sessions_requests:
  assumes "\<forall>(exs, rp, ks, over) \<in> set sessions. session_so_far exs rp ks over"
  shows "\<exists>qss. map (\<lambda>(exs, rp, ks, over). connections_to addr exs) sessions = map (map request_stream) qss \<and>
    (\<forall>qs \<in> set qss. list_all request_ok qs \<and> ledger {#} (map (request_entry addr) qs) \<noteq> None \<and>
       snd ` request_entry addr ` set qs \<subseteq> session_keys addr sessions) \<and>
    set_mset (\<Sum>qs\<leftarrow>qss. the (ledger {#} (map (request_entry addr) qs))) \<subseteq> session_keys addr (still_open sessions)"
  using assms
proof (induction sessions)
  case (Cons x sessions)
  obtain exs rp ks over where x: "x = (exs, rp, ks, over)" by (cases x)
  with Cons.prems have "session_so_far exs rp ks over" by simp
  from session_requests_so_far [OF this, of addr] obtain qs N where
    qs: "connections_to addr exs = map request_stream qs" "list_all request_ok qs"
      "ledger {#} (map (request_entry addr) qs) = Some N" "snd ` request_entry addr ` set qs \<subseteq> keys_at addr rp ks"
      "set_mset N \<subseteq> (if over then {} else keys_at addr rp ks)" by blast
  have "\<forall>(exs, rp, ks, over) \<in> set sessions. session_so_far exs rp ks over" using Cons.prems by simp
  from Cons.IH [OF this] obtain qss where
    qss: "map (\<lambda>(exs, rp, ks, over). connections_to addr exs) sessions = map (map request_stream) qss"
      "\<forall>qs \<in> set qss. list_all request_ok qs \<and> ledger {#} (map (request_entry addr) qs) \<noteq> None \<and>
         snd ` request_entry addr ` set qs \<subseteq> session_keys addr sessions"
      "set_mset (\<Sum>qs\<leftarrow>qss. the (ledger {#} (map (request_entry addr) qs))) \<subseteq> session_keys addr (still_open sessions)"
    by blast
  have k: "session_keys addr (x # sessions) = keys_at addr rp ks \<union> session_keys addr sessions"
    "session_keys addr (still_open (x # sessions)) = (if over then {} else keys_at addr rp ks) \<union> session_keys addr (still_open sessions)"
    by (simp_all add: x session_keys_Cons still_open_def)
  have "list_all request_ok rs \<and> ledger {#} (map (request_entry addr) rs) \<noteq> None \<and>
      snd ` request_entry addr ` set rs \<subseteq> session_keys addr (x # sessions)" if "rs \<in> set (qs # qss)" for rs
  proof (cases "rs = qs")
    case True
    with qs(2-4) show ?thesis unfolding k(1) by blast
  next
    case False
    with that have "rs \<in> set qss" by simp
    with qss(2) show ?thesis unfolding k(1) by blast
  qed
  moreover have "set_mset (\<Sum>qs\<leftarrow>qs # qss. the (ledger {#} (map (request_entry addr) qs))) \<subseteq> session_keys addr (still_open (x # sessions))"
    using qs(3,5) qss(3) unfolding k(2) by auto
  moreover have "map (\<lambda>(exs, rp, ks, over). connections_to addr exs) (x # sessions) = map (map request_stream) (qs # qss)"
    by (simp add: x qs(1) qss(1))
  ultimately show ?case by blast
qed (simp add: still_open_def)

section \<open>Properties\<close>

text \<open>C2.
  An overlay node that any number of senders share, each without STUN and with its alerts:
  whatever each session has come to before its first undefined behaviour, if any, and however
  their connections interleave, the node serves them all, and at every moment every chain of its
  NAT table holds the rules it had before and rules of flows that run over it, up to their order.
  Once everything that was sent is served, these belong to sessions that are not over, so nothing
  is left when all are.  This holds even if several senders have the same flow, and for any
  iptables with the documented behaviour.\<close>

theorem shared_node:
  assumes "iptables_semantics exec denote chain" "node_ok n" "plain (overlay_addr n)"
    and "\<forall>(exs, rp, ks, over) \<in> set sessions. session_so_far exs rp ks over"
    and "conns \<in> interleavings (map (\<lambda>(exs, rp, ks, over). connections_to (overlay_addr n) exs) sessions)"
    and "prefix served conns"
  shows "\<exists>n' es left. start_overlay served n = Inr n' \<and> effects n' = effects n @ es \<and>
    (\<forall>t c. mset (chain (fold exec (nat_commands es) t) c) = mset (chain t c) + placed node_rules denote c left) \<and>
    set_mset left \<subseteq> session_keys (overlay_addr n) sessions \<and>
    (served = conns \<longrightarrow> set_mset left \<subseteq> session_keys (overlay_addr n) (still_open sessions))"
proof -
  let ?addr = "overlay_addr n" and ?all = "session_keys (overlay_addr n) sessions"
  obtain qss where qss: "map (\<lambda>(exs, rp, ks, over). connections_to ?addr exs) sessions = map (map request_stream) qss"
    "\<forall>qs \<in> set qss. list_all request_ok qs \<and> ledger {#} (map (request_entry ?addr) qs) \<noteq> None \<and>
       snd ` request_entry ?addr ` set qs \<subseteq> ?all"
    "set_mset (\<Sum>qs\<leftarrow>qss. the (ledger {#} (map (request_entry ?addr) qs))) \<subseteq> session_keys ?addr (still_open sessions)"
    using sessions_requests [OF assms(4)] by blast
  obtain us where us: "us \<in> interleavings qss" "conns = map request_stream us"
    using interleavings_map assms(5) unfolding qss(1) by blast
  have ok: "list_all request_ok us" "snd ` request_entry ?addr ` set us \<subseteq> ?all"
    using qss(2) set_interleavings [OF us(1)] by (fastforce simp: list_all_iff)+
  let ?sum = "\<Sum>qs\<leftarrow>qss. the (ledger {#} (map (request_entry ?addr) qs))"
  have "ledger {#} (map (request_entry ?addr) us) = Some ?sum"
    using ledger_interleaving [OF map_interleavings [OF us(1)], of "request_entry ?addr"] qss(2) by (simp add: comp_def)
  moreover obtain rest where rest: "conns = served @ rest" using assms(6) by (auto simp: prefix_def)
  then obtain vs ws where vs: "us = vs @ ws" "served = map request_stream vs" "rest = map request_stream ws"
    using us(2) by (auto simp: map_eq_append_conv)
  ultimately obtain N where N: "ledger {#} (map (request_entry ?addr) vs) = Some N" "ledger N (map (request_entry ?addr) ws) = Some ?sum"
    by (auto simp: ledger_append bind_eq_Some_conv)
  have vs_ok: "list_all request_ok vs" using ok(1) vs(1) by simp
  obtain n' es where n': "start_overlay served n = Inr n'" "effects n' = effects n @ es"
    "\<And>t c. mset (chain (fold exec (nat_commands es) t) c) = mset (chain t c) + placed node_rules denote c N"
    unfolding vs(2) by (rule requests_table [OF assms(1-3) vs_ok N(1)]) blast
  have "set_mset N \<subseteq> ?all" using ledger_of_set [OF N(1)] ok(2) unfolding vs(1) by (auto simp: image_Un)
  moreover have "set_mset N \<subseteq> session_keys ?addr (still_open sessions)" if "served = conns"
    using that rest vs(3) N(2) qss(3) by simp
  ultimately show ?thesis using n' by blast
qed

text \<open>
  Two senders with the same flow, their connections in turn: one tears down, the other one is
  still configured.
\<close>

lemma demo_sessions:
  defines "ks \<equiv> flow_keys (addresses sample_interfaces) [''10.0.0.5''] (map line_ip sample_lines)"
  obtains exs exs' where "session_so_far exs 6000 ks True" "session_so_far exs' 6000 ks False"
proof -
  have i: "list_all inet_ok sample_interfaces" by (simp add: sample_interfaces_def inet_ok_def)
  have p: "receiver_port demo_arg = 6000" by (simp add: demo_arg_def)
  have clock: "connection_timer demo_sender \<noteq> Clock_Running" by (simp add: demo_sender_def sample_sender_def)
  obtain s1 s2 exs where s: "setup_sender demo_env demo_arg demo_sender = Some (Inr s1)"
    "teardown_sender quiet_env sample_interfaces demo_arg s1 = Inr s2" "exchanges s2 = exchanges demo_sender @ exs"
    by (rule session_requests_sent [OF demo_ready demo_monitored(2,1) quiet_env_ok i text_exec_semantics]) blast
  obtain u where u: "setup_each_flow (overlay_port demo_arg) (receiver_port demo_arg) 0 (flow_environment demo_env)
      (found_flows demo_env sample_interfaces (map line_ip sample_lines) [''10.0.0.5''] demo_sender) = Some (Inr u)"
    by (rule set_up_configured [OF demo_ready demo_monitored(2,1) clock quiet_env_ok i]) blast
  let ?p = "Threads Main_Configured Dar_Absent u"
  obtain exs' where "exchanges (sender_of ?p) = exchanges demo_sender @ exs'"
    by (rule messages_with_alerts [OF demo_ready demo_monitored(2,1) clock quiet_env_ok i u rtranclp.rtrancl_refl]) blast
  from with_alerts [OF demo_ready demo_monitored(2,1) clock quiet_env_ok i u rtranclp.rtrancl_refl this]
  have "session_so_far exs' 6000 ks False" unfolding p by (simp add: torn_down_def ks_def)
  moreover from without_alerts [OF demo_ready demo_monitored(2,1) quiet_env_ok i s]
  have "session_so_far exs 6000 ks True" unfolding p ks_def .
  ultimately show thesis using that by blast
qed

theorem shared_node_witness:
  "\<exists>exs exs' rp ks n' es left. session_so_far exs rp ks True \<and> session_so_far exs' rp ks False \<and>
    start_overlay (splice (connections_to ''10.0.0.7'' exs) (connections_to ''10.0.0.7'' exs')) (sample_node\<lparr>overlay_addr := ''10.0.0.7''\<rparr>) = Inr n' \<and>
    effects n' = es \<and> set_mset left \<subseteq> keys_at ''10.0.0.7'' rp ks \<and>
    (\<forall>t c. mset (id (fold text_exec (nat_commands es) t) c) = mset (id t c) + placed node_rules Some c left)"
proof -
  let ?n = "sample_node\<lparr>overlay_addr := ''10.0.0.7''\<rparr>"
  have n: "node_ok ?n" "plain (overlay_addr ?n)" using sample_rules(1) by (simp_all add: node_ok_def plain_char_def)
  have e: "effects ?n = []" "overlay_addr ?n = ''10.0.0.7''" by (simp_all add: sample_node_def)
  let ?k = "flow_keys (addresses sample_interfaces) [''10.0.0.5''] (map line_ip sample_lines)"
  obtain exs exs' where w: "session_so_far exs 6000 ?k True" "session_so_far exs' 6000 ?k False" by (rule demo_sessions)
  let ?sessions = "[(exs, 6000, ?k, True), (exs', 6000, ?k, False)]"
  let ?served = "splice (connections_to (overlay_addr ?n) exs) (connections_to (overlay_addr ?n) exs')"
  have ws: "\<forall>(exs, rp, ks, over) \<in> set ?sessions. session_so_far exs rp ks over" using w by simp
  have c: "?served \<in> interleavings (map (\<lambda>(exs, rp, ks, over). connections_to (overlay_addr ?n) exs) ?sessions)" by simp
  have still: "session_keys (overlay_addr ?n) (still_open ?sessions) = keys_at (overlay_addr ?n) 6000 ?k"
    by (simp add: still_open_def session_keys_def)
  obtain n' es left where r: "start_overlay ?served ?n = Inr n'" "effects n' = effects ?n @ es"
    "\<forall>t c. mset (id (fold text_exec (nat_commands es) t) c) = mset (id t c) + placed node_rules Some c left"
    "?served = ?served \<longrightarrow> set_mset left \<subseteq> session_keys (overlay_addr ?n) (still_open ?sessions)"
    using shared_node [OF text_exec_semantics n ws c prefix_order.refl] by blast
  then have "set_mset left \<subseteq> keys_at (overlay_addr ?n) 6000 ?k" unfolding still by simp
  with r(1-3) w show ?thesis
    unfolding e by (intro exI [of _ exs] exI [of _ exs'] exI [of _ 6000] exI [of _ ?k] exI [of _ n'] exI [of _ es] exI [of _ left]) simp
qed

end
