(* ===== verification/Session_Termination.thy ===== *)
theory Session_Termination
  imports Session_With_Alerts
begin

text \<open>
  Every execution of the two threads is finite: a bound on the number of its steps by the number
  of datagrams that arrive, and that no execution stops before the session is over.
\<close>

section \<open>Executions by their numbers of steps and datagrams\<close>

definition datagram :: "execution \<Rightarrow> execution \<Rightarrow> bool" where
  "datagram p q = (case p of Threads m (Dar_Blocked n) s \<Rightarrow>
     (case q of Threads m' d u \<Rightarrow> d = Dar_Raising (n + 1) \<or> d = Dar_Reading (n + 1) | _ \<Rightarrow> False) | _ \<Rightarrow> False)"

inductive execution_of ::
    "session_env \<Rightarrow> setup_sender_arg \<Rightarrow> flow_env \<Rightarrow> ifaddrs list \<Rightarrow> execution \<Rightarrow> nat \<Rightarrow> nat \<Rightarrow> execution \<Rightarrow> bool"
  for env arg fe ifap p where
  nothing_done: "execution_of env arg fe ifap p 0 0 p"
| one_more: "execution_of env arg fe ifap p n k q \<Longrightarrow> thread_step env arg fe ifap q r \<Longrightarrow>
    execution_of env arg fe ifap p (Suc n) (if datagram q r then Suc k else k) r"

lemma execution_of_reaches: "execution_of env arg fe ifap p n k q \<Longrightarrow> (thread_step env arg fe ifap)\<^sup>*\<^sup>* p q"
  by (induction rule: execution_of.induct) (auto intro: rtranclp.rtrancl_into_rtrancl)

lemma reaches_execution_of: "(thread_step env arg fe ifap)\<^sup>*\<^sup>* p q \<Longrightarrow> \<exists>n k. execution_of env arg fe ifap p n k q"
  by (induction rule: rtranclp_induct) (blast intro: nothing_done one_more)+

section \<open>The work left\<close>

text \<open>How many steps each thread can make without another datagram, with \<open>l\<close> the calls of a teardown.\<close>

definition main_work :: "nat \<Rightarrow> main_thread \<Rightarrow> nat" where
  "main_work l m = (case m of Main_Configured \<Rightarrow> l + 9 | Main_Monitoring \<Rightarrow> l + 5 | Main_Handling \<Rightarrow> l + 4
     | Main_Connecting \<Rightarrow> l + 3 | Main_Connected \<Rightarrow> l + 2 | Main_Tearing cs \<Rightarrow> length cs + 1 | Main_Closed \<Rightarrow> 0)"

definition dar_work :: "nat \<Rightarrow> dar_thread \<Rightarrow> nat" where
  "dar_work l d = (case d of Dar_Absent \<Rightarrow> 0 | Dar_Reading n \<Rightarrow> 2 | Dar_Blocked n \<Rightarrow> 1 | Dar_Raising n \<Rightarrow> l + 4
     | Dar_Handling n ends cs \<Rightarrow> length cs + 3 | Dar_Left \<Rightarrow> 0)"

definition work :: "nat \<Rightarrow> execution \<Rightarrow> nat" where
  "work l p = (case p of Threads m d s \<Rightarrow> 1 + main_work l m + dar_work l d | _ \<Rightarrow> 0)"

lemma work_Threads: "work l (Threads m d s) = 1 + main_work l m + dar_work l d"
    "work l (Died s) = 0" "work l (Ended i s) = 0"
  by (simp_all add: work_def)

lemmas work_simps = work_Threads main_work_def dar_work_def

lemma teardown_length [simp]: "length (teardown_calls fs) = 2 * length fs + 10"
  by (simp add: teardown_calls_def remaining_calls_def)

lemma work_crash [simp]: "work l (crash e s) = 0"
  by (cases e) (simp_all add: crash_def work_def)

lemma flows_crash [simp]: "flows (sender_of (crash e s)) = flows s"
  by (cases e) (simp_all add: crash_def sender_of_def)

lemma on_signal_work: "dar_work (length (teardown_calls (flows s))) (on_signal arg n s) < dar_work (length (teardown_calls (flows s))) (Dar_Raising n)"
  using on_signal_cases [of arg n s] by (auto simp: dar_work_def)

lemma iteration_state:
  assumes "dar_iteration now bytes n s = Some (Inr (u, k, raised))"
  shows "flows u = flows s \<and> k = n + 1"
  using assms
  by (auto simp: dar_iteration_def cbind_eq_Inr loop_step flows_def simp del: handle_darshana_client_loop.simps(3)
      split: prod.splits if_splits)


text \<open>Before the main thread starts it there is no other thread, and the flows never change.\<close>

definition flows_kept :: "sender \<Rightarrow> execution \<Rightarrow> bool" where
  "flows_kept s0 p = (case p of Threads m d s \<Rightarrow> flows s = flows s0 \<and> (m = Main_Configured \<longrightarrow> d = Dar_Absent) | _ \<Rightarrow> True)"

lemma flows_kept_Threads [simp]:
  "flows_kept s0 (Threads m d s) \<longleftrightarrow> flows s = flows s0 \<and> (m = Main_Configured \<longrightarrow> d = Dar_Absent)"
  "flows_kept s0 (Died s)" "flows_kept s0 (Ended n s)"
  by (simp_all add: flows_kept_def)

lemma flows_kept_crash [simp]: "flows_kept s0 (crash e s)"
  by (cases e) (simp_all add: crash_def flows_kept_def)

lemma flows_kept_step:
  assumes "thread_step env arg fe ifap p q" "flows_kept s0 p"
  shows "flows_kept s0 q"
  using assms
proof cases
  case (main_call c s u cs d)
  from same_flows_simps(1) [of s u] run_call_kept [OF main_call(3)] assms(2) show ?thesis
    unfolding main_call(1,2) by (simp add: kept_def)
next
  case (handler_call c s u m n ends cs)
  from same_flows_simps(1) [of s u] run_call_kept [OF handler_call(3)] assms(2) show ?thesis
    unfolding handler_call(1,2) by (auto simp: kept_def)
next
  case (dar_alert now bytes n s u k raised m)
  from iteration_state [OF dar_alert(3)] assms(2) show ?thesis
    unfolding dar_alert(1,2) by auto
qed (auto simp: flows_def start_monitoring_def register_handler_def rbind_eq_Inr)

interpretation flow_runs: step_invariant "thread_step env arg fe ifap" "Threads Main_Configured Dar_Absent s0"
    "flows_kept s0" for env arg fe ifap s0
  by unfold_locales (simp, erule (1) flows_kept_step)

lemma work_step:
  assumes "thread_step env arg fe ifap p q" "flows_kept s0 p"
  defines "l \<equiv> length (teardown_calls (flows s0))"
  shows "Suc (work l q) \<le> work l p + (if datagram p q then l + 4 else 0)"
  using assms(1)
proof cases
  case (main_close d s)
  with assms(2) show ?thesis unfolding l_def by (simp add: work_simps)
next
  case (dar_alert now bytes n s u k raised m)
  from iteration_state [OF dar_alert(3)] show ?thesis unfolding dar_alert(1,2) by (simp add: work_simps datagram_def)
next
  case (signal_handled s m n)
  then show ?thesis using assms(2) on_signal_work [of s arg n] unfolding l_def by (simp add: work_Threads)
qed (auto simp: work_simps datagram_def)

lemma steps_bounded:
  assumes "execution_of env arg fe ifap (Threads Main_Configured Dar_Absent s0) n k p"
  defines "l \<equiv> length (teardown_calls (flows s0))"
  shows "n + work l p \<le> l + 10 + k * (l + 4)"
  using assms(1)
proof induction
  case nothing_done
  show ?case by (simp add: work_simps)
next
  case (one_more n k q r)
  have "flows_kept s0 q" by (rule flow_runs.reachable [OF execution_of_reaches [OF one_more.hyps(1)]])
  from work_step [OF one_more.hyps(2) this] one_more.IH show ?case by (simp add: l_def split: if_splits)
qed

section \<open>Calls that do not return\<close>

text \<open>Only the exchange with a node can block, and only if that node stays silent.\<close>

lemma strings_return [simp]: "build_string cap t ts \<noteq> Inl Blocked" "strcpy cap t \<noteq> Inl Blocked"
  by (simp_all add: build_string_eq strcpy_def)

lemma rule_specs_return [simp]:
  "build_hop_forward_rules_spec src dst port ty \<noteq> Inl Blocked"
  "build_hop_run_darshana_spec dar dport ddst dsport ty \<noteq> Inl Blocked"
  by (auto simp: build_hop_forward_rules_spec_def build_hop_run_darshana_spec_def rbind_eq_Inl)

lemma arrays_return [simp]: "array_get xs i \<noteq> Inl Blocked" "flow_hop s f \<noteq> Inl Blocked"
  by (auto simp: array_get_def flow_hop_def rbind_eq_Inl guard_def)

lemma clean_interfaces_returns [simp]: "clean_virtual_interfaces ifap \<noteq> Inl Blocked"
  by (induction ifap) (auto simp: rbind_eq_Inl inet_address_def nonnull_def delete_interface_def split: option.splits if_splits)

lemma clean_own_returns [simp]: "clean_own f s \<noteq> Inl Blocked"
  by (auto simp: clean_own_def remove_sender_own_rules_iptables_eq rbind_eq_Inl split: prod.splits if_splits)

lemma await_reply_blocked: "await_reply quiet buf s = Inl Blocked \<Longrightarrow> quiet"
proof (induction quiet buf s rule: await_reply.induct)
  case (1 quiet buf s)
  obtain c t where r: "recv RULE_SIZE s = (c, t)" by (cases "recv RULE_SIZE s")
  with 1 show ?case
    by (subst (asm) (2) await_reply.simps) (auto simp: rbind_eq_Inl Let_def c_string_def split: if_splits)
qed

lemma exchange_blocked: "setup_overlay_node ip p fr dr quiet s = Inl Blocked \<Longrightarrow> quiet"
  by (auto simp: setup_overlay_node_def rbind_eq_Inl dest: await_reply_blocked)

lemma clean_node_blocked:
  assumes "clean_node op rp fe (i, j) s = Inl Blocked"
  shows "silent fe i j"
  using assms
  by (auto simp: clean_node_def kill_sender_darshana_pthreads_def rbind_eq_Inl dest: exchange_blocked split: option.splits)

lemma run_call_blocked:
  assumes "run_call fe ifap arg c s = Inl Blocked"
  obtains i j where "c = Clean_Node (i, j)" "silent fe i j"
  using assms
  by (cases c) (auto simp: rbind_eq_Inl guard_def stop_path_monitoring_module_def' pthread_kill_0_def
      dest: clean_node_blocked split: clock_pointer.splits if_splits)

text \<open>What one thread does to the session does not wake the other from such a call.\<close>

lemma clean_node_same:
  assumes "same_session s u"
  shows "clean_node op rp fe f s = Inl Blocked \<longleftrightarrow> clean_node op rp fe f u = Inl Blocked"
proof -
  note sf = same_flows_simps [OF assms [unfolded same_session_def, THEN conjunct1]]
  have "flow_hop u f = flow_hop s f" using assms sf by (simp add: flow_hop_def same_session_def same_flows_def)
  with assms show ?thesis
    by (auto simp: clean_node_def kill_sender_darshana_pthreads_def same_session_def same_flows_def sf rbind_eq_Inl
        split: prod.splits option.splits)
qed

lemma same_session_refl [simp]: "same_session s s"
  by (simp add: same_session_def)

definition waits_for_node :: "setup_sender_arg \<Rightarrow> flow_env \<Rightarrow> ifaddrs list \<Rightarrow> execution \<Rightarrow> bool" where
  "waits_for_node arg fe ifap p = (case p of
     Threads (Main_Tearing (c # cs)) d s \<Rightarrow> run_call fe ifap arg c s = Inl Blocked | _ \<Rightarrow> False)"

lemma waits_for_node_Tearing [simp]:
  "waits_for_node arg fe ifap (Threads (Main_Tearing (c # cs)) d s) \<longleftrightarrow> run_call fe ifap arg c s = Inl Blocked"
  by (simp add: waits_for_node_def)

definition halted :: "execution \<Rightarrow> bool" where
  "halted p = (case p of Threads m d s \<Rightarrow> False | _ \<Rightarrow> True)"

lemma waiting_not_closed: "waits_for_node arg fe ifap q \<or> halted q \<Longrightarrow> q \<noteq> Threads Main_Closed d s"
  by (auto simp: waits_for_node_def halted_def)

lemma waits_for_node_cases:
  assumes "waits_for_node arg fe ifap p"
  obtains i j cs d s where "p = Threads (Main_Tearing (Clean_Node (i, j) # cs)) d s" "silent fe i j"
    "run_call fe ifap arg (Clean_Node (i, j)) s = Inl Blocked"
  using assms
proof -
  obtain c cs d s where p: "p = Threads (Main_Tearing (c # cs)) d s" "run_call fe ifap arg c s = Inl Blocked"
    using assms by (auto simp: waits_for_node_def split: execution.splits main_thread.splits list.splits)
  obtain i j where c: "c = Clean_Node (i, j)" "silent fe i j" by (rule run_call_blocked [OF p(2)])
  show thesis by (rule that [OF p(1) [unfolded c(1)] c(2) p(2) [unfolded c(1)]])
qed

lemma halted_simps [simp]: "halted (Died s)" "halted (Ended n s)" "halted (Crashed e s)" "\<not> halted (Threads m d s)"
  by (simp_all add: halted_def)

lemma halted_crash [simp]: "halted (crash e s)"
  by (cases e) (simp_all add: crash_def)

lemma halted_stays: "halted p \<Longrightarrow> \<not> thread_step env arg fe ifap p q"
  by (cases p) (simp_all add: halted_def after_death after_end after_crash)

lemma waiting_step:
  assumes "thread_step env arg fe ifap p q" "waits_for_node arg fe ifap p"
  shows "waits_for_node arg fe ifap q \<or> halted q"
proof -
  obtain i j cs d s where p: "p = Threads (Main_Tearing (Clean_Node (i, j) # cs)) d s"
    "run_call fe ifap arg (Clean_Node (i, j)) s = Inl Blocked"
    using assms(2) by (rule waits_for_node_cases)
  have still: "waits_for_node arg fe ifap (Threads (Main_Tearing (Clean_Node (i, j) # cs)) d' u)" if "same_session s u" for d' u
    using p(2) clean_node_same [OF that] by simp
  from assms(1) show ?thesis unfolding p(1)
  proof cases
    case (dar_alert now bytes n u k raised)
    have "same_session s u"
      using dar_alert(3) by (auto simp: dar_iteration_def cbind_eq_Inr same_session_def same_flows_def
          simp del: handle_darshana_client_loop.simps split: prod.splits)
    with still dar_alert(2) show ?thesis by blast
  next
    case (handler_call c u n ends cs')
    from kept_same_session [OF run_call_kept [OF handler_call(3)] same_session_refl] still handler_call(2) show ?thesis by blast
  qed (use p(2) still [OF same_session_refl] in simp_all)
qed

lemma waiting_for_ever:
  assumes "(thread_step env arg fe ifap)\<^sup>*\<^sup>* p q" "waits_for_node arg fe ifap p"
  shows "waits_for_node arg fe ifap q \<or> halted q"
  using assms
proof (induction rule: rtranclp_induct)
  case (step q r)
  with waiting_step [of env arg fe ifap q r] halted_stays [of q env arg fe ifap r] show ?case by blast
qed simp

section \<open>No execution is stuck\<close>

definition session_over :: "execution \<Rightarrow> bool" where
  "session_over p = (case p of Threads m d s \<Rightarrow> m = Main_Closed | _ \<Rightarrow> True)"

text \<open>The main thread can make a step of its own: it can make one where no other thread is.\<close>

definition main_can_step :: "session_env \<Rightarrow> setup_sender_arg \<Rightarrow> flow_env \<Rightarrow> ifaddrs list \<Rightarrow> execution \<Rightarrow> bool" where
  "main_can_step env arg fe ifap p \<longleftrightarrow>
     (\<exists>m d s q. p = Threads m d s \<and> thread_step env arg fe ifap (Threads m Dar_Absent s) q)"

lemma main_moves:
  assumes "m \<noteq> Main_Closed" "\<not> waits_for_node arg fe ifap (Threads m d s)"
  shows "\<exists>q. thread_step env arg fe ifap (Threads m Dar_Absent s) q"
proof (cases m)
  case Main_Configured
  with main_start main_start_fails show ?thesis by (cases "start_monitoring env arg s") blast+
next
  case Main_Connecting
  then show ?thesis using main_connect main_connect_fails by (cases "0 \<le> connect_result env") (fastforce simp: not_le)+
next
  case (Main_Tearing cs)
  show ?thesis
  proof (cases cs)
    case Nil
    with Main_Tearing main_closed show ?thesis by blast
  next
    case (Cons c ds)
    with Main_Tearing assms(2) show ?thesis by (cases "run_call fe ifap arg c s") (auto intro: main_call main_call_fails)
  qed
qed (use assms in \<open>blast intro: main_register main_clock main_close\<close>)+

text \<open>A node that answers nothing and stays silent is met by the teardown of a connected sender.\<close>

definition silenced :: "flow_env \<Rightarrow> flow_env" where
  "silenced fe = fe\<lparr>replies := \<lambda>i j. [], silent := \<lambda>i j. True\<rparr>"

lemma silenced_simps [simp]: "junk (silenced fe) = junk fe" "replies (silenced fe) i j = []" "silent (silenced fe) i j"
  by (simp_all add: silenced_def)

lemma clean_node_silenced: "clean_node op rp fe f s = Inr u \<Longrightarrow> clean_node op rp (silenced fe) f s = Inl Blocked"
  by (auto simp: clean_node_def setup_overlay_node_def rbind_eq_Inr split: prod.splits)

lemma silent_node_hangs:
  assumes c: "configured arg fe ifap s0" and f: "flows s0 = f # fs" and t: "dar_thread_result env = 0"
    and e: "0 \<le> dar_sockfd env" "0 \<le> dar_bind_result env" "0 \<le> connect_result env"
  obtains cs d s where "(thread_step env arg (silenced fe) ifap)\<^sup>*\<^sup>* (Threads Main_Configured Dar_Absent s0) (Threads (Main_Tearing cs) d s)"
    "waits_for_node arg (silenced fe) ifap (Threads (Main_Tearing cs) d s)"
proof -
  let ?R = "thread_step env arg (silenced fe) ifap"
  obtain m where m: "start_path_monitoring_module (dar_sockfd env) (dar_bind_result env) (dar_thread_result env)
      (max_alerts arg) (monitor s0) = Inr m" "sender_darshanas m = sender_darshanas (monitor s0)" "dar_pthread_running m"
    using e t by (simp add: start_path_monitoring_module_def start_dar_handler_def init_dar_socket_def)
  define s1 where "s1 = s0\<lparr>monitor := m\<rparr>"
  have s1: "start_monitoring env arg s0 = Inr s1" using m(1) by (simp add: start_monitoring_def s1_def)
  define s3 where "s3 = (register_handler env s1)\<lparr>connection_timer := Clock_Running, connection_open := True\<rparr>"
  have same: "same_session s0 s3" "log_open s3" "flows s3 = flows s0" "connection_timer s3 = Clock_Running"
    "dar_pthread_running (monitor s3)"
    using m(2,3) c by (simp_all add: s3_def s1_def register_handler_def same_session_def same_flows_def flows_def configured_def sender_ready_def)
  have "?R (Threads Main_Configured Dar_Absent s0) (Threads Main_Monitoring (Dar_Reading 0) s1)"
    using main_start [OF s1] t by (metis (full_types))
  moreover have "?R (Threads Main_Monitoring (Dar_Reading 0) s1) (Threads Main_Handling (Dar_Reading 0) (register_handler env s1))"
    by (rule main_register)
  moreover have "?R (Threads Main_Connecting (Dar_Reading 0) ((register_handler env s1)\<lparr>connection_timer := Clock_Running\<rparr>))
      (Threads Main_Connected (Dar_Reading 0) s3)"
    using main_connect [OF e(3)] by (simp add: s3_def)
  moreover note main_clock [of env arg "silenced fe" ifap "Dar_Reading 0" "register_handler env s1"]
    main_close [of env arg "silenced fe" ifap "Dar_Reading 0" s3]
  ultimately have r: "?R\<^sup>*\<^sup>* (Threads Main_Configured Dar_Absent s0) (Threads (Main_Tearing (teardown_calls (flows s3))) (Dar_Reading 0) s3)"
    by (meson r_into_rtranclp rtranclp.rtrancl_into_rtrancl)
  let ?pre = "[Close_Connection, Read_Clock, Free_Clock, Log_Entry, Stop_Monitoring]"
    and ?cs = "map Clean_Node fs @ Log_Entry # map Clean_Own (f # fs) @ [Log_Entry, Clean_Interfaces, Log_Entry, Close_Log]"
  have calls: "teardown_calls (flows s3) = ?pre @ Clean_Node f # ?cs"
    by (simp add: same(3) f teardown_calls_def remaining_calls_def)
  obtain u where u: "run_steps (run_call (silenced fe) ifap arg) ?pre s3 = Inr u" "same_session s0 u" "log_open u"
      "dar_pthread_running (monitor u)"
    using same by (auto simp: stop_path_monitoring_module_def' pthread_kill_0_def same_session_def same_flows_def)
  have "suffix (Clean_Node f # ?cs) (remaining_calls (flows s0))"
    by (simp add: f remaining_calls_def suffix_def)
  from freed_call [OF c u(2-4) this] obtain v where "run_call fe ifap arg (Clean_Node f) u = Inr v" by blast
  then have "run_call (silenced fe) ifap arg (Clean_Node f) u = Inl Blocked" by (simp add: clean_node_silenced)
  then have "waits_for_node arg (silenced fe) ifap (Threads (Main_Tearing (Clean_Node f # ?cs)) (Dar_Reading 0) u)"
    unfolding waits_for_node_Tearing .
  moreover have "?R\<^sup>*\<^sup>* (Threads Main_Configured Dar_Absent s0) (Threads (Main_Tearing (Clean_Node f # ?cs)) (Dar_Reading 0) u)"
    using rtranclp_trans [OF r [unfolded calls] main_runs [OF u(1)]] .
  ultimately show thesis by (rule that [rotated])
qed

section \<open>Properties\<close>

text \<open>C15.
  How a session can last: whatever the interleaving, an execution of the two threads in which
  \<open>k\<close> datagrams are handled has at most (k + 1) (2 F + 14) + 6 steps, where F is the number of
  flows.  As long as the session is not over the main thread itself can go on, with one exception:
  in its teardown it waits for the answer of a node that keeps the connection open and stays
  silent, and then it waits for ever: the session is never closed, unless the other thread ends
  the process.  If no node of a flow stays silent there is no such wait.\<close>

theorem session_terminates:
  assumes "execution_of env arg fe ifap (Threads Main_Configured Dar_Absent s0) n k p"
  shows "n \<le> (k + 1) * (2 * length (flows s0) + 14) + 6 \<and>
    (session_over p \<or> main_can_step env arg fe ifap p \<or> waits_for_node arg fe ifap p) \<and>
    (waits_for_node arg fe ifap p \<longrightarrow> \<not> main_can_step env arg fe ifap p \<and> (\<exists>i j. silent fe i j) \<and>
      (\<forall>q. (thread_step env arg fe ifap)\<^sup>*\<^sup>* p q \<longrightarrow> waits_for_node arg fe ifap q \<or> halted q))"
proof (intro conjI impI)
  show "n \<le> (k + 1) * (2 * length (flows s0) + 14) + 6"
    using steps_bounded [OF assms] by (simp add: algebra_simps)
  show "session_over p \<or> main_can_step env arg fe ifap p \<or> waits_for_node arg fe ifap p"
    using main_moves [of _ arg fe ifap _ _ env] by (cases p) (auto simp: session_over_def main_can_step_def)
next
  assume w: "waits_for_node arg fe ifap p"
  then obtain i j cs d s where p: "p = Threads (Main_Tearing (Clean_Node (i, j) # cs)) d s" "silent fe i j"
    "run_call fe ifap arg (Clean_Node (i, j)) s = Inl Blocked"
    by (rule waits_for_node_cases)
  show "\<not> main_can_step env arg fe ifap p"
    unfolding main_can_step_def p(1) using p(3) by (auto elim: thread_step.cases)
  show "\<exists>i j. silent fe i j" using p(2) by blast
  show "\<forall>q. (thread_step env arg fe ifap)\<^sup>*\<^sup>* p q \<longrightarrow> waits_for_node arg fe ifap q \<or> halted q"
    using waiting_for_ever w by blast
qed

theorem session_terminates_witness:
  "(\<exists>n k d u. execution_of demo_env demo_arg quiet_env [] (Threads Main_Configured Dar_Absent configured_sender) n k
      (Threads Main_Closed d u) \<and> n \<le> (k + 1) * (2 * length (flows configured_sender) + 14) + 6) \<and>
   (\<exists>p. (thread_step demo_env demo_arg (silenced quiet_env) [])\<^sup>*\<^sup>* (Threads Main_Configured Dar_Absent configured_sender) p \<and>
      (\<forall>q d u. (thread_step demo_env demo_arg (silenced quiet_env) [])\<^sup>*\<^sup>* p q \<longrightarrow> q \<noteq> Threads Main_Closed d u))"
proof (rule conjI)
  obtain d u where "(thread_step demo_env demo_arg quiet_env [])\<^sup>*\<^sup>* (Threads Main_Configured Dar_Absent configured_sender)
      (Threads Main_Closed d u)"
    using closed_by_main [OF configured_sender configured_monitored demo_threads(1-4)] by blast
  from reaches_execution_of [OF this] obtain n k where
    e: "execution_of demo_env demo_arg quiet_env [] (Threads Main_Configured Dar_Absent configured_sender) n k (Threads Main_Closed d u)"
    by blast
  with session_terminates [OF e] show "\<exists>n k d u. execution_of demo_env demo_arg quiet_env []
      (Threads Main_Configured Dar_Absent configured_sender) n k (Threads Main_Closed d u) \<and>
      n \<le> (k + 1) * (2 * length (flows configured_sender) + 14) + 6" by blast
next
  have "flows configured_sender = [(0, 0), (1, 0)]"
    by (simp add: configured_sender_def flows_def sample_sender_def upt_rec)
  from silent_node_hangs [OF configured_sender this demo_threads(1-4)] obtain cs d s where
    p: "(thread_step demo_env demo_arg (silenced quiet_env) [])\<^sup>*\<^sup>* (Threads Main_Configured Dar_Absent configured_sender)
        (Threads (Main_Tearing cs) d s)"
      "waits_for_node demo_arg (silenced quiet_env) [] (Threads (Main_Tearing cs) d s)" by metis
  from reaches_execution_of [OF p(1)] obtain n k where
    "execution_of demo_env demo_arg (silenced quiet_env) [] (Threads Main_Configured Dar_Absent configured_sender) n k
      (Threads (Main_Tearing cs) d s)" by blast
  from session_terminates [OF this] p(2) have "waits_for_node demo_arg (silenced quiet_env) [] q \<or> halted q"
    if "(thread_step demo_env demo_arg (silenced quiet_env) [])\<^sup>*\<^sup>* (Threads (Main_Tearing cs) d s) q" for q
    using that by blast
  then have "\<forall>q d' u. (thread_step demo_env demo_arg (silenced quiet_env) [])\<^sup>*\<^sup>* (Threads (Main_Tearing cs) d s) q \<longrightarrow>
      q \<noteq> Threads Main_Closed d' u"
    using waiting_not_closed by blast
  with p(1) show "\<exists>p. (thread_step demo_env demo_arg (silenced quiet_env) [])\<^sup>*\<^sup>* (Threads Main_Configured Dar_Absent configured_sender) p \<and>
      (\<forall>q d u. (thread_step demo_env demo_arg (silenced quiet_env) [])\<^sup>*\<^sup>* p q \<longrightarrow> q \<noteq> Threads Main_Closed d u)" by blast
qed

end
