(* ===== verification/Second_Teardown.thy ===== *)
theory Second_Teardown
  imports Session_Runs
begin

text \<open>
  Beyond the first undefined behaviour of a session: the alert thread that starts a second
  teardown reads the freed clock of the connection.  The step relation stops there, the program
  need not: \<^verbatim>\<open>teardown_sender\<close> starts clocks of its own, so the allocator may have given the freed
  cell out again, and then the pointer refers to a running clock.
\<close>

section \<open>The calls of a teardown in a row\<close>

lemma remaining_runs:
  assumes "configured arg fe ifap s0" "same_session s0 s" "log_open s" "dar_pthread_running (monitor s)"
    and "suffix cs (remaining_calls (flows s0))"
  shows "\<exists>u. run_steps (run_call fe ifap arg) cs s = Inr u \<and> commands u = commands s @ removal s0 ifap cs"
  using assms(2-)
proof (induction cs arbitrary: s)
  case (Cons c cs)
  obtain v where v: "run_call fe ifap arg c s = Inr v" "commands v = commands s @ call_commands s0 ifap c" "log_open v = (cs \<noteq> [])"
    using freed_call [OF assms(1) Cons.prems] by blast
  have k: "kept s v" by (rule run_call_kept [OF v(1)])
  show ?case
  proof (cases "cs = []")
    case True
    with v show ?thesis by simp
  next
    case False
    have "same_session s0 v" by (rule kept_same_session [OF k Cons.prems(1)])
    moreover have "log_open v" using v(3) False by simp
    moreover have "dar_pthread_running (monitor v)" using k Cons.prems(3) by (simp add: kept_def)
    moreover have "suffix cs (remaining_calls (flows s0))" by (rule suffix_ConsD [OF Cons.prems(4)])
    ultimately have "\<exists>u. run_steps (run_call fe ifap arg) cs v = Inr u \<and> commands u = commands v @ removal s0 ifap cs"
      by (rule Cons.IH)
    with v(1,2) show ?thesis by auto
  qed
qed simp

text \<open>A whole teardown of a sender whose clock runs, wherever its rules are.\<close>

lemma teardown_runs:
  assumes "configured arg fe ifap s0" "same_session s0 s" "log_open s" "dar_pthread_running (monitor s)"
    and "connection_timer s = Clock_Running"
  shows "\<exists>u. run_steps (run_call fe ifap arg) (teardown_calls (flows s0)) s = Inr u \<and>
    commands u = commands s @ removal s0 ifap (remaining_calls (flows s0))"
proof -
  let ?s = "s\<lparr>connection_open := False, connection_timer := Clock_Freed\<rparr>"
  have "same_session s0 ?s" using assms(2) by (simp add: same_session_def same_flows_def)
  from remaining_runs [OF assms(1) this _ _ suffix_order.refl] assms(3-5) show ?thesis
    by (simp add: teardown_calls_def)
qed

section \<open>Properties\<close>

text \<open>C24.
  Why nothing is claimed of a session after its first undefined behaviour: after any number
  \<open>k\<close> of the removals of the main thread, enough alerts make the other thread start a second
  teardown.  If the cell of the freed clock has been given out again, that teardown runs to its
  end, so the first \<open>k\<close> flows have their rules removed twice: for any iptables with the documented
  behaviour, the table after the session has lost rules that were there before it and equal those.\<close>

theorem reused_clock_removes_twice:
  assumes "configured arg fe ifap s0" "monitored (monitor s0) al ps" "dar_thread_result env = 0"
    and "0 \<le> dar_sockfd env" "0 \<le> dar_bind_result env" "0 \<le> connect_result env" "signal_ok env"
    and "reaction_spec arg = SHUTDOWN_COMMUNICATION" "iptables_semantics exec denote chain"
    and "list_all (\<lambda>(src, dst, hop). plain src \<and> plain dst \<and> plain hop) keys" "keys = map (flow_key s0) (flows s0)"
  shows "\<exists>n s u ds vs. (thread_step env arg fe ifap)\<^sup>*\<^sup>* (Threads Main_Configured Dar_Absent s0)
        (Threads (Main_Tearing (map Clean_Own (drop k (flows s0)) @ [Log_Entry, Clean_Interfaces, Log_Entry, Close_Log]))
          (Dar_Handling n True (teardown_calls (flows s0))) s) \<and> connection_timer s = Clock_Freed \<and>
    run_steps (run_call fe ifap arg) (teardown_calls (flows s0)) (s\<lparr>connection_timer := Clock_Running\<rparr>) = Inr u \<and>
    commands u = commands s0 @ ds @ vs \<and> clean_virtual_interfaces ifap = Inr vs \<and>
    (\<forall>t c. mset (chain (fold exec (map append_cmd (sender_nat.all_rules keys) @ ds) t) c) =
      mset (chain t c) - mset (denoted denote c (sender_nat.all_rules (take k keys))))"
proof -
  let ?R = "thread_step env arg fe ifap" and ?S = "Threads Main_Configured Dar_Absent s0"
    and ?xs = "[Log_Entry, Stop_Monitoring] @ map Clean_Node (flows s0) @ Log_Entry # map Clean_Own (take k (flows s0))"
    and ?ys = "map Clean_Own (drop k (flows s0)) @ [Log_Entry, Clean_Interfaces, Log_Entry, Close_Log]"
  obtain n s where r: "?R\<^sup>*\<^sup>* ?S (Threads Main_Connected (Dar_Raising n) s)"
    and s: "handler_registered s = (handler_registered s0 \<or> signal_ok env)" "connection_timer s = Clock_Running"
    using connected_raising [OF assms(1-6)] by metis
  have calls: "remaining_calls (flows s0) = ?xs @ ?ys"
    by (simp add: remaining_calls_def append_take_drop_id [of k, symmetric] flip: map_append)
  obtain u where u: "?R\<^sup>*\<^sup>* ?S (Threads (Main_Tearing ?ys) (Dar_Raising n) u)" "connection_timer u = Clock_Freed"
    "commands u = commands s0 @ removal s0 ifap ?xs" "handler_registered u = handler_registered s" "flows u = flows s0"
    using main_gets [OF assms(1-3) r calls s(2)] by metis
  have ok: "threads_ok env arg fe ifap s0 (Main_Tearing ?ys) (Dar_Raising n) u"
    using reached_ok [OF u(1) assms(1-3)] by simp
  have "Free_Clock \<notin> set ?ys" by auto
  then have "\<not> unfreed s0 ?ys" by (simp add: unfreed_def)
  with ok u(2) have st: "same_session s0 u" "log_open u" "dar_pthread_running (monitor u)"
    by (auto simp: threads_ok_def teardown_ok_def unconnected_def main_waits_def main_has_def split: if_splits)
  let ?u = "u\<lparr>connection_timer := Clock_Running\<rparr>"
  have "same_session s0 ?u" using st(1) by (simp add: same_session_def same_flows_def)
  from teardown_runs [OF assms(1) this] st obtain v where
    v: "run_steps (run_call fe ifap arg) (teardown_calls (flows s0)) ?u = Inr v"
      "commands v = commands u @ removal s0 ifap (remaining_calls (flows s0))" by auto
  obtain vs where vs: "clean_virtual_interfaces ifap = Inr vs"
    using assms(1) clean_loop [of ifap] by (auto simp: configured_def)
  let ?k = "sender_nat.all_rules (take k keys)" and ?all = "sender_nat.all_rules keys"
  have "removal s0 ifap ?xs = map delete_cmd ?k"
    by (simp add: removal_def call_commands_def sender_nat.all_rules_def assms(11) take_map map_concat comp_def)
  with u(3) v(2) vs have cs: "commands v = commands s0 @ (map delete_cmd (?k @ ?all)) @ vs"
    unfolding removal_remaining by (simp add: assms(11))
  have "?R (Threads (Main_Tearing ?ys) (Dar_Raising n) u) (Threads (Main_Tearing ?ys) (on_signal arg n u) u)"
    by (rule signal_handled) (use u(4) s(1) assms(7) in simp)
  with u(1) have r2: "?R\<^sup>*\<^sup>* ?S (Threads (Main_Tearing ?ys) (Dar_Handling n True (teardown_calls (flows s0))) u)"
    using assms(8) u(5) by (simp add: on_signal_def)
  have pr: "proper_rules ?all" by (rule sender_nat.all_rules_proper [OF assms(10)])
  moreover have "list_all (\<lambda>(src, dst, hop). plain src \<and> plain dst \<and> plain hop) (take k keys)"
    using assms(10) by (auto simp: list_all_iff dest: in_set_takeD)
  ultimately have prs: "proper_rules (?k @ ?all)" using sender_nat.all_rules_proper by simp
  have "mset (chain (fold exec (map append_cmd ?all @ map delete_cmd (?k @ ?all)) t) c) =
      mset (chain t c) - mset (denoted denote c ?k)" for t c
    unfolding fold_append comp_apply exec_deletes [OF assms(9) prs] exec_appends [OF assms(9) pr]
    by (simp add: denoted_append)
  then show ?thesis using r2 u(2) v(1) cs vs by blast
qed

theorem reused_clock_removes_twice_witness:
  "\<exists>m n s u cs. (thread_step demo_env demo_arg quiet_env [])\<^sup>*\<^sup>* (Threads Main_Configured Dar_Absent configured_sender)
        (Threads m (Dar_Handling n True (teardown_calls (flows configured_sender))) s) \<and>
    run_steps (run_call quiet_env [] demo_arg) (teardown_calls (flows configured_sender))
      (s\<lparr>connection_timer := Clock_Running\<rparr>) = Inr u \<and> commands u = commands configured_sender @ cs \<and>
    mset (id (fold text_exec (map append_cmd (sender_nat.all_rules (map (flow_key configured_sender) (flows configured_sender))) @ cs)
      (\<lambda>c. [snd (sender_rules (flow_key configured_sender (0, 0)) ! 1)])) ''OUTPUT'') = {#}"
proof -
  let ?r = "snd (sender_rules (flow_key configured_sender (0, 0)) ! 1)"
    and ?k = "map (flow_key configured_sender) (flows configured_sender)"
  have k: "?k = [(''10.0.0.1'', ''10.0.0.5'', ''10.0.0.7''), (''10.0.0.2'', ''10.0.0.5'', ''10.0.0.8'')]"
    by (simp add: configured_sender_def flow_key_def sample_sender_def hop_index_def flows_def upt_rec)
  have r: "flow_key configured_sender (0, 0) = (''10.0.0.1'', ''10.0.0.5'', ''10.0.0.7'')"
    by (simp add: configured_sender_def flow_key_def sample_sender_def hop_index_def)
  have p: "list_all (\<lambda>(src, dst, hop). plain src \<and> plain dst \<and> plain hop) ?k"
    unfolding k by (simp add: plain_char_def)
  have d: "denoted Some ''OUTPUT'' (sender_nat.all_rules (take 1 ?k)) = [?r]"
    unfolding k r by (simp add: sender_nat.all_rules_def sender_rules_def denoted_simps)
  have i: "clean_virtual_interfaces [] = Inr []" by simp
  from reused_clock_removes_twice [OF configured_sender configured_monitored demo_threads text_exec_semantics p refl, of 1]
  obtain n s u ds where
    1: "(thread_step demo_env demo_arg quiet_env [])\<^sup>*\<^sup>* (Threads Main_Configured Dar_Absent configured_sender)
        (Threads (Main_Tearing (map Clean_Own (drop 1 (flows configured_sender)) @ [Log_Entry, Clean_Interfaces, Log_Entry, Close_Log]))
          (Dar_Handling n True (teardown_calls (flows configured_sender))) s)"
      "run_steps (run_call quiet_env [] demo_arg) (teardown_calls (flows configured_sender))
        (s\<lparr>connection_timer := Clock_Running\<rparr>) = Inr u" "commands u = commands configured_sender @ ds"
      "\<forall>t c. mset (id (fold text_exec (map append_cmd (sender_nat.all_rules ?k) @ ds) t) c) =
        mset (id t c) - mset (denoted Some c (sender_nat.all_rules (take 1 ?k)))"
    by auto
  have "mset (id (fold text_exec (map append_cmd (sender_nat.all_rules ?k) @ ds) (\<lambda>c. [?r])) ''OUTPUT'') = {#}"
    using 1(4) d by simp
  with 1(1-3) show ?thesis by blast
qed

end
