(* ===== verification/Log_Utils.thy ===== *)
theory Log_Utils
  imports C_Strings "HOL-Library.Signed_Division"
begin

text \<open>
  \<^verbatim>\<open>MACHETE/SCMultipath/utils/log_utils.c\<close>: the log file and the clocks whose durations it
  records.
\<close>

section \<open>Times\<close>

text \<open>\<^verbatim>\<open>struct timeval\<close>, ordered by seconds and then microseconds.\<close>

datatype timeval = Timeval (tv_sec: int) (tv_usec: int)

instantiation timeval :: linorder
begin

definition less_eq_timeval :: "timeval \<Rightarrow> timeval \<Rightarrow> bool" where
  "less_eq_timeval a b \<longleftrightarrow> tv_sec a < tv_sec b \<or> tv_sec a = tv_sec b \<and> tv_usec a \<le> tv_usec b"

definition less_timeval :: "timeval \<Rightarrow> timeval \<Rightarrow> bool" where
  "less_timeval a b \<longleftrightarrow> tv_sec a < tv_sec b \<or> tv_sec a = tv_sec b \<and> tv_usec a < tv_usec b"

instance
  by standard (auto simp: less_eq_timeval_def less_timeval_def timeval.expand)

end

definition timeval_ok :: "timeval \<Rightarrow> bool" where
  "timeval_ok t \<longleftrightarrow> 0 \<le> tv_sec t \<and> 0 \<le> tv_usec t \<and> tv_usec t < 1000000"

section \<open>The log\<close>

text \<open>
  The lines of the file, and whether it is open.  \<^verbatim>\<open>fopen\<close> appends to what the file held; when
  it fails the pointer is null.
\<close>

datatype log_file = Log_Null | Log_Open "string list" | Log_Closed "string list"

definition fprintf :: "log_file \<Rightarrow> string \<Rightarrow> log_file res" where
  "fprintf f line = (case f of
      Log_Null \<Rightarrow> Inl NullDeref
    | Log_Open ls \<Rightarrow> Inr (Log_Open (ls @ [line]))
    | Log_Closed ls \<Rightarrow> Inl UseAfterFree)"

definition log_message :: "string \<Rightarrow> log_file \<Rightarrow> log_file res" where
  "log_message log_text f = fprintf f (''-> '' @ log_text @ '' \<newline>'')"

definition log_message_with_int_value :: "string \<Rightarrow> int \<Rightarrow> log_file \<Rightarrow> log_file res" where
  "log_message_with_int_value log_text value0 f = fprintf f (''-> '' @ log_text @ '' '' @ dec_int value0 @ ''\<newline>'')"

definition log_message_with_str_value :: "string \<Rightarrow> string \<Rightarrow> log_file \<Rightarrow> log_file res" where
  "log_message_with_str_value log_text value0 f = fprintf f (''-> '' @ log_text @ '' '' @ value0 @ ''\<newline>'')"

definition open_log_file :: "string list option \<Rightarrow> log_file res" where
  "open_log_file file =
     log_message ''<---------- Begin logging PREMIUM -----------''
       (case file of None \<Rightarrow> Log_Null | Some ls \<Rightarrow> Log_Open ls)"

definition close_log_file :: "log_file \<Rightarrow> log_file res" where
  "close_log_file f =
     rbind (log_message ''<---------- Ending logging PREMIUM -----------'' f) (\<lambda>f'.
       case f' of Log_Open ls \<Rightarrow> Inr (Log_Closed ls) | _ \<Rightarrow> Inl BadPointer)"

section \<open>Clocks\<close>

text \<open>
  A clock is a heap cell with the time at which it was started; \<open>None\<close> once it is freed.
\<close>

definition begin_clock :: "timeval \<Rightarrow> timeval option" where
  "begin_clock now = Some now"

definition result_ms :: "timeval \<Rightarrow> timeval \<Rightarrow> int" where
  "result_ms begin0 end0 =
     (tv_sec end0 * 1000 + tv_usec end0 sdiv 1000) - (tv_sec begin0 * 1000 + tv_usec begin0 sdiv 1000)"

definition end_clock :: "timeval \<Rightarrow> timeval option \<Rightarrow> string \<Rightarrow> log_file \<Rightarrow> (timeval option \<times> log_file) res" where
  "end_clock now clock log_text f =
     rbind (case clock of None \<Rightarrow> Inl UseAfterFree | Some t \<Rightarrow> Inr t) (\<lambda>begin0.
     rbind (fprintf f (''-> '' @ log_text @ '' = '' @ dec_int (result_ms begin0 now) @ '' ms\<newline>'')) (\<lambda>f'.
       Inr (None, f')))"

section \<open>Properties\<close>

definition micros :: "timeval \<Rightarrow> int" where
  "micros t = tv_sec t * 1000000 + tv_usec t"

lemma micros_mono: "timeval_ok a \<Longrightarrow> timeval_ok b \<Longrightarrow> a \<le> b \<longleftrightarrow> micros a \<le> micros b"
  by (cases "tv_sec a" "tv_sec b" rule: linorder_cases) (auto simp: timeval_ok_def less_eq_timeval_def micros_def)

lemma result_ms_micros:
  assumes "timeval_ok a" "timeval_ok b"
  shows "result_ms a b = micros b div 1000 - micros a div 1000"
proof -
  have "tv_sec t * 1000 + tv_usec t sdiv 1000 = micros t div 1000" if "timeval_ok t" for t
  proof -
    have "micros t = tv_usec t + 1000 * (tv_sec t * 1000)" by (simp add: micros_def)
    then have "micros t div 1000 = tv_sec t * 1000 + tv_usec t div 1000" by simp
    with that show ?thesis
      by (cases "tv_usec t = 0") (simp_all add: timeval_ok_def signed_divide_int_def)
  qed
  with assms show ?thesis by (simp add: result_ms_def)
qed

text \<open>Ending a running clock on an open log writes one line with the elapsed milliseconds, which
  are less than one millisecond away from the exact duration and not negative if the clock of
  the system did not run backwards; the clock is gone afterwards, and ending it again is a use
  after free.\<close>

theorem end_clock_exact:
  assumes "timeval_ok begin0" "timeval_ok now" "begin0 \<le> now"
  shows "\<exists>ms. end_clock now (begin_clock begin0) txt0 (Log_Open ls) =
      Inr (None, Log_Open (ls @ [''-> '' @ txt0 @ '' = '' @ dec_int ms @ '' ms\<newline>''])) \<and>
    0 \<le> ms \<and> \<bar>1000 * ms - (micros now - micros begin0)\<bar> < 1000 \<and>
    end_clock later None txt1 f = Inl UseAfterFree"
proof -
  have le: "micros begin0 \<le> micros now" using micros_mono assms by blast
  then have "0 \<le> result_ms begin0 now"
    by (simp add: result_ms_micros [OF assms(1,2)] zdiv_mono1)
  moreover have "\<bar>1000 * result_ms begin0 now - (micros now - micros begin0)\<bar> < 1000"
    unfolding result_ms_micros [OF assms(1,2)] by presburger
  ultimately show ?thesis
    by (intro exI [of _ "result_ms begin0 now"]) (simp add: end_clock_def begin_clock_def fprintf_def)
qed

theorem end_clock_exact_witness:
  "\<exists>ms. end_clock (Timeval 4 250) (begin_clock (Timeval 3 999999)) ''Setup time'' (Log_Open []) =
      Inr (None, Log_Open ([] @ [''-> '' @ ''Setup time'' @ '' = '' @ dec_int ms @ '' ms\<newline>''])) \<and>
    0 \<le> ms \<and> \<bar>1000 * ms - (micros (Timeval 4 250) - micros (Timeval 3 999999))\<bar> < 1000 \<and>
    end_clock (Timeval 5 0) None ''Setup time'' Log_Null = Inl UseAfterFree"
  by (rule end_clock_exact) (simp_all add: timeval_ok_def less_eq_timeval_def)

text \<open>Every operation only appends to the log, and works exactly while it is open.\<close>

lemma log_message_open: "log_message m f = Inr f' \<longleftrightarrow> (\<exists>ls. f = Log_Open ls \<and> f' = Log_Open (ls @ [''-> '' @ m @ '' \<newline>'']))"
  by (auto simp: log_message_def fprintf_def split: log_file.splits)

lemma close_log_file_open:
  "close_log_file (Log_Open ls) = Inr (Log_Closed (ls @ [''-> <---------- Ending logging PREMIUM ----------- \<newline>'']))"
  by (simp add: close_log_file_def log_message_def fprintf_def)

lemma close_log_file_once: "close_log_file (Log_Closed ls) = Inl UseAfterFree"
  by (simp add: close_log_file_def log_message_def fprintf_def)

end
