(* ===== verification/Sender_Shape.thy ===== *)
theory Sender_Shape
  imports Session_Properties
begin

text \<open>
  What holds of the sender's arrays and counters whatever the manager, the nodes and the
  network answer: the extents of the arrays, and that the counters stay within them.
\<close>

section \<open>A session leaves room for the next one\<close>

definition threads_room :: "sender \<Rightarrow> nat" where
  "threads_room s = length (sender_darshanas (monitor s))"

lemma setup_flow_room:
  assumes "setup_flow op rp st env f s = Some (Inr s')"
  shows "threads_room s' = threads_room s"
  using assms
  by (auto simp: setup_flow_def cbind_eq_Inr run_sender_darshana_def monitor_path_def rbind_eq_Inr array_set_eq_Inr
      threads_room_def split: prod.splits)

text \<open>The loop that creates sources only counts them and runs commands.\<close>

definition only_counts :: "sender \<Rightarrow> sender \<Rightarrow> bool" where
  "only_counts s s' \<longleftrightarrow> (\<exists>n cs. s' = s\<lparr>numSrcs := n, commands := cs\<rparr>)"

lemma only_counts_step:
  assumes "only_counts (s\<lparr>numSrcs := n, commands := cs\<rparr>) s'"
  shows "only_counts s s'"
  using assms by (auto simp: only_counts_def)

lemma extend_sources_only_counts:
  assumes "extend_sources env t s = Some r"
  shows "\<forall>t' s'. r = Inr (t', s') \<longrightarrow> only_counts s s'"
  using assms
proof (induction rule: extend_sources.raw_induct [rotated, consumes 1, case_names step])
  case (step f env t s r)
  show ?case
  proof (cases "numSrcs s * numDsts s < numHops s")
    case True
    with step(2) have "cbind (add_source env t s) (\<lambda>cs.
        f env (Suc t) (s\<lparr>numSrcs := numSrcs s + 1, commands := commands s @ cs\<rparr>)) = Some r" by simp
    then consider e where "r = Inl e"
      | cs where "f env (Suc t) (s\<lparr>numSrcs := numSrcs s + 1, commands := commands s @ cs\<rparr>) = Some r"
      by (auto simp: cbind_def split: option.splits sum.splits)
    then show ?thesis
    proof cases
      case 2
      from step(1) [OF this] show ?thesis by (auto intro: only_counts_step)
    qed simp
  next
    case False
    with step(2) show ?thesis by (auto simp: only_counts_def intro!: exI [of _ "numSrcs s"] exI [of _ "commands s"])
  qed
qed

lemma teardown_sender_monitor:
  assumes "teardown_sender env ifap arg s = Inr s'"
  shows "threads_room s' = threads_room s \<and> dar_state (monitor s') = dar_state (monitor s)"
proof -
  define P where "P = (\<lambda>u :: sender. threads_room u = threads_room s \<and> dar_state (monitor u) = dar_state (monitor s))"
  obtain s1 m s2 cs where s: "close_socket_communication_with_receiver s = Inr s1"
    "stop_path_monitoring_module (monitor s1) = Inr m"
    "clean_rules (overlay_port arg) (receiver_port arg) (use_stun_server arg) env (s1\<lparr>monitor := m\<rparr>) = Inr s2"
    "s' = s2\<lparr>commands := commands s2 @ cs, log_open := False\<rparr>"
    using assms by (auto simp: teardown_sender_def rbind_eq_Inr)
  have p1: "P (s1\<lparr>monitor := m\<rparr>)"
    using s(1,2) by (auto simp: P_def close_socket_communication_with_receiver_def stop_path_monitoring_module_def'
        pthread_kill_0_def threads_room_def rbind_eq_Inr split: if_splits)
  obtain u where u: "run_steps (clean_node (overlay_port arg) (receiver_port arg) env) (flows (s1\<lparr>monitor := m\<rparr>)) (s1\<lparr>monitor := m\<rparr>) = Inr u"
    "run_steps clean_own (flows u) u = Inr s2"
    using s(3) by (auto simp: clean_rules_def rbind_eq_Inr)
  have "P u"
    using u(1) p1 by (rule run_steps_invariant)
      (auto simp: P_def clean_node_def kill_sender_darshana_pthreads_def threads_room_def rbind_eq_Inr split: prod.splits)
  with u(2) have "P s2"
    by (rule run_steps_invariant) (auto simp: P_def clean_own_def threads_room_def rbind_eq_Inr split: prod.splits)
  then show ?thesis using s(4) by (simp add: P_def threads_room_def)
qed

section \<open>The shape of the sender\<close>

definition shape :: "sender \<Rightarrow> bool" where
  "shape s \<longleftrightarrow> length (hops s) = MAX_FLOWS \<and> length (srcs s) = MAX_FLOWS \<and> length (dsts s) = MAX_FLOWS \<and>
     0 \<le> numHops s \<and> numHops s \<le> int MAX_FLOWS \<and> 0 \<le> numSrcs s \<and> numSrcs s \<le> int MAX_FLOWS \<and>
     numDsts s \<le> int MAX_FLOWS \<and> threads_room s = MAX_FLOWS"

lemma nodes_loop_shape:
  assumes "nodes_loop buffer s i hs = Inr (n, hs')" "i \<le> length hs"
  shows "n \<le> length hs' \<and> length hs' = length hs"
  using assms
proof (induction buffer s i hs rule: nodes_loop.induct)
  case (1 buffer s i hs)
  obtain buf s' where r: "recv_into buffer DEP_LENGTH s = (buf, s')" by (cases "recv_into buffer DEP_LENGTH s")
  show ?case
  proof (cases "s = []")
    case True
    with 1(3,4) show ?thesis by (simp add: nodes_loop.simps)
  next
    case False
    note step = 1(3) [unfolded nodes_loop.simps [of buffer s]]
    obtain msg where t: "c_string buf = Inr msg" using step False by (auto simp: r rbind_eq_Inr)
    show ?thesis
    proof (cases "strstr msg ''ERROR'' \<or> \<not> strstr msg ''OK'' \<and> msg = ''\<newline>''")
      case True
      with step False 1(4) show ?thesis by (auto simp: r t split: if_splits)
    next
      case other: False
      show ?thesis
      proof (cases "strstr msg ''OK''")
        case True
        with other step False have "nodes_loop buf s' i hs = Inr (n, hs')" by (simp add: r t)
        with 1(1) [OF False r [symmetric] refl, of msg] other True 1(4) show ?thesis by simp
      next
        case no: False
        with other step False obtain hs1 where h: "take_hop msg i hs = Inr hs1"
          "nodes_loop (replicate DEP_LENGTH NUL) s' (Suc i) hs1 = Inr (n, hs')" by (auto simp: r t rbind_eq_Inr)
        have "i < length hs \<and> length hs1 = length hs"
          using h(1) by (auto simp: take_hop_def Let_def rbind_eq_Inr array_set_eq_Inr split: prod.splits)
        with 1(2) [OF False r [symmetric] refl, of msg hs1] other no h show ?thesis by simp
      qed
    qed
  qed
qed

lemma probe_loop_shape:
  assumes "probe_loop al t num i ns = Some r"
  shows "int i \<le> num \<longrightarrow> (\<forall>m ns'. r = Inr (m, ns') \<longrightarrow> m = num \<and> length ns' = length ns)"
  using assms
proof (induction rule: probe_loop.raw_induct [rotated, consumes 1, case_names step])
  case (step f al t num i ns r)
  show ?case
  proof (cases "int i < num")
    case False
    with step(2) show ?thesis by auto
  next
    case True
    note s = step(2) [unfolded if_P [OF True]]
    show ?thesis
    proof (cases "array_get ns i")
      case (Inl e)
      with s show ?thesis by auto
    next
      case (Inr node)
      show ?thesis
      proof (cases "al t node")
        case al: True
        with s Inr have "f al (Suc t) num (Suc i) ns = Some r" by simp
        with step(1) [OF this] True show ?thesis by auto
      next
        case silent: False
        show ?thesis
        proof (cases "array_get ns (Suc i)")
          case (Inl e)
          with s Inr silent show ?thesis by auto
        next
          case (Inr next')
          with s \<open>array_get ns i = Inr node\<close> silent have "f al (Suc t) num i (ns[i := next']) = Some r" by simp
          with step(1) [OF this] show ?thesis by auto
        qed
      qed
    qed
  qed
qed

lemma take_addresses_shape:
  "take_addresses k st i ds = Inr ds' \<Longrightarrow> length ds' = length ds \<and> (k = 0 \<or> i + k \<le> length ds)"
proof (induction k arbitrary: st i ds)
  case (Suc k)
  then obtain st' ds1 where "take_addresses k st' (Suc i) ds1 = Inr ds'" "i < length ds" "length ds1 = length ds"
    by (auto simp: Let_def rbind_eq_Inr array_set_eq_Inr split: prod.splits)
  with Suc.IH [of st' "Suc i" ds1] show ?case by auto
qed simp

lemma receiver_info_shape:
  assumes "get_receiver_info_from_manager addr st ds = Inr (cmds, n, ds')"
  shows "n \<le> int (length ds') \<and> length ds' = length ds"
proof -
  obtain t where "parse_addresses t n ds = Inr ds'"
    using assms by (auto simp: get_receiver_info_from_manager_def rbind_eq_Inr split: prod.splits)
  then obtain st where "take_addresses (max 1 (nat n)) st 0 ds = Inr ds'"
    by (auto simp: parse_addresses_def Let_def split: prod.splits)
  from take_addresses_shape [OF this] show ?thesis by auto
qed

lemma interfaces_loop_shape:
  "interfaces_loop ifap i p ss = Inr (p', ss', n) \<Longrightarrow> i \<le> length ss \<Longrightarrow> n \<le> length ss' \<and> length ss' = length ss"
proof (induction ifap arbitrary: i p ss)
  case (Cons ifa ifap)
  obtain a where a: "inet_address ifa = Inr a" using Cons.prems(1) by (auto simp: rbind_eq_Inr)
  show ?case
  proof (cases a)
    case None
    with Cons.prems a Cons.IH [of i p ss] show ?thesis by simp
  next
    case (Some addr)
    with Cons.prems(1) a obtain q b where q: "interfaces_loop ifap (Suc i) q (ss[i := b]) = Inr (p', ss', n)" "i < length ss"
      by (auto simp: rbind_eq_Inr array_set_eq_Inr)
    from Cons.IH [OF q(1)] q(2) show ?thesis by simp
  qed
qed simp

lemma read_interfaces_shape:
  assumes "read_interfaces env t s = Inr s'"
  shows "length (srcs s') = length (srcs s)" "0 \<le> numSrcs s'" "numSrcs s' \<le> int (length (srcs s))"
    "hops s' = hops s" "dsts s' = dsts s" "numHops s' = numHops s" "numDsts s' = numDsts s"
    "threads_room s' = threads_room s"
  using assms by (auto simp: read_interfaces_def get_local_interfaces_def threads_room_def rbind_eq_Inr
      split: prod.splits dest!: interfaces_loop_shape)

lemma find_flows_shape:
  assumes "find_flows env arg s = Some (Inr s')" "threads_room s = MAX_FLOWS"
  shows "shape s'"
proof -
  let ?s = "reserve_memory_for_structures (heap_text env) s"
  obtain cmd n hs where 1: "get_overlay_nodes_from_manager (dep_nodes env) (hops ?s) = Inr (cmd, n, hs)"
    using assms(1) by (auto simp: find_flows_def Let_def cbind_eq_Inr)
  obtain n2 hs2 where 2: "probe_overlay_nodes (node_alive env) (int n) hs = Some (Inr (n2, hs2))"
    using assms(1) 1 by (auto simp: find_flows_def Let_def cbind_eq_Inr)
  obtain cmds nd ds where 3: "get_receiver_info_from_manager (receiver_addr arg) (dep_receiver env) (dsts ?s) = Inr (cmds, nd, ds)"
    and 4: "setup_machete_info env (?s\<lparr>hops := hs2, numHops := n2, dsts := ds, numDsts := nd\<rparr>) = Some (Inr s')"
    using assms(1) 1 2 by (auto simp: find_flows_def Let_def cbind_eq_Inr)
  obtain s1 t s2 where 5: "read_interfaces env 0 (?s\<lparr>hops := hs2, numHops := n2, dsts := ds, numDsts := nd\<rparr>) = Inr s1"
    "extend_sources env 1 s1 = Some (Inr (t, s2))" "read_interfaces env t s2 = Inr s'"
    using 4 by (auto simp: setup_machete_info_def cbind_eq_Inr)
  obtain a cs where s2: "s2 = s1\<lparr>numSrcs := a, commands := cs\<rparr>"
    using extend_sources_only_counts [OF 5(2)] by (auto simp: only_counts_def)
  have r: "length (hops ?s) = MAX_FLOWS" "length (srcs ?s) = MAX_FLOWS" "length (dsts ?s) = MAX_FLOWS" "threads_room ?s = MAX_FLOWS"
    using assms(2) by (simp_all add: reserve_memory_for_structures_def threads_room_def)
  obtain c where "nodes_loop (replicate DEP_LENGTH NUL) (dep_nodes env) 0 (hops ?s) = Inr (n, hs)"
    using 1 by (auto simp: get_overlay_nodes_from_manager_def rbind_eq_Inr)
  from nodes_loop_shape [OF this] have h: "n \<le> length hs" "length hs = MAX_FLOWS" using r(1) by simp_all
  have "n2 = int n \<and> length hs2 = length hs"
    using probe_loop_shape [OF 2 [unfolded probe_overlay_nodes_def]] by simp
  moreover have "nd \<le> int (length ds) \<and> length ds = MAX_FLOWS" using receiver_info_shape [OF 3] r(3) by simp
  ultimately show ?thesis
    using read_interfaces_shape [OF 5(1)] read_interfaces_shape [OF 5(3)] h r(2,4)
    by (simp add: shape_def s2 threads_room_def)
qed

lemma setup_flow_shape:
  assumes "setup_flow op rp st env f s = Some (Inr s')" "shape s"
  shows "shape s'"
proof -
  obtain x d p m cs es where "s' = s\<lparr>srcs := (srcs s)[fst f := x], dar_ip := d, dar_port := p, monitor := m,
      commands := cs, exchanges := es\<rparr>"
    using assms(1) by (auto simp: setup_flow_def cbind_eq_Inr split: prod.splits)
  with setup_flow_room [OF assms(1)] assms(2) show ?thesis by (simp add: shape_def)
qed

lemma setup_sender_shape:
  assumes "setup_sender env arg s = Some (Inr s')" "threads_room s = MAX_FLOWS"
  shows "shape s'"
proof -
  obtain s1 s2 s3 where s: "find_flows env arg s = Some (Inr s1)"
    "setup_each_flow (overlay_port arg) (receiver_port arg) (use_stun_server arg) (flow_environment env) s1 = Some (Inr s2)"
    "start_monitoring env arg s2 = Inr s3" "init_socket_communication_with_receiver env (register_handler env s3) = Inr s'"
    using assms(1) by (auto simp: setup_sender_def cbind_eq_Inr)
  have "shape s2"
    using s(2) find_flows_shape [OF s(1) assms(2)] unfolding setup_each_flow_def
    by (rule crun_steps_invariant) (auto intro: setup_flow_shape)
  then show ?thesis
    using s(3,4) by (auto simp: start_monitoring_def start_path_monitoring_module_def start_dar_handler_def rbind_eq_Inr
        init_socket_communication_with_receiver_def register_handler_def shape_def threads_room_def Let_def)
qed

section \<open>The set-up has no bounds of its own\<close>

lemma sources_overrun:
  assumes "list_all inet_ok (interface_lists env t)" "length (srcs s) < length (addresses (interface_lists env t))"
  shows "read_interfaces env t s = Inl OutOfBounds"
  using interfaces_loop_overrun [OF assms(1), of 0 "srcs s"] assms(2)
  by (simp add: read_interfaces_def get_local_interfaces_def addresses_def)

lemma nodes_overrun:
  assumes "adapter_lines env ls as" "MAX_FLOWS < length ls" "log_open s"
  shows "find_flows env arg s = Some (Inl OutOfBounds)"
proof -
  obtain r where d: "list_all node_line_ok ls" "dep_nodes env = ''OK\<newline>'' # map node_line ls @ ''\<newline>'' # r"
    using assms(1) by (auto simp: adapter_lines_def)
  have "get_overlay_nodes_from_manager (dep_nodes env) (replicate MAX_FLOWS x) = Inl OutOfBounds" for x
    unfolding d(2) using assms(2) by (intro overlay_nodes_overrun [OF d(1)]) simp
  with assms(3) show ?thesis by (simp add: find_flows_def reserve_memory_for_structures_def)
qed

text \<open>With few enough nodes, the answers about the receiver and the interfaces decide.\<close>

lemma addresses_overrun:
  assumes dep: "adapter_lines env ls as" "length ls \<le> MAX_FLOWS"
    and alive: "node_alive env = (\<lambda>_. alive)" "\<forall>l\<in>set ls. alive (line_ip l)"
    and ifs: "\<forall>t. interface_lists env t = ifap" "list_all inet_ok ifap"
    and arg: "length (receiver_addr arg) + 2 * length as < 490" "min_number_of_nodes arg \<le> int (length ls)" and log: "log_open s"
    and more: "MAX_FLOWS < length as \<or> MAX_FLOWS < length (addresses ifap)"
  shows "find_flows env arg s = Some (Inl OutOfBounds)"
proof -
  let ?h = "replicate MAX_FLOWS (heap_text env)"
  obtain r where d: "ls \<noteq> []" "list_all node_line_ok ls" "dep_nodes env = ''OK\<newline>'' # map node_line ls @ ''\<newline>'' # r"
    using dep(1) by (auto simp: adapter_lines_def)
  have n: "get_overlay_nodes_from_manager (dep_nodes env) ?h =
      Inr (''rdall node,*\<newline>'' @ [NUL], length ls, map line_ip ls @ drop (length ls) ?h)"
    unfolding d(3) by (rule overlay_nodes_learned [OF d(1,2)]) (use dep(2) in simp)
  have p: "probe_overlay_nodes (node_alive env) (int (length ls)) (map line_ip ls @ drop (length ls) ?h) =
      Some (Inr (int (length ls), map line_ip ls @ drop (length ls) ?h))"
    unfolding alive(1) by (rule probe_all_alive) (use alive(2) in \<open>auto simp: nth_append\<close>)
  obtain report where v: "validate_number_of_hops (int (length ls)) (min_number_of_nodes arg) = Inr report"
    using arg(2) by (cases "int (length ls) = min_number_of_nodes arg") (auto simp: validate_number_of_hops_def)
  obtain c1 c2 where i: "get_receiver_info_from_manager (receiver_addr arg) (dep_receiver env) ?h =
      (if length as \<le> length ?h then Inr ([c1, c2], int (length as), as @ drop (length as) ?h) else Inl OutOfBounds)"
    using receiver_bounded [OF dep(1) arg(1), of ?h] by blast
  show ?thesis
  proof (cases "length as \<le> MAX_FLOWS")
    case False
    with n p v i log show ?thesis by (simp add: find_flows_def reserve_memory_for_structures_def)
  next
    case True
    let ?s = "(reserve_memory_for_structures (heap_text env) s)\<lparr>hops := map line_ip ls @ drop (length ls) ?h,
      numHops := int (length ls), dsts := as @ drop (length as) ?h, numDsts := int (length as)\<rparr>"
    have "read_interfaces env 0 ?s = Inl OutOfBounds"
      using True more ifs by (intro sources_overrun) (simp_all add: reserve_memory_for_structures_def)
    with True n p v i log show ?thesis
      by (simp add: find_flows_def reserve_memory_for_structures_def setup_machete_info_def)
  qed
qed

section \<open>Properties\<close>

text \<open>C39.
  The arrays of the sender have 20 entries and nothing in its set-up checks them.  Where the
  nodes that the manager names (all of them answering), the addresses of the receiver and the
  sender's own are at most 20 each, and the flows suffice, the set-up learns exactly these;
  with a twenty-first node, receiver address or own address it writes past the end of an array,
  which is the first undefined behaviour of the program: nothing is claimed of what follows.\<close>

theorem sender_array_limits:
  assumes "adapter_lines env ls as" "node_alive env = (\<lambda>_. alive)" "\<forall>l\<in>set ls. alive (line_ip l)"
    and "\<forall>t. interface_lists env t = ifap" "list_all inet_ok ifap"
    and "length (receiver_addr arg) + 2 * length as < 490" "min_number_of_nodes arg \<le> int (length ls)" "log_open s"
  shows "(length ls \<le> MAX_FLOWS \<and> length as \<le> MAX_FLOWS \<and> length (addresses ifap) \<le> MAX_FLOWS \<and>
      length ls \<le> length (addresses ifap) * length as \<longrightarrow>
      find_flows env arg s = Some (Inr (found_flows env ifap (map line_ip ls) as s))) \<and>
    (MAX_FLOWS < length ls \<or> MAX_FLOWS < length as \<or> MAX_FLOWS < length (addresses ifap) \<longrightarrow>
      setup_sender env arg s = Some (Inl OutOfBounds))"
proof (intro conjI impI)
  assume h: "length ls \<le> MAX_FLOWS \<and> length as \<le> MAX_FLOWS \<and> length (addresses ifap) \<le> MAX_FLOWS \<and>
      length ls \<le> length (addresses ifap) * length as"
  with assms(1) have "adapter_answers env ls as" by (simp add: adapter_answers_def)
  from flows_found [OF this assms(2-5) _ _ assms(6-8)] h
  show "find_flows env arg s = Some (Inr (found_flows env ifap (map line_ip ls) as s))" by blast
next
  assume "MAX_FLOWS < length ls \<or> MAX_FLOWS < length as \<or> MAX_FLOWS < length (addresses ifap)"
  then have "find_flows env arg s = Some (Inl OutOfBounds)"
    using nodes_overrun [OF assms(1) _ assms(8)] addresses_overrun [OF assms(1) _ assms(2-8)] by (meson not_le_imp_less)
  then show "setup_sender env arg s = Some (Inl OutOfBounds)" by (simp add: setup_sender_def)
qed

definition crowded_lines :: "(string \<times> string \<times> string) list" where
  "crowded_lines = replicate 21 (''<node'', ''10.0.0.7'', ''\<newline>'')"

definition crowded_env :: session_env where
  "crowded_env = demo_env\<lparr>dep_nodes := ''OK\<newline>'' # map node_line crowded_lines @ ''\<newline>'' # []\<rparr>"

theorem sender_array_limits_witness:
  "find_flows demo_env demo_arg demo_sender =
     Some (Inr (found_flows demo_env sample_interfaces [''10.0.0.7'', ''10.0.0.8''] [''10.0.0.5''] demo_sender)) \<and>
   setup_sender crowded_env demo_arg demo_sender = Some (Inl OutOfBounds)"
proof -
  note r = demo_ready [unfolded session_ready_def]
  have d: "adapter_lines demo_env sample_lines [''10.0.0.5'']" "length sample_lines = 2"
    "map line_ip sample_lines = [''10.0.0.7'', ''10.0.0.8'']"
    using adapter_answersD [OF demo_answers] by (simp_all add: sample_lines_def line_ip_def)
  have "list_all node_line_ok crowded_lines"
    by (simp add: crowded_lines_def node_line_ok_def node_line_def token_def list_all_iff)
  then have c: "adapter_lines crowded_env crowded_lines [''10.0.0.5'']"
    using d(1) by (simp add: adapter_lines_def crowded_env_def crowded_lines_def)
  have log: "log_open demo_sender" by (rule demo_monitored)
  have "find_flows demo_env demo_arg demo_sender =
     Some (Inr (found_flows demo_env sample_interfaces (map line_ip sample_lines) [''10.0.0.5''] demo_sender))"
    using sender_array_limits [OF d(1), where alive = "\<lambda>a. True" and ifap = sample_interfaces and arg = demo_arg and s = demo_sender]
      r log d(2) by (simp add: demo_arg_def)
  moreover have "setup_sender crowded_env demo_arg demo_sender = Some (Inl OutOfBounds)"
    using sender_array_limits [OF c, where alive = "\<lambda>a. True" and ifap = sample_interfaces and arg = demo_arg and s = demo_sender]
      r log by (simp add: crowded_env_def crowded_lines_def demo_arg_def)
  ultimately show ?thesis by (simp add: d(3))
qed

end
