(* ===== verification/Wire_Integers.thy ===== *)
theory Wire_Integers
  imports Sockets "HOL-Library.Word"
begin

text \<open>
  Integers as the programs send them: the bytes of an \<^verbatim>\<open>int\<close> or a \<^verbatim>\<open>long\<close> in memory order, of
  a little-endian machine with 32 and 64 bits.
\<close>

fun le_bytes :: "nat \<Rightarrow> int \<Rightarrow> char list" where
  "le_bytes 0 v = []"
| "le_bytes (Suc n) v = char_of (nat (v mod 256)) # le_bytes n (v div 256)"

fun le_value :: "char list \<Rightarrow> int" where
  "le_value [] = 0"
| "le_value (c # cs) = int (of_char c) + 256 * le_value cs"

abbreviation int_bytes :: "int \<Rightarrow> char list" where
  "int_bytes \<equiv> le_bytes 4"

abbreviation long_bytes :: "int \<Rightarrow> char list" where
  "long_bytes \<equiv> le_bytes 8"

text \<open>What the bytes of an object of that type hold, and what an assignment to \<^verbatim>\<open>int\<close> keeps.\<close>

definition int_of_bytes :: "char list \<Rightarrow> int" where
  "int_of_bytes bs = signed_take_bit 31 (le_value bs)"

definition long_of_bytes :: "char list \<Rightarrow> int" where
  "long_of_bytes bs = signed_take_bit 63 (le_value bs)"

definition to_int :: "int \<Rightarrow> int" where
  "to_int v = signed_take_bit 31 v"

lemma length_le_bytes [simp]: "length (le_bytes n v) = n"
  by (induction n arbitrary: v) auto

lemma le_value_le_bytes: "le_value (le_bytes n v) = v mod 256 ^ n"
proof (induction n arbitrary: v)
  case (Suc n)
  have "(of_char (char_of (nat (v mod 256)) :: char) :: nat) = nat (v mod 256)"
    by (simp add: nat_less_iff)
  with Suc have "le_value (le_bytes (Suc n) v) = v mod 256 + 256 * (v div 256 mod 256 ^ n)" by simp
  also have "\<dots> = v mod (256 * 256 ^ n)" by (simp add: zmod_zmult2_eq)
  finally show ?case by simp
qed simp

lemma signed_of_le:
  assumes "8 * n = Suc k" "- (2 ^ k) \<le> v" "v < 2 ^ k"
  shows "signed_take_bit k (le_value (le_bytes n v)) = v"
proof -
  have "(256 :: int) ^ n = 2 ^ (8 * n)" by (simp add: power_mult)
  then have "le_value (le_bytes n v) = take_bit (Suc k) v"
    unfolding le_value_le_bytes assms(1) [symmetric] by (simp add: take_bit_eq_mod)
  then have "signed_take_bit k (le_value (le_bytes n v)) = signed_take_bit k v"
    by (simp add: signed_take_bit_eq_iff_take_bit_eq)
  also have "\<dots> = v" using assms(2,3) by (intro signed_take_bit_int_eq_self) auto
  finally show ?thesis .
qed

lemma int_of_int_bytes: "- (2 ^ 31) \<le> v \<Longrightarrow> v < 2 ^ 31 \<Longrightarrow> int_of_bytes (int_bytes v) = v"
  unfolding int_of_bytes_def by (rule signed_of_le) simp_all

lemma long_of_long_bytes: "- (2 ^ 63) \<le> v \<Longrightarrow> v < 2 ^ 63 \<Longrightarrow> long_of_bytes (long_bytes v) = v"
  unfolding long_of_bytes_def by (rule signed_of_le) simp_all

lemma to_int_id: "- (2 ^ 31) \<le> v \<Longrightarrow> v < 2 ^ 31 \<Longrightarrow> to_int v = v"
  unfolding to_int_def by (rule signed_take_bit_int_eq_self) auto

text \<open>An \<^verbatim>\<open>int\<close> turns the sizes from two to four gigabytes negative.\<close>

lemma to_int_wraps: "2 ^ 31 \<le> v \<Longrightarrow> v < 2 ^ 32 \<Longrightarrow> to_int v = v - 2 ^ 32"
proof -
  assume v: "2 ^ 31 \<le> v" "v < 2 ^ 32"
  have "to_int v = signed_take_bit 31 (v - 2 ^ 32)"
    unfolding to_int_def signed_take_bit_eq_iff_take_bit_eq by (simp add: take_bit_eq_mod)
  also have "\<dots> = v - 2 ^ 32" using v by (intro signed_take_bit_int_eq_self) auto
  finally show ?thesis .
qed

section \<open>Fields of a stream\<close>

text \<open>
  The next fields, of the given sizes, each arrive within one piece: what a program that calls
  \<^verbatim>\<open>recv\<close> once per field relies on.
\<close>

fun unsplit :: "nat list \<Rightarrow> stream \<Rightarrow> bool" where
  "unsplit [] s \<longleftrightarrow> True"
| "unsplit (n # ns) s \<longleftrightarrow> s \<noteq> [] \<and> n \<le> length (hd s) \<and> unsplit ns (snd (recv n s))"

lemma recv_field:
  assumes "unsplit (n # ns) s" "concat s = f @ rest" "length f = n"
  shows "\<exists>s'. recv n s = (f, s') \<and> concat s' = rest \<and> unsplit ns s'"
proof -
  obtain c cs where s: "s = c # cs" using assms(1) by (cases s) auto
  have n: "n \<le> length c" using assms(1) s by simp
  obtain s' where r: "recv n s = (take n c, s')" using n by (cases "length c = n") (auto simp: s)
  have "c @ concat cs = f @ rest" using assms(2) s by simp
  then have f: "take n c = f" using n assms(3) by (metis append_eq_append_conv_if take_all_iff take_append nle_le append_Nil2 diff_is_0_eq take0)
  with recv_concat [OF r] assms(1,2) r show ?thesis by (auto simp: s)
qed

end
