(* ===== verification/File_Transfer.thy ===== *)
theory File_Transfer
  imports Wire_Integers
begin

text \<open>
  \<^verbatim>\<open>MACHETE/SCMultipath/file_client.c\<close> and \<^verbatim>\<open>file_server.c\<close>: a file over the connection that
  the sender set up, as the size of its name, its name, its size and its bytes.
\<close>

section \<open>The client\<close>

text \<open>
  What the calls return: the contents of the file if it can be opened, its size if \<^verbatim>\<open>stat\<close>
  works, and the number of bytes that \<^verbatim>\<open>sendfile\<close> has sent.
\<close>

record file_env =
  file_content :: "char list option"
  stat_size :: "int option"
  sendfile_result :: int

definition fsize :: "file_env \<Rightarrow> int" where
  "fsize env = (case stat_size env of Some n \<Rightarrow> n | None \<Rightarrow> - 1)"

definition send_file_protocol :: "file_env \<Rightarrow> string \<Rightarrow> char list res" where
  "send_file_protocol env filename =
     (case file_content env of
        None \<Rightarrow> Inl (Exit (- 1))
      | Some content \<Rightarrow>
          rbind (guard (0 \<le> sendfile_result env) (Exit (- 1))) (\<lambda>_.
            Inr (int_bytes (to_int (int (length filename))) @ filename @ long_bytes (fsize env) @
              take (nat (sendfile_result env)) content)))"

section \<open>The server\<close>

text \<open>
  The environment: what the array for the name holds, what lies behind it on the stack, how
  many bytes the stack can take, and whether the file can be created.
\<close>

record server_env =
  name_junk :: "char list"
  stack_behind :: "char list"
  stack_room :: int
  can_create :: bool

abbreviation LENGTH_SPEC :: nat where
  "LENGTH_SPEC \<equiv> 512"

text \<open>
  The loop that writes the file: a piece is received before the test of what remains, and is
  dropped if nothing does.
\<close>

function receive_loop :: "stream \<Rightarrow> int \<Rightarrow> char list \<Rightarrow> char list" where
  "receive_loop s remain_data written =
     (case recv LENGTH_SPEC s of (piece, s') \<Rightarrow>
        if piece \<noteq> [] \<and> 0 < remain_data
        then receive_loop s' (remain_data - int (length piece)) (written @ piece)
        else written)"
  by pat_completeness auto
termination
  by (relation "measure (\<lambda>(s, r, w). stream_size s)") (auto intro: recv_size [OF sym])

declare receive_loop.simps [simp del]

text \<open>The name and the contents of the file that the server creates.\<close>

definition machete_receive_data :: "server_env \<Rightarrow> stream \<Rightarrow> (string \<times> char list) res" where
  "machete_receive_data env s =
     (let (b1, s1) = recv_into (int_bytes 0) 4 s; filename_size = int_of_bytes b1 in
      rbind (guard (0 < filename_size) OutOfBounds) (\<lambda>_.
      rbind (guard (filename_size \<le> stack_room env) BufferOverflow) (\<lambda>_.
      let (filename, s2) = recv_into (take (nat filename_size) (name_junk env)) (nat filename_size) s1;
          (b3, s3) = recv_into (long_bytes 0) 8 s2; filesize = long_of_bytes b3 in
      rbind (c_string (filename @ stack_behind env)) (\<lambda>name.
      rbind (guard (can_create env) (Exit (- 1))) (\<lambda>_.
        Inr (name, receive_loop s3 (to_int filesize) []))))))"

section \<open>Lemmas\<close>

lemma receive_loop_done: "remain \<le> 0 \<Longrightarrow> receive_loop s remain w = w"
  by (subst receive_loop.simps) (simp split: prod.splits)

text \<open>The loop writes everything that comes, when that is what it expects.\<close>

lemma receive_loop_all:
  assumes "[] \<notin> set s"
  shows "receive_loop s (int (length (concat s))) w = w @ concat s"
  using assms
proof (induction "stream_size s" arbitrary: s w rule: less_induct)
  case less
  show ?case
  proof (cases s)
    case Nil
    then show ?thesis by (simp add: receive_loop_done)
  next
    case (Cons c cs)
    obtain p s' where r: "recv LENGTH_SPEC s = (p, s')" by (cases "recv LENGTH_SPEC s")
    have p: "p \<noteq> []" "[] \<notin> set s'" using r less.prems Cons by (auto split: if_splits)
    have c: "concat s = p @ concat s'" using recv_concat [OF r] by simp
    have "0 < int (length p)" using p(1) by simp
    then have "0 < int (length p) + int (length (concat s'))" by linarith
    with c have l: "int (length (concat s)) - int (length p) = int (length (concat s'))" "0 < int (length (concat s))"
      by simp_all
    have "receive_loop s (int (length (concat s))) w = receive_loop s' (int (length (concat s'))) (w @ p)"
      using r p(1) l by (subst receive_loop.simps) simp
    also have "\<dots> = (w @ p) @ concat s'" by (rule less.hyps [OF recv_size [OF r p(1)] p(2)])
    finally show ?thesis by (simp add: c)
  qed
qed

lemma store_whole: "length bytes = length buf \<Longrightarrow> store_bytes buf bytes = bytes"
  by (simp add: store_bytes_def)

lemma recv_nonempty: "recv n s = (c, s') \<Longrightarrow> [] \<notin> set s \<Longrightarrow> [] \<notin> set s'"
  by (cases s) (auto split: if_splits)

text \<open>What the server makes of the bytes of the client, for every cut that spares the header.\<close>

lemma server_reads:
  assumes bytes: "concat s = int_bytes (int (length filename)) @ filename @ long_bytes sz @ content"
    and cut: "unsplit [4, length filename, 8] s"
    and name: "filename \<noteq> []" "length filename < 2 ^ 31" "cstr filename" "length filename \<le> length (name_junk env)"
      "int (length filename) \<le> stack_room env" "NUL \<in> set (stack_behind env)"
    and sz: "- (2 ^ 63) \<le> sz" "sz < 2 ^ 63" and ok: "can_create env"
  shows "\<exists>s3. machete_receive_data env s =
      Inr (filename @ takeWhile (\<lambda>c. c \<noteq> NUL) (stack_behind env), receive_loop s3 (to_int sz) []) \<and>
    concat s3 = content \<and> ([] \<notin> set s \<longrightarrow> [] \<notin> set s3)"
proof -
  obtain s1 where s1: "recv 4 s = (int_bytes (int (length filename)), s1)"
    "concat s1 = filename @ long_bytes sz @ content" "unsplit [length filename, 8] s1"
    using recv_field [OF cut bytes] by auto
  obtain s2 where s2: "recv (length filename) s1 = (filename, s2)" "concat s2 = long_bytes sz @ content" "unsplit [8] s2"
    using recv_field [OF s1(3,2)] by auto
  obtain s3 where s3: "recv 8 s2 = (long_bytes sz, s3)" "concat s3 = content"
    using recv_field [OF s2(3,2)] by auto
  have ne: "[] \<notin> set s \<longrightarrow> [] \<notin> set s3"
    using recv_nonempty [OF s1(1)] recv_nonempty [OF s2(1)] recv_nonempty [OF s3(1)] by blast
  have n: "int_of_bytes (int_bytes (int (length filename))) = int (length filename)"
    using name(2) by (intro int_of_int_bytes) simp_all
  have "c_string (filename @ stack_behind env) = Inr (filename @ takeWhile (\<lambda>c. c \<noteq> NUL) (stack_behind env))"
    using name(3,6) by (auto simp: c_string_def cstr_def takeWhile_append)
  moreover have "store_bytes (int_bytes 0) (int_bytes (int (length filename))) = int_bytes (int (length filename))"
    "store_bytes (take (length filename) (name_junk env)) filename = filename"
    "store_bytes (long_bytes 0) (long_bytes sz) = long_bytes sz"
    using name(4) by (intro store_whole; simp)+
  ultimately show ?thesis
    using s1(1) s2(1) s3 ne n name(1,5) ok long_of_long_bytes [OF sz]
    by (intro exI [of _ s3]) (simp add: machete_receive_data_def recv_into_def)
qed

section \<open>Properties\<close>

text \<open>
  A file below two gigabytes arrives as it was sent, for every way in which the network cuts
  the bytes of the client outside of the three header fields; but the name of the new file is
  the sent name followed by whatever characters the stack holds behind the array, because the
  terminator is not sent.\<close>

lemma file_arrives:
  assumes "send_file_protocol \<lparr>file_content = Some content, stat_size = Some (int (length content)),
      sendfile_result = int (length content)\<rparr> filename = Inr bytes"
    and "concat s = bytes" "[] \<notin> set s" "unsplit [4, length filename, 8] s"
    and "filename \<noteq> []" "length filename < 2 ^ 31" "cstr filename" "length filename \<le> length (name_junk env)"
      "int (length filename) \<le> stack_room env" "NUL \<in> set (stack_behind env)"
    and "length content < 2 ^ 31" "can_create env"
  shows "machete_receive_data env s = Inr (filename @ takeWhile (\<lambda>c. c \<noteq> NUL) (stack_behind env), content)"
proof -
  have "to_int (int (length filename)) = int (length filename)" using assms(6) by (intro to_int_id) simp_all
  with assms(1,2) have b: "concat s = int_bytes (int (length filename)) @ filename @ long_bytes (int (length content)) @ content"
    by (simp add: send_file_protocol_def fsize_def)
  have sz: "- (2 ^ 63) \<le> int (length content)" "int (length content) < 2 ^ 63" using assms(11) by simp_all
  obtain s3 where s3: "machete_receive_data env s =
      Inr (filename @ takeWhile (\<lambda>c. c \<noteq> NUL) (stack_behind env), receive_loop s3 (to_int (int (length content))) [])"
    "concat s3 = content" "[] \<notin> set s3"
    using server_reads [OF b assms(4-10) sz assms(12)] assms(3) by blast
  have "to_int (int (length content)) = int (length (concat s3))" using assms(11) s3(2) by (simp add: to_int_id)
  with s3 receive_loop_all [of s3 "[]"] show ?thesis by simp
qed

definition sample_server :: server_env where
  "sample_server = \<lparr>name_junk = replicate 64 (CHR ''x''), stack_behind = ''!'' @ [NUL], stack_room = 1024, can_create = True\<rparr>"

text \<open>A file of two to four gigabytes is lost: its size is negative as an int, and the server
  creates an empty file and reports no error.\<close>

theorem large_file_lost:
  assumes "concat s = int_bytes (int (length filename)) @ filename @ long_bytes n @ content"
    and "2 ^ 31 \<le> n" "n < 2 ^ 32" "unsplit [4, length filename, 8] s"
    and "filename \<noteq> []" "length filename < 2 ^ 31" "cstr filename" "length filename \<le> length (name_junk env)"
      "int (length filename) \<le> stack_room env" "NUL \<in> set (stack_behind env)" "can_create env"
  shows "machete_receive_data env s = Inr (filename @ takeWhile (\<lambda>c. c \<noteq> NUL) (stack_behind env), [])"
proof -
  have "- (2 ^ 63) \<le> n" "n < 2 ^ 63" using assms(2,3) by simp_all
  from server_reads [OF assms(1,4-10) this assms(11)] to_int_wraps [OF assms(2,3)] assms(3)
  show ?thesis by (auto simp: receive_loop_done)
qed

theorem large_file_lost_witness:
  "machete_receive_data sample_server [int_bytes 5 @ ''a.txt'' @ long_bytes 3000000000, ''some'', ''bytes''] =
    Inr (''a.txt'' @ takeWhile (\<lambda>c. c \<noteq> NUL) (stack_behind sample_server), [])"
  by (rule large_file_lost [where content = "''somebytes''" and n = 3000000000]) (simp_all add: sample_server_def cstr_def)

end
