(* ===== verification/Echo.thy ===== *)
theory Echo
  imports Wire_Integers
begin

text \<open>
  \<^verbatim>\<open>MACHETE/SCMultipath/hi_client.c\<close>, \<^verbatim>\<open>hi_client_eval.c\<close> and \<^verbatim>\<open>hi_server.c\<close>: greetings that
  the receiver sends back in capitals, each as its size and its characters.
\<close>

section \<open>The server\<close>

text \<open>
  What an allocated block holds at first, and what lies behind the block of the message.
\<close>

record heap_env =
  block_junk :: "nat \<Rightarrow> char list"
  block_behind :: "char list"

definition toupper :: "char \<Rightarrow> char" where
  "toupper c = (let n = (of_char c :: nat) in if 97 \<le> n \<and> n \<le> 122 then char_of (n - 32) else c)"

text \<open>
  The conversion: \<^verbatim>\<open>strlen\<close> looks for a NUL from the start of the message on, which has none
  of its own, and every character before it is written to the second block of the same size.
\<close>

definition convert :: "heap_env \<Rightarrow> char list \<Rightarrow> char list res" where
  "convert env message =
     rbind (c_string (message @ block_behind env)) (\<lambda>text.
     rbind (guard (length text \<le> length message) BufferOverflow) (\<lambda>_.
       Inr (store_bytes (take (length message) (block_junk env (length message))) (map toupper text))))"

text \<open>
  \<^verbatim>\<open>echo_hello_message\<close>: the size is received over the object of the last round, which is 0
  then.  A negative size makes \<^verbatim>\<open>malloc\<close> fail and the next \<^verbatim>\<open>recv\<close> with it.
\<close>

function echo_hello_message :: "heap_env \<Rightarrow> stream \<Rightarrow> char list \<Rightarrow> char list res" where
  "echo_hello_message env s sent =
     (case recv 8 s of (b, s1) \<Rightarrow>
        if b = [] then Inr sent
        else let message_size = long_of_bytes (store_bytes (long_bytes 0) b) in
          if message_size < 0 then Inr sent
          else case recv (nat message_size) s1 of (c, s2) \<Rightarrow>
            if c = [] then Inr sent
            else rbind (convert env (store_bytes (take (nat message_size) (block_junk env (nat message_size))) c)) (\<lambda>echo.
              echo_hello_message env s2 (sent @ long_bytes message_size @ echo)))"
  by pat_completeness auto
termination
  by (relation "measure (\<lambda>(e, s, w). stream_size s)") (auto dest!: sym [of "(_, _)"] dest: recv_size intro: less_trans)

declare echo_hello_message.simps [simp del]

section \<open>The clients\<close>

definition hi_message :: string where
  "hi_message = ''Hello''"

definition hello :: "char list" where
  "hello = long_bytes (int (length hi_message)) @ hi_message"

text \<open>
  One round after the sends: the rest of the stream, or none when a \<^verbatim>\<open>recv\<close> ends the loop.
\<close>

definition hear_echo :: "stream \<Rightarrow> stream option" where
  "hear_echo s =
     (case recv 8 s of (b, s1) \<Rightarrow>
        if b = [] then None
        else let echo_message_size = long_of_bytes (store_bytes (long_bytes 0) b) in
          if echo_message_size < 0 then None
          else case recv (nat echo_message_size) s1 of (c, s2) \<Rightarrow> if c = [] then None else Some s2)"

lemma hear_echo_size: "hear_echo s = Some s' \<Longrightarrow> stream_size s' < stream_size s"
  by (auto simp: hear_echo_def Let_def split: prod.splits if_splits dest: recv_size intro: less_trans)

function execute_hello_message_exchange :: "stream \<Rightarrow> char list \<Rightarrow> char list" where
  "execute_hello_message_exchange s sent =
     (case hear_echo s of
        None \<Rightarrow> sent @ hello
      | Some s' \<Rightarrow> execute_hello_message_exchange s' (sent @ hello))"
  by pat_completeness auto
termination
  by (relation "measure (\<lambda>(s, w). stream_size s)") (auto intro: hear_echo_size)

declare execute_hello_message_exchange.simps [simp del]

abbreviation MAX_HELLOS_THRESHOLD :: nat where
  "MAX_HELLOS_THRESHOLD \<equiv> 3"

text \<open>\<^verbatim>\<open>hi_client_eval.c\<close> counts its greetings.\<close>

function execute_hello_message_exchange_eval :: "stream \<Rightarrow> nat \<Rightarrow> char list \<Rightarrow> char list" where
  "execute_hello_message_exchange_eval s max_hellos sent =
     (if MAX_HELLOS_THRESHOLD \<le> max_hellos then sent
      else case hear_echo s of
        None \<Rightarrow> sent @ hello
      | Some s' \<Rightarrow> execute_hello_message_exchange_eval s' (Suc max_hellos) (sent @ hello))"
  by pat_completeness auto
termination
  by (relation "measure (\<lambda>(s, n, w). MAX_HELLOS_THRESHOLD - n)") auto

declare execute_hello_message_exchange_eval.simps [simp del]

section \<open>Conversations\<close>

definition frame :: "char list \<Rightarrow> char list" where
  "frame m = long_bytes (int (length m)) @ m"

text \<open>A stream of whole messages, each sent as its size and its characters.\<close>

definition carries :: "stream \<Rightarrow> char list list \<Rightarrow> bool" where
  "carries s ms \<longleftrightarrow> concat s = concat (map frame ms) \<and> unsplit (concat (map (\<lambda>m. [8, length m]) ms)) s"

definition message_ok :: "char list \<Rightarrow> bool" where
  "message_ok m \<longleftrightarrow> m \<noteq> [] \<and> cstr m \<and> length m < 2 ^ 31"

lemma carries_Nil: "carries s [] \<Longrightarrow> fst (recv n s) = []"
  by (cases s) (auto simp: carries_def)

lemma carries_Cons:
  assumes "carries s (m # ms)"
  shows "\<exists>s1 s2. recv 8 s = (long_bytes (int (length m)), s1) \<and> recv (length m) s1 = (m, s2) \<and> carries s2 ms"
proof -
  have c: "concat s = long_bytes (int (length m)) @ m @ concat (map frame ms)"
    and u: "unsplit (8 # length m # concat (map (\<lambda>m. [8, length m]) ms)) s"
    using assms by (simp_all add: carries_def frame_def)
  obtain s1 where s1: "recv 8 s = (long_bytes (int (length m)), s1)" "concat s1 = m @ concat (map frame ms)"
    "unsplit (length m # concat (map (\<lambda>m. [8, length m]) ms)) s1"
    using recv_field [OF u c] by auto
  obtain s2 where "recv (length m) s1 = (m, s2)" "concat s2 = concat (map frame ms)"
    "unsplit (concat (map (\<lambda>m. [8, length m]) ms)) s2"
    using recv_field [OF s1(3,2)] by auto
  with s1(1) show ?thesis by (auto simp: carries_def)
qed

lemma message_size: "message_ok m \<Longrightarrow>
  long_of_bytes (store_bytes (long_bytes 0) (long_bytes (int (length m)))) = int (length m)"
  by (simp add: message_ok_def store_bytes_def long_of_long_bytes)

lemma long_bytes_ne: "long_bytes v \<noteq> []"
  using length_le_bytes [of 8 v] by (metis list.size(3) zero_neq_numeral)

lemma echo_step:
  assumes "carries s (m # ms)" "message_ok m" "length (block_junk env (length m)) = length m"
  shows "\<exists>s'. carries s' ms \<and> echo_hello_message env s sent =
    rbind (convert env m) (\<lambda>echo. echo_hello_message env s' (sent @ long_bytes (int (length m)) @ echo))"
proof -
  obtain s1 s2 where s: "recv 8 s = (long_bytes (int (length m)), s1)" "recv (length m) s1 = (m, s2)" "carries s2 ms"
    using carries_Cons [OF assms(1)] by blast
  have "store_bytes (take (length m) (block_junk env (length m))) m = m"
    using assms(3) by (simp add: store_bytes_def)
  with s assms(2) message_size [OF assms(2)] long_bytes_ne show ?thesis
    by (subst echo_hello_message.simps) (auto simp: Let_def message_ok_def)
qed

lemma convert_exact:
  assumes "cstr m" "length (block_junk env (length m)) = length m" "block_behind env = pre @ NUL # rest" "cstr pre"
  shows "convert env m = (if pre = [] then Inr (map toupper m) else Inl BufferOverflow)"
proof -
  have "cstr (m @ pre)" using assms(1,4) by (auto simp: cstr_def)
  then have "c_string (m @ block_behind env) = Inr (m @ pre)"
    using c_string_terminated [of "m @ pre" rest] assms(3) by simp
  then show ?thesis using assms(2) by (simp add: convert_def store_bytes_def)
qed

lemma echo_all:
  assumes "block_behind env = NUL # rest" "\<forall>m\<in>set ms. message_ok m \<and> length (block_junk env (length m)) = length m"
  shows "carries s ms \<Longrightarrow> echo_hello_message env s sent = Inr (sent @ concat (map (\<lambda>m. frame (map toupper m)) ms))"
  using assms(2)
proof (induction ms arbitrary: s sent)
  case Nil
  obtain s1 where "recv 8 s = ([], s1)" using carries_Nil [OF Nil.prems(1), of 8] by (cases "recv 8 s") auto
  then show ?case by (subst echo_hello_message.simps) simp
next
  case (Cons m ms)
  have m: "message_ok m" "length (block_junk env (length m)) = length m" "cstr m"
    using Cons.prems(2) by (auto simp: message_ok_def)
  obtain s' where s': "carries s' ms" "echo_hello_message env s sent =
      rbind (convert env m) (\<lambda>echo. echo_hello_message env s' (sent @ long_bytes (int (length m)) @ echo))"
    using echo_step [OF Cons.prems(1) m(1,2)] by blast
  have "convert env m = Inr (map toupper m)"
    using convert_exact [OF m(3,2), of "[]" rest] assms(1) by (simp add: cstr_def)
  with s' Cons.IH [OF s'(1)] Cons.prems(2) show ?case by (simp add: frame_def)
qed

lemma eval_client_bounded:
  assumes "n \<le> 3"
  shows "\<exists>j\<le>3 - n. execute_hello_message_exchange_eval s n w = w @ concat (replicate j hello)"
  using assms
proof (induction "3 - n" arbitrary: n s w)
  case 0
  then show ?case by (subst execute_hello_message_exchange_eval.simps) simp
next
  case (Suc d)
  then have n: "\<not> MAX_HELLOS_THRESHOLD \<le> n" "d = 3 - Suc n" "Suc n \<le> 3" by simp_all
  show ?case
  proof (cases "hear_echo s")
    case None
    with n show ?thesis
      by (subst execute_hello_message_exchange_eval.simps) (auto intro!: exI [of _ 1])
  next
    case (Some s')
    from Suc.hyps(1) [OF n(2,3), of s' "w @ hello"] obtain j where
      j: "j \<le> 3 - Suc n" "execute_hello_message_exchange_eval s' (Suc n) (w @ hello) = (w @ hello) @ concat (replicate j hello)"
      by blast
    then show ?thesis using n Some
      by (subst execute_hello_message_exchange_eval.simps) (auto intro!: exI [of _ "Suc j"])
  qed
qed

text \<open>One answer of the stream is one round of either client.\<close>

lemma hears_next:
  assumes "carries s (m # ms)" "message_ok m"
  shows "\<exists>s'. hear_echo s = Some s' \<and> carries s' ms"
proof -
  from carries_Cons [OF assms(1)] obtain s1 s2 where "recv 8 s = (long_bytes (int (length m)), s1)"
    "recv (length m) s1 = (m, s2)" "carries s2 ms" by blast
  then show ?thesis using message_size [OF assms(2)] assms(2) long_bytes_ne
    by (auto simp: hear_echo_def Let_def message_ok_def)
qed

lemma hears_nothing: "carries s [] \<Longrightarrow> hear_echo s = None"
  using carries_Nil [of s 8] by (auto simp: hear_echo_def split: prod.splits)

lemma clients_hear:
  assumes "carries s ms" "\<forall>m\<in>set ms. message_ok m"
  shows "execute_hello_message_exchange s w = w @ concat (replicate (Suc (length ms)) hello)"
    and "n + length ms = 3 \<Longrightarrow> execute_hello_message_exchange_eval s n w = w @ concat (replicate (length ms) hello)"
  using assms
proof (induction ms arbitrary: s w n)
  case Nil
  { case 1
    with hears_nothing [of s] show ?case by (subst execute_hello_message_exchange.simps) simp
  next
    case 2
    then show ?case by (subst execute_hello_message_exchange_eval.simps) simp
  }
next
  case (Cons m ms)
  { case 1
    then obtain s' where "hear_echo s = Some s'" "carries s' ms" using hears_next [of s m ms] by auto
    with Cons.IH(1) [of s' "w @ hello"] 1 show ?case by (subst execute_hello_message_exchange.simps) simp
  next
    case 2
    then obtain s' where "hear_echo s = Some s'" "carries s' ms" using hears_next [of s m ms] by auto
    with Cons.IH(2) [of "Suc n" s' "w @ hello"] 2 show ?case by (subst execute_hello_message_exchange_eval.simps) simp
  }
qed

section \<open>Properties\<close>

text \<open>C31.
  What the echo server sends depends on the memory behind the block of a message, which has no
  terminator: if that starts with a NUL every message comes back in capitals with its size, and
  otherwise the first message already makes the server write past its second block.\<close>

theorem echo_server_exact:
  assumes "carries s (m # ms)" "\<forall>x\<in>set (m # ms). message_ok x \<and> length (block_junk env (length x)) = length x"
    and "block_behind env = pre @ NUL # rest" "cstr pre"
  shows "echo_hello_message env s [] =
    (if pre = [] then Inr (concat (map (\<lambda>x. frame (map toupper x)) (m # ms))) else Inl BufferOverflow)"
proof (cases "pre = []")
  case True
  with echo_all [OF _ assms(2,1), of rest "[]"] assms(3) show ?thesis by simp
next
  case False
  have m: "message_ok m" "length (block_junk env (length m)) = length m" "cstr m"
    using assms(2) by (auto simp: message_ok_def)
  from echo_step [OF assms(1) m(1,2), of "[]"] convert_exact [OF m(3,2) assms(3,4)] False show ?thesis by auto
qed

definition quiet_heap :: heap_env where
  "quiet_heap = \<lparr>block_junk = (\<lambda>n. replicate n (CHR ''?'')), block_behind = [NUL]\<rparr>"

theorem echo_server_exact_witness:
  "echo_hello_message quiet_heap [frame ''Hello'', long_bytes 2, ''hi''] [] = Inr (frame ''HELLO'' @ frame ''HI'') \<and>
   echo_hello_message (quiet_heap\<lparr>block_behind := ''z'' @ [NUL]\<rparr>) [frame ''Hello'', long_bytes 2, ''hi''] [] = Inl BufferOverflow"
proof -
  let ?s = "[frame ''Hello'', long_bytes 2, ''hi'']"
  have c: "carries ?s [''Hello'', ''hi'']" by (simp add: carries_def frame_def)
  have m: "\<forall>x\<in>set [''Hello'', ''hi'']. message_ok x \<and> length (replicate (length x) (CHR ''?'')) = length x"
    by (simp add: message_ok_def cstr_def)
  have "map toupper ''Hello'' = ''HELLO''" "map toupper ''hi'' = ''HI''" by code_simp+
  then have t: "concat (map (\<lambda>x. frame (map toupper x)) [''Hello'', ''hi'']) = frame ''HELLO'' @ frame ''HI''"
    by (simp only: list.map concat.simps append_Nil2)
  have "echo_hello_message quiet_heap ?s [] = Inr (frame ''HELLO'' @ frame ''HI'')"
    using echo_server_exact [OF c, of quiet_heap "[]" "[]", unfolded t] m by (simp add: quiet_heap_def cstr_def)
  moreover have "echo_hello_message (quiet_heap\<lparr>block_behind := ''z'' @ [NUL]\<rparr>) ?s [] = Inl BufferOverflow"
    using echo_server_exact [OF c, of "quiet_heap\<lparr>block_behind := ''z'' @ [NUL]\<rparr>" "''z''" "[]"] m
    by (simp add: quiet_heap_def cstr_def)
  ultimately show ?thesis ..
qed

text \<open>C32.
  The evaluation client ends for every answer, after at most three greetings; a server with
  quiet memory that receives what it sends answers three times HELLO, and with that answer, cut
  outside of its fields, the client sends exactly those three greetings, while the other client
  sends a fourth one and ends only when the connection does.\<close>

theorem hello_conversation:
  assumes "carries q (replicate 3 hi_message)" "carries a (replicate 3 (map toupper hi_message))"
  shows "(\<forall>s. \<exists>j\<le>3. execute_hello_message_exchange_eval s 0 [] = concat (replicate j hello)) \<and>
    echo_hello_message quiet_heap q [] = Inr (concat a) \<and>
    execute_hello_message_exchange_eval a 0 [] = concat q \<and> execute_hello_message_exchange a [] = concat q @ hello"
proof -
  have H: "map toupper hi_message = ''HELLO''" by code_simp
  have ok: "\<forall>m\<in>set (replicate 3 (map toupper hi_message)). message_ok m"
    unfolding H by (simp add: message_ok_def cstr_def)
  have q: "concat q = concat (replicate 3 hello)"
    using assms(1) by (simp add: carries_def frame_def hello_def numeral_3_eq_3)
  have "\<forall>m\<in>set (replicate 3 hi_message). message_ok m \<and> length (block_junk quiet_heap (length m)) = length m"
    by (simp add: message_ok_def hi_message_def cstr_def quiet_heap_def)
  from echo_all [OF _ this assms(1), of "[]" "[]"] assms(2)
  have "echo_hello_message quiet_heap q [] = Inr (concat a)" by (simp add: quiet_heap_def carries_def)
  moreover have "\<forall>s. \<exists>j\<le>3. execute_hello_message_exchange_eval s 0 [] = concat (replicate j hello)"
    using eval_client_bounded [of 0 _ "[]"] by simp
  ultimately show ?thesis
    using clients_hear(1) [OF assms(2) ok, of "[]"] clients_hear(2) [OF assms(2) ok, of 0 "[]"] q
    by (simp add: numeral_3_eq_3)
qed

theorem hello_conversation_witness:
  "echo_hello_message quiet_heap [hello, hello, hello] [] = Inr (concat (replicate 3 (frame (map toupper hi_message)))) \<and>
   execute_hello_message_exchange_eval (replicate 3 (frame (map toupper hi_message))) 0 [] = concat [hello, hello, hello]"
proof -
  have q: "carries [hello, hello, hello] (replicate 3 hi_message)"
    by (simp add: carries_def frame_def hello_def hi_message_def numeral_3_eq_3)
  have a: "carries (replicate 3 (frame (map toupper hi_message))) (replicate 3 (map toupper hi_message))"
    by (simp add: carries_def frame_def hi_message_def numeral_3_eq_3)
  from hello_conversation [OF q a] show ?thesis by blast
qed

end
