(* ===== verification/Sender_Programs.thy ===== *)
theory Sender_Programs
  imports Sender_Shape File_Transfer Echo
begin

text \<open>
  The programs of the sender: \<^verbatim>\<open>main\<close> of \<^verbatim>\<open>MACHETE/SCMultipath/file_client.c\<close>, of
  \<^verbatim>\<open>hi_client.c\<close> and of \<^verbatim>\<open>hi_client_eval.c\<close>, each a session around an exchange with the
  receiver.
\<close>

section \<open>Arguments\<close>

text \<open>The local variables that the three programs fill from their arguments.\<close>

record program_args =
  depspace_proxy_ip :: string
  depspace_port :: int
  receiver_ip :: string
  data_port :: int
  node_port :: int
  min_nodes :: int
  use_stun :: int
  alerts_limit :: int
  filename :: string

definition sender_arguments :: "string list \<Rightarrow> program_args res" where
  "sender_arguments argv =
     rbind (argument argv 1) (\<lambda>mode.
     rbind (rbind (argument argv 2) (strcpy 20)) (\<lambda>a2.
     rbind (argument argv 3) (\<lambda>a3.
     rbind (rbind (argument argv 4) (strcpy 20)) (\<lambda>a4.
     rbind (argument argv 5) (\<lambda>a5.
     rbind (argument argv 6) (\<lambda>a6.
     rbind (argument argv 7) (\<lambda>a7.
     rbind (argument argv 8) (\<lambda>a8.
     rbind (argument argv 9) (\<lambda>a9.
     rbind (rbind (argument argv 10) (strcpy 20)) (\<lambda>a10.
       Inr \<lparr>depspace_proxy_ip = a2, depspace_port = atoi a3, receiver_ip = a4, data_port = atoi a5,
         node_port = atoi a6, min_nodes = atoi a7, use_stun = atoi a8, alerts_limit = atoi a9,
         filename = a10\<rparr>))))))))))"

section \<open>Programs\<close>

text \<open>What the calls return in the set-up and in the teardown of a session.\<close>

record run_env =
  run_session :: session_env
  teardown_env :: flow_env
  teardown_interfaces :: "ifaddrs list"

definition call_setup :: "run_env \<Rightarrow> program_args \<Rightarrow> int \<Rightarrow> sender \<Rightarrow> (int \<times> setup_sender_arg \<times> sender) res option" where
  "call_setup env a experiment_run s =
     machete_setup_sender_spec (run_session env) (receiver_ip a) (data_port a) (depspace_proxy_ip a) (depspace_port a)
       (node_port a) (min_nodes a) (use_stun a) (alerts_limit a) experiment_run s"

text \<open>The result has the bytes sent to the receiver, \<^verbatim>\<open>experiment_run\<close> and the sender.\<close>

definition file_client_main ::
    "run_env \<Rightarrow> file_env \<Rightarrow> string list \<Rightarrow> int \<Rightarrow> sender \<Rightarrow> (char list \<times> int \<times> sender) res option" where
  "file_client_main env file argv experiment_run s =
     cbind (Some (sender_arguments argv)) (\<lambda>a.
     cbind (call_setup env a experiment_run s) (\<lambda>(experiment_run1, arg, s1).
     cbind (Some (send_file_protocol file (filename a))) (\<lambda>bytes.
     cbind (Some (machete_teardown_sender_spec (teardown_env env) (teardown_interfaces env) arg s1)) (\<lambda>s2.
       Some (Inr (bytes, experiment_run1, s2))))))"

definition hi_client_main ::
    "run_env \<Rightarrow> stream \<Rightarrow> string list \<Rightarrow> int \<Rightarrow> sender \<Rightarrow> (char list \<times> int \<times> sender) res option" where
  "hi_client_main env answers argv experiment_run s =
     cbind (Some (sender_arguments argv)) (\<lambda>a.
     cbind (call_setup env a experiment_run s) (\<lambda>(experiment_run1, arg, s1).
     let bytes = execute_hello_message_exchange answers [] in
     cbind (Some (machete_teardown_sender_spec (teardown_env env) (teardown_interfaces env) arg s1)) (\<lambda>s2.
       Some (Inr (bytes, experiment_run1, s2)))))"

abbreviation MAX_EXPERIMENTS_THRESHOLD :: nat where
  "MAX_EXPERIMENTS_THRESHOLD \<equiv> 31"

definition forced_teardown :: "string list" where
  "forced_teardown = [''iptables -t nat -F'', ''pkill java'',
     ''cd ../evaluation; sh run-adapter.sh 1005; cd ../SCMultipath/;'']"

text \<open>One round of the loop of \<^verbatim>\<open>hi_client_eval.c\<close>; the bytes of every round are kept.\<close>

definition run_experiment ::
    "(nat \<Rightarrow> run_env) \<Rightarrow> (nat \<Rightarrow> stream) \<Rightarrow> program_args \<Rightarrow> nat \<Rightarrow> char list list \<times> int \<times> sender \<Rightarrow>
      (char list list \<times> int \<times> sender) res option" where
  "run_experiment env answers a number_of_experiments st =
     (case st of (sent, experiment_run, s) \<Rightarrow>
     cbind (call_setup (env number_of_experiments) a experiment_run s) (\<lambda>(experiment_run1, arg, s1).
     let bytes = execute_hello_message_exchange_eval (answers number_of_experiments) 0 [] in
     cbind (Some (machete_teardown_sender_spec (teardown_env (env number_of_experiments))
             (teardown_interfaces (env number_of_experiments)) arg s1)) (\<lambda>s2.
       Some (Inr (sent @ [bytes], experiment_run1, s2\<lparr>commands := commands s2 @ forced_teardown\<rparr>)))))"

definition hi_client_eval_main ::
    "(nat \<Rightarrow> run_env) \<Rightarrow> (nat \<Rightarrow> stream) \<Rightarrow> string list \<Rightarrow> int \<Rightarrow> sender \<Rightarrow>
      (char list list \<times> int \<times> sender) res option" where
  "hi_client_eval_main env answers argv experiment_run s =
     cbind (Some (sender_arguments argv)) (\<lambda>a.
       crun_steps (run_experiment env answers a) [0..<MAX_EXPERIMENTS_THRESHOLD] ([], experiment_run, s))"

section \<open>Runs\<close>

definition session_argument :: "program_args \<Rightarrow> setup_sender_arg" where
  "session_argument a = \<lparr>receiver_addr = receiver_ip a, receiver_port = data_port a,
     depspace_proxy_addr = depspace_proxy_ip a, depspace_proxy_port = depspace_port a, overlay_port = node_port a,
     min_number_of_nodes = min_nodes a, use_stun_server = use_stun a, reaction_spec = SHUTDOWN_COMMUNICATION,
     max_alerts = alerts_limit a\<rparr>"

text \<open>
  What a run needs of its environment, whatever the sender holds.  \<open>session_ready\<close> requires that
  STUN is not used and that every node is alive; the run is that of the main thread alone, in
  which no alert is handled.
\<close>

definition run_ready :: "run_env \<Rightarrow> program_args \<Rightarrow> bool" where
  "run_ready env a \<longleftrightarrow>
     (\<exists>ls as ifap. \<forall>s. threads_room s = MAX_FLOWS \<longrightarrow>
        session_ready (run_session env) (session_argument a) ls as ifap s) \<and>
     replies_ok (teardown_env env) \<and> list_all inet_ok (teardown_interfaces env)"

text \<open>
  The rules of a run: those of all pairs of a local address and an address of the receiver, over
  the nodes that the manager answered.
\<close>

definition run_rules :: "run_env \<Rightarrow> rule list \<Rightarrow> bool" where
  "run_rules env rs \<longleftrightarrow> (\<exists>ls as ifap. adapter_answers (run_session env) ls as \<and> interface_lists (run_session env) 0 = ifap \<and>
     rs = sender_nat.all_rules (flow_keys (addresses ifap) as (map line_ip ls)))"

lemma run_complete:
  assumes ready: "run_ready env a" and s: "threads_room s = MAX_FLOWS" "monitored (monitor s) al ps"
    and nat: "iptables_semantics exec denote chain"
  obtains s1 s2 rs vs where "call_setup env a run s = Some (Inr (run + 1, session_argument a, s1))"
    "machete_teardown_sender_spec (teardown_env env) (teardown_interfaces env) (session_argument a) s1 = Inr s2"
    "commands s2 = commands s @ map append_cmd rs @ map delete_cmd rs @ vs"
    "clean_virtual_interfaces (teardown_interfaces env) = Inr vs" "run_rules env rs"
    "restores exec denote chain rs (map append_cmd rs @ map delete_cmd rs)" "threads_room s2 = MAX_FLOWS" "monitored (monitor s2) [] []"
proof -
  let ?s = "s\<lparr>log_open := True\<rparr>"
  have room: "threads_room ?s = MAX_FLOWS" using s(1) by (simp add: threads_room_def)
  obtain ls as ifap where r: "session_ready (run_session env) (session_argument a) ls as ifap ?s"
    using ready room unfolding run_ready_def by blast
  have e: "replies_ok (teardown_env env)" "list_all inet_ok (teardown_interfaces env)"
    using ready by (simp_all add: run_ready_def)
  let ?rs = "sender_nat.all_rules (flow_keys (addresses ifap) as (map line_ip ls))"
  obtain s1 s2 us vs where t: "setup_sender (run_session env) (session_argument a) ?s = Some (Inr s1)"
    "monitored (monitor s1) [] []"
    "teardown_sender (teardown_env env) (teardown_interfaces env) (session_argument a) s1 = Inr s2"
    "commands s2 = commands ?s @ us @ vs" "clean_virtual_interfaces (teardown_interfaces env) = Inr vs"
    "us = map append_cmd ?rs @ map delete_cmd ?rs" "proper_rules ?rs"
    by (rule session_runs [OF r _ _ e nat, of al ps]) (use s(2) in simp_all)
  show thesis
  proof (rule that [of s1 s2 ?rs vs])
    show "restores exec denote chain ?rs (map append_cmd ?rs @ map delete_cmd ?rs)"
      by (rule removal_restores [OF nat t(7)])
    show "run_rules env ?rs" using r unfolding run_rules_def session_ready_def by blast
    show "call_setup env a run s = Some (Inr (run + 1, session_argument a, s1))"
      using t(1) by (simp add: call_setup_def machete_setup_sender_spec_def session_argument_def)
    show "threads_room s2 = MAX_FLOWS" "monitored (monitor s2) [] []"
      using setup_sender_shape [OF t(1) room] teardown_sender_monitor [OF t(3)] t(2) by (simp_all add: shape_def)
  qed (use t in \<open>simp_all add: machete_teardown_sender_spec_def\<close>)
qed

definition round_ok ::
    "(nat \<Rightarrow> run_env) \<Rightarrow> (string \<Rightarrow> 't \<Rightarrow> 't) \<Rightarrow> (string \<Rightarrow> 'r option) \<Rightarrow> ('t \<Rightarrow> string \<Rightarrow> 'r list) \<Rightarrow> nat \<Rightarrow> string list \<Rightarrow> bool" where
  "round_ok env exec denote chain i cs \<longleftrightarrow>
     (\<exists>rs vs. cs = (map append_cmd rs @ map delete_cmd rs) @ vs @ forced_teardown \<and> run_rules (env i) rs \<and>
        restores exec denote chain rs (map append_cmd rs @ map delete_cmd rs) \<and>
        clean_virtual_interfaces (teardown_interfaces (env i)) = Inr vs)"

lemma experiments_run:
  assumes "\<forall>i\<in>set xs. run_ready (env i) a" "threads_room s = MAX_FLOWS" "monitored (monitor s) al ps"
    and "iptables_semantics exec denote chain"
  shows "\<exists>s' rounds. crun_steps (run_experiment env answers a) xs (sent, run, s) =
      Some (Inr (sent @ map (\<lambda>i. execute_hello_message_exchange_eval (answers i) 0 []) xs, run + int (length xs), s')) \<and>
    commands s' = commands s @ concat rounds \<and> list_all2 (round_ok env exec denote chain) xs rounds"
  using assms(1-3)
proof (induction xs arbitrary: sent run s al ps)
  case Nil
  show ?case by (intro exI [of _ s] exI [of _ "[]"]) simp
next
  case (Cons i xs)
  have i: "run_ready (env i) a" using Cons.prems(1) by simp
  obtain s1 s2 rs vs where t: "call_setup (env i) a run s = Some (Inr (run + 1, session_argument a, s1))"
    "machete_teardown_sender_spec (teardown_env (env i)) (teardown_interfaces (env i)) (session_argument a) s1 = Inr s2"
    "commands s2 = commands s @ map append_cmd rs @ map delete_cmd rs @ vs"
    "clean_virtual_interfaces (teardown_interfaces (env i)) = Inr vs" "run_rules (env i) rs"
    "restores exec denote chain rs (map append_cmd rs @ map delete_cmd rs)" "threads_room s2 = MAX_FLOWS" "monitored (monitor s2) [] []"
    by (rule run_complete [OF i Cons.prems(2,3) assms(4)])
  let ?s = "s2\<lparr>commands := commands s2 @ forced_teardown\<rparr>"
    and ?w = "execute_hello_message_exchange_eval (answers i) 0 []"
  have "threads_room ?s = MAX_FLOWS" "monitored (monitor ?s) [] []" using t(7,8) by (simp_all add: threads_room_def)
  from Cons.IH [OF _ this, of "sent @ [?w]" "run + 1"] Cons.prems(1) obtain s' rounds where
    r: "crun_steps (run_experiment env answers a) xs (sent @ [?w], run + 1, ?s) =
      Some (Inr ((sent @ [?w]) @ map (\<lambda>i. execute_hello_message_exchange_eval (answers i) 0 []) xs,
        run + 1 + int (length xs), s'))"
    "commands s' = commands ?s @ concat rounds" "list_all2 (round_ok env exec denote chain) xs rounds"
    by auto
  let ?us = "map append_cmd rs @ map delete_cmd rs"
  have "round_ok env exec denote chain i (?us @ vs @ forced_teardown)" using t(4-6) unfolding round_ok_def by blast
  moreover have "run_experiment env answers a i (sent, run, s) = Some (Inr (sent @ [?w], run + 1, ?s))"
    using t(1,2) by (simp add: run_experiment_def)
  ultimately show ?case using t(3) r
    by (intro exI [of _ s'] exI [of _ "(?us @ vs @ forced_teardown) # rounds"]) (simp add: add.assoc)
qed

lemma session_ready_room:
  "session_ready env arg ls as ifap s \<Longrightarrow> threads_room s' = MAX_FLOWS \<Longrightarrow> session_ready env arg ls as ifap s'"
  by (simp add: session_ready_def threads_room_def)

lemma sender_arguments_name: "sender_arguments argv = Inr a \<Longrightarrow> length (filename a) < 20"
  by (auto simp: sender_arguments_def rbind_eq_Inr strcpy_def split: if_splits)

section \<open>Properties\<close>

text \<open>C11.
  The evaluation program without STUN and without alerts, that is, not as its scripts run it:
  it runs all of its 31 sessions in one process, whenever the environment of each is ready.
  Every one sets up, exchanges greetings and tears down, on the state that the one before left
  behind; it installs exactly the rules of its flows and deletes exactly those, so that before
  the flush that follows every chain holds the rules it had, each as often, and is exactly as it
  was if it held none of the session's rules.\<close>

theorem experiments_exact:
  assumes "sender_arguments argv = Inr a" "\<forall>i<MAX_EXPERIMENTS_THRESHOLD. run_ready (env i) a"
    and "threads_room s = MAX_FLOWS" "monitored (monitor s) al ps" "iptables_semantics exec denote chain"
  shows "\<exists>s' rounds. hi_client_eval_main env answers argv run s =
      Some (Inr (map (\<lambda>i. execute_hello_message_exchange_eval (answers i) 0 []) [0..<MAX_EXPERIMENTS_THRESHOLD],
        run + int MAX_EXPERIMENTS_THRESHOLD, s')) \<and>
    commands s' = commands s @ concat rounds \<and>
    list_all2 (round_ok env exec denote chain) [0..<MAX_EXPERIMENTS_THRESHOLD] rounds"
proof -
  have "\<forall>i\<in>set [0..<MAX_EXPERIMENTS_THRESHOLD]. run_ready (env i) a" using assms(2) by simp
  from experiments_run [OF this assms(3-5), of answers "[]" run] assms(1)
  show ?thesis unfolding hi_client_eval_main_def by (simp del: upt_conv_Cons add: upt_rec_numeral)
qed

definition demo_argv :: "string list" where
  "demo_argv = [''client'', ''1'', ''127.0.0.1'', ''8888'', ''10.0.0.5'', ''6000'', ''5000'', ''1'', ''0'', ''1'', ''a.txt'']"

definition demo_args :: program_args where
  "demo_args = \<lparr>depspace_proxy_ip = ''127.0.0.1'', depspace_port = 8888, receiver_ip = ''10.0.0.5'', data_port = 6000,
     node_port = 5000, min_nodes = 1, use_stun = 0, alerts_limit = 1, filename = ''a.txt''\<rparr>"

definition demo_run :: run_env where
  "demo_run = \<lparr>run_session = demo_env, teardown_env = quiet_env, teardown_interfaces = sample_interfaces\<rparr>"

lemma demo_argv_read: "sender_arguments demo_argv = Inr demo_args"
proof -
  have "atoi ''8888'' = 8888" "atoi ''6000'' = 6000" "atoi ''5000'' = 5000" "atoi ''1'' = 1" "atoi ''0'' = 0"
    by code_simp+
  then show ?thesis by (simp add: sender_arguments_def demo_argv_def demo_args_def argument_def strcpy_def)
qed

lemma demo_run_ready: "run_ready demo_run demo_args"
proof -
  have "session_argument demo_args = demo_arg" by (simp add: session_argument_def demo_args_def demo_arg_def)
  moreover have "list_all inet_ok sample_interfaces" by (simp add: sample_interfaces_def inet_ok_def)
  ultimately show ?thesis
    using session_ready_room [OF demo_ready] quiet_env_ok by (auto simp: run_ready_def demo_run_def)
qed

lemma demo_room: "threads_room demo_sender = MAX_FLOWS"
  by (simp add: threads_room_def demo_sender_def)

theorem experiments_exact_witness:
  "\<exists>s' rounds. hi_client_eval_main (\<lambda>i. demo_run) (\<lambda>i. []) demo_argv 1 demo_sender =
      Some (Inr (map (\<lambda>i. execute_hello_message_exchange_eval [] 0 []) [0..<MAX_EXPERIMENTS_THRESHOLD],
        1 + int MAX_EXPERIMENTS_THRESHOLD, s')) \<and>
    commands s' = commands demo_sender @ concat rounds \<and>
    list_all2 (round_ok (\<lambda>i. demo_run) text_exec Some id) [0..<MAX_EXPERIMENTS_THRESHOLD] rounds"
proof -
  have "\<forall>i<MAX_EXPERIMENTS_THRESHOLD. run_ready demo_run demo_args" using demo_run_ready by blast
  from experiments_exact [OF demo_argv_read this demo_room demo_monitored(1) text_exec_semantics] show ?thesis .
qed

text \<open>C12.
  From the arguments of the file client to the file on the receiver's disk, without STUN (unlike
  the script that runs it) and without alerts: the program sets up its session, sends, and tears
  down, having installed and deleted exactly the rules of its flows, so that every chain of its
  NAT table holds the rules it had, each as often, and is exactly as it was if it held none of
  the session's rules.  Whatever way the network cuts the bytes outside of the three header
  fields, the server that receives them creates a file with the contents of the sent one, but
  under another name: the sent name followed by whatever characters the stack holds behind the
  array, because the terminator is not sent.\<close>

theorem file_delivered:
  assumes "sender_arguments argv = Inr a" "run_ready env a"
    and "threads_room s = MAX_FLOWS" "monitored (monitor s) al ps" "iptables_semantics exec denote chain"
    and "file = \<lparr>file_content = Some content, stat_size = Some (int (length content)),
      sendfile_result = int (length content)\<rparr>" "length content < 2 ^ 31"
    and "filename a \<noteq> []" "cstr (filename a)" "length (filename a) \<le> length (name_junk server)"
      "int (length (filename a)) \<le> stack_room server" "NUL \<in> set (stack_behind server)" "can_create server"
  shows "\<exists>bytes s' rs vs. file_client_main env file argv run s = Some (Inr (bytes, run + 1, s')) \<and>
    commands s' = commands s @ map append_cmd rs @ map delete_cmd rs @ vs \<and> run_rules env rs \<and>
    restores exec denote chain rs (map append_cmd rs @ map delete_cmd rs) \<and>
    clean_virtual_interfaces (teardown_interfaces env) = Inr vs \<and>
    (\<forall>q. concat q = bytes \<longrightarrow> [] \<notin> set q \<longrightarrow> unsplit [4, length (filename a), 8] q \<longrightarrow>
      machete_receive_data server q =
        Inr (filename a @ takeWhile (\<lambda>c. c \<noteq> NUL) (stack_behind server), content))"
proof -
  obtain s1 s2 rs vs where t: "call_setup env a run s = Some (Inr (run + 1, session_argument a, s1))"
    "machete_teardown_sender_spec (teardown_env env) (teardown_interfaces env) (session_argument a) s1 = Inr s2"
    "commands s2 = commands s @ map append_cmd rs @ map delete_cmd rs @ vs"
    "clean_virtual_interfaces (teardown_interfaces env) = Inr vs" "run_rules env rs"
    "restores exec denote chain rs (map append_cmd rs @ map delete_cmd rs)" "threads_room s2 = MAX_FLOWS" "monitored (monitor s2) [] []"
    by (rule run_complete [OF assms(2-5)])
  have name: "length (filename a) < 2 ^ 31" using sender_arguments_name [OF assms(1)] by simp
  obtain bytes where b: "send_file_protocol file (filename a) = Inr bytes"
    unfolding assms(6) by (simp add: send_file_protocol_def)
  have "file_client_main env file argv run s = Some (Inr (bytes, run + 1, s2))"
    using assms(1) t(1,2) b by (simp add: file_client_main_def)
  moreover have "machete_receive_data server q =
      Inr (filename a @ takeWhile (\<lambda>c. c \<noteq> NUL) (stack_behind server), content)"
    if "concat q = bytes" "[] \<notin> set q" "unsplit [4, length (filename a), 8] q" for q
    by (rule file_arrives [OF b [unfolded assms(6)] that assms(8) name assms(9-12,7,13)])
  ultimately show ?thesis using t(3-6) by blast
qed

theorem file_delivered_witness:
  "\<exists>bytes s'. file_client_main demo_run \<lparr>file_content = Some ''hello world'', stat_size = Some 11,
        sendfile_result = 11\<rparr> demo_argv 1 demo_sender = Some (Inr (bytes, 2, s')) \<and>
    (\<forall>q. concat q = bytes \<longrightarrow> [] \<notin> set q \<longrightarrow> unsplit [4, length ''a.txt'', 8] q \<longrightarrow>
      machete_receive_data sample_server q = Inr (''a.txt'' @ ''!'', ''hello world''))"
proof -
  have f: "\<lparr>file_content = Some ''hello world'', stat_size = Some 11, sendfile_result = 11\<rparr> =
      \<lparr>file_content = Some ''hello world'', stat_size = Some (int (length ''hello world'')),
        sendfile_result = int (length ''hello world'')\<rparr>" by simp
  have n: "filename demo_args = ''a.txt''" by (simp add: demo_args_def)
  show ?thesis
    using file_delivered [OF demo_argv_read demo_run_ready demo_room demo_monitored(1) text_exec_semantics f,
        of sample_server 1, unfolded n]
    by (simp add: cstr_def sample_server_def) blast
qed

end
