(* ===== verification/Receiving_Handler.thy ===== *)
theory Receiving_Handler
  imports Virtual_Interfaces Stun Depspace_Client Rule_Specs
begin

text \<open>
  \<^verbatim>\<open>MACHETE/SCMultipath/receiving_handler.c\<close> and \<^verbatim>\<open>machete_receiver.c\<close>: the receiver reads its
  addresses, registers them with the manager, starts a Darshana server and a thread for every
  connection it accepts.
\<close>

section \<open>State\<close>

text \<open>
  The globals of the file.  \<open>srcs\<close> is an array of 20 pointers, null until they are set; a
  thread variable is \<open>None\<close> until a thread was created in it, and holds the command or the
  socket that the thread was started with.
\<close>

record receiver =
  recv_srcs :: "string option list"
  recv_numSrcs :: int
  primary_ip :: string
  darshana_server_pthread :: "string option"
  receiving_data_pthread :: "int option"
  data_threads :: "int list"

text \<open>
  What the calls return: the interfaces, the STUN servers, the adapter's answer, whether
  threads can be created, and the results of \<^verbatim>\<open>accept\<close>.
\<close>

record receiver_env =
  recv_interfaces :: "ifaddrs list"
  recv_stun :: "nat \<Rightarrow> stun_env"
  recv_answer :: stream
  server_thread_ok :: bool
  data_thread_ok :: "nat \<Rightarrow> bool"
  accepted :: "nat \<Rightarrow> int"

section \<open>Addresses\<close>

fun getPrimary :: "ifaddrs list \<Rightarrow> string \<Rightarrow> string res" where
  "getPrimary [] primary = Inr primary"
| "getPrimary (ifa # ifas) primary =
     rbind (inet_address ifa) (\<lambda>a. case a of None \<Rightarrow> getPrimary ifas primary | Some addr \<Rightarrow> strcpy 20 addr)"

fun interfaces2_loop :: "ifaddrs list \<Rightarrow> nat \<Rightarrow> string option list \<Rightarrow> (string option list \<times> nat) res" where
  "interfaces2_loop [] i srcs = Inr (srcs, i)"
| "interfaces2_loop (ifa # ifas) i srcs =
     rbind (inet_address ifa) (\<lambda>a. case a of
       None \<Rightarrow> interfaces2_loop ifas i srcs
     | Some addr \<Rightarrow>
         rbind (guard (i < length srcs) OutOfBounds) (\<lambda>_.
         rbind (strcpy 50 addr) (\<lambda>addr'.
           interfaces2_loop ifas (Suc i) (srcs[i := Some addr']))))"

definition getLocalInterfaces2 :: "ifaddrs list \<Rightarrow> receiver \<Rightarrow> receiver res" where
  "getLocalInterfaces2 ifap r =
     rbind (interfaces2_loop ifap 0 (recv_srcs r)) (\<lambda>(ss, n). Inr (r\<lparr>recv_srcs := ss, recv_numSrcs := int n\<rparr>))"

text \<open>One round of the loop that asks STUN for the public address of every source.\<close>

definition public_address :: "receiver_env \<Rightarrow> nat \<Rightarrow> receiver \<Rightarrow> receiver res option" where
  "public_address env i r =
     cbind (Some (rbind (array_get (recv_srcs r) i) nonnull)) (\<lambda>src.
     cbind (stunGetPublicIP (recv_stun env i)) (\<lambda>out.
       Some (Inr (r\<lparr>recv_srcs := (recv_srcs r)[i := Some (case stun_text out of None \<Rightarrow> src | Some t \<Rightarrow> t)]\<rparr>))))"

section \<open>Threads\<close>

text \<open>Here \<^verbatim>\<open>COMMAND_SIZE\<close> is 100.\<close>

definition run_darshana_server_recv :: "bool \<Rightarrow> string \<Rightarrow> string \<Rightarrow> receiver \<Rightarrow> receiver res" where
  "run_darshana_server_recv ok receiver_ip receiver_port r =
     rbind (build_string 100 ''cd '' [DARSHANA_RELATIVE_PATH, ''; sh run-server_args.sh '', receiver_ip, '' '',
       receiver_port, '' >> darshana-server.out &'']) (\<lambda>command.
       Inr (if ok then r\<lparr>darshana_server_pthread := Some command\<rparr> else r))"

text \<open>
  \<^verbatim>\<open>while (newSocket = accept(...))\<close>: only a descriptor 0 ends the loop, and a failed
  \<^verbatim>\<open>accept\<close>, which is -1, starts a thread like a connection.
\<close>

partial_function (option) accept_loop :: "receiver_env \<Rightarrow> nat \<Rightarrow> receiver \<Rightarrow> receiver option" where
  "accept_loop env t r =
     (if accepted env t = 0 then Some r
      else accept_loop env (Suc t)
        (if data_thread_ok env t
         then r\<lparr>receiving_data_pthread := Some (accepted env t), data_threads := data_threads r @ [accepted env t]\<rparr>
         else r))"

definition init_socket_communication_with_clients :: "receiver_env \<Rightarrow> receiver \<Rightarrow> receiver res option" where
  "init_socket_communication_with_clients env r = map_option Inr (accept_loop env 0 r)"

section \<open>Set-up and teardown\<close>

text \<open>
  The set-up up to its accept loop, which need not end: the state then, and the bytes sent to
  the manager.
\<close>

definition start_receiver :: "receiver_env \<Rightarrow> int \<Rightarrow> receiver \<Rightarrow> (receiver \<times> char list) res option" where
  "start_receiver env use_stun_public_ip r =
     cbind (Some (getPrimary (recv_interfaces env) (primary_ip r))) (\<lambda>p.
     cbind (Some (getLocalInterfaces2 (recv_interfaces env) (r\<lparr>primary_ip := p\<rparr>))) (\<lambda>r1.
     cbind (if use_stun_public_ip \<noteq> 0 then crun_steps (public_address env) [0..<nat (recv_numSrcs r1)] r1
            else Some (Inr r1)) (\<lambda>r2.
     cbind (Some (register_to_manager (recv_numSrcs r2) (recv_srcs r2) 1 (recv_answer env))) (\<lambda>(sent, ok, ret).
     cbind (Some (run_darshana_server_recv (server_thread_ok env) (primary_ip r2) DARSHANA_SERVER_PORT r2)) (\<lambda>r3.
       Some (Inr (r3, sent)))))))"

definition setup_receiver :: "receiver_env \<Rightarrow> int \<Rightarrow> receiver \<Rightarrow> (receiver \<times> char list) res option" where
  "setup_receiver env use_stun_public_ip r =
     cbind (start_receiver env use_stun_public_ip r) (\<lambda>(r3, sent).
     cbind (init_socket_communication_with_clients env r3) (\<lambda>r4. Some (Inr (r4, sent))))"

text \<open>Cancelling a thread that was never created is undefined.\<close>

definition close_socket_communication_with_clients :: "receiver \<Rightarrow> receiver" where
  "close_socket_communication_with_clients r = r"

definition teardown_receiver :: "receiver \<Rightarrow> receiver res" where
  "teardown_receiver r =
     rbind (guard (darshana_server_pthread r \<noteq> None) BadPointer) (\<lambda>_.
     rbind (guard (receiving_data_pthread r \<noteq> None) BadPointer) (\<lambda>_.
       Inr (close_socket_communication_with_clients r)))"

definition machete_setup_receiver_spec :: "receiver_env \<Rightarrow> int \<Rightarrow> receiver \<Rightarrow> (receiver \<times> char list) res option" where
  "machete_setup_receiver_spec env use_stun_public_ip r = setup_receiver env use_stun_public_ip r"

definition machete_teardown_receiver_spec :: "receiver \<Rightarrow> receiver res" where
  "machete_teardown_receiver_spec r = teardown_receiver r"

definition machete_setup_receiver :: "int \<Rightarrow> int" where
  "machete_setup_receiver receiver_port0 = - 1"

definition machete_teardown_receiver :: "receiver \<Rightarrow> receiver res" where
  "machete_teardown_receiver r = teardown_receiver r"

section \<open>Lemmas\<close>

abbreviation usable_addresses :: "ifaddrs list \<Rightarrow> string list" where
  "usable_addresses ifap \<equiv> map (\<lambda>ifa. snd (the (ifa_addr ifa))) (filter usable ifap)"

lemma getPrimary_exact:
  "list_all inet_ok ifap \<Longrightarrow> getPrimary ifap p = Inr (hd (usable_addresses ifap @ [p]))"
  by (induction ifap) (auto simp: inet_address_ok strcpy_def inet_ok_def usable_def)

lemma interfaces2_exact:
  assumes "list_all inet_ok ifap" "i \<le> length ss"
  shows "interfaces2_loop ifap i ss =
    (if i + length (usable_addresses ifap) \<le> length ss
     then Inr (take i ss @ map Some (usable_addresses ifap) @ drop (i + length (usable_addresses ifap)) ss,
       i + length (usable_addresses ifap))
     else Inl OutOfBounds)"
  using assms
proof (induction ifap arbitrary: i ss)
  case (Cons ifa ifap)
  show ?case
  proof (cases "usable ifa")
    case False
    with Cons show ?thesis by (simp add: inet_address_ok)
  next
    case True
    let ?a = "snd (the (ifa_addr ifa))"
    have a: "length ?a < 50" using Cons.prems(1) True by (auto simp: inet_ok_def usable_def)
    show ?thesis
    proof (cases "i < length ss")
      case False
      with True Cons.prems show ?thesis by (simp add: inet_address_ok)
    next
      case i: True
      have "take (Suc i) (ss[i := Some ?a]) = take i ss @ [Some ?a]"
        using i by (simp add: take_Suc_conv_app_nth)
      with Cons.IH [of "Suc i" "ss[i := Some ?a]"] Cons.prems True a i show ?thesis
        by (simp add: inet_address_ok strcpy_def)
    qed
  qed
qed simp

text \<open>An array without a null pointer at its end is read past.\<close>

lemma append_interfaces_full:
  assumes "ips \<noteq> []"
  shows "append_interfaces buf (map Some ips) \<in> {Inl OutOfBounds, Inl BufferOverflow}"
  using assms
proof (induction ips arbitrary: buf)
  case (Cons a ips)
  show ?case
  proof (cases ips)
    case Nil
    then show ?thesis by (auto simp: strcat_def)
  next
    case (Cons b bs)
    with Cons.IH [of "buf @ a @ '',''"] show ?thesis by (auto simp: strcat_def)
  qed
qed simp

lemma accept_loop_ends:
  assumes "accepted env n = 0" "\<forall>k<n. accepted env k \<noteq> 0" "t \<le> n"
  shows "\<exists>r'. accept_loop env t r = Some r' \<and>
    data_threads r' = data_threads r @ map (accepted env) (filter (data_thread_ok env) [t..<n]) \<and>
    recv_srcs r' = recv_srcs r \<and> primary_ip r' = primary_ip r \<and> recv_numSrcs r' = recv_numSrcs r \<and>
    darshana_server_pthread r' = darshana_server_pthread r \<and>
    receiving_data_pthread r' = last (receiving_data_pthread r #
      map (\<lambda>k. Some (accepted env k)) (filter (data_thread_ok env) [t..<n]))"
  using assms(3)
proof (induction "n - t" arbitrary: t r)
  case 0
  then show ?case using assms(1) by (subst accept_loop.simps) simp
next
  case (Suc d)
  then have "t < n" by linarith
  then have t: "t < n" "accepted env t \<noteq> 0" "[t..<n] = t # [Suc t..<n]"
    using assms(2) by (simp_all add: upt_conv_Cons)
  define r1 where "r1 = (if data_thread_ok env t
      then r\<lparr>receiving_data_pthread := Some (accepted env t), data_threads := data_threads r @ [accepted env t]\<rparr> else r)"
  have "d = n - Suc t" "Suc t \<le> n" using Suc.hyps(2) t(1) by simp_all
  from Suc.hyps(1) [OF this, of r1] obtain r' where r': "accept_loop env (Suc t) r1 = Some r'"
    "data_threads r' = data_threads r1 @ map (accepted env) (filter (data_thread_ok env) [Suc t..<n])"
    "recv_srcs r' = recv_srcs r1" "primary_ip r' = primary_ip r1" "recv_numSrcs r' = recv_numSrcs r1"
    "darshana_server_pthread r' = darshana_server_pthread r1"
    "receiving_data_pthread r' = last (receiving_data_pthread r1 #
      map (\<lambda>k. Some (accepted env k)) (filter (data_thread_ok env) [Suc t..<n]))"
    by blast
  have "accept_loop env t r = Some r'" using r'(1) t(2) by (subst accept_loop.simps) (simp add: r1_def)
  moreover have "filter (data_thread_ok env) [t..<n] =
      (if data_thread_ok env t then t # filter (data_thread_ok env) [Suc t..<n] else filter (data_thread_ok env) [Suc t..<n])"
    unfolding t(3) by simp
  ultimately show ?case using r'(2-) by (cases "data_thread_ok env t") (simp_all add: r1_def)
qed

lemma accept_loop_never:
  assumes "accept_loop env t r = Some r'"
  shows "\<exists>k\<ge>t. accepted env k = 0"
  using assms
proof (induction rule: accept_loop.raw_induct [rotated, consumes 1, case_names step])
  case (step f env t r r')
  show ?case
  proof (cases "accepted env t = 0")
    case False
    with step have "\<exists>k\<ge>Suc t. accepted env k = 0" by auto
    then show ?thesis by (meson Suc_leD)
  qed blast
qed

section \<open>Properties\<close>

definition server_command :: "string \<Rightarrow> string" where
  "server_command ip = ''cd '' @ DARSHANA_RELATIVE_PATH @ ''; sh run-server_args.sh '' @ ip @ '' '' @ DARSHANA_SERVER_PORT @
     '' >> darshana-server.out &''"

lemma run_darshana_server_recv_ok:
  "length ip < 16 \<Longrightarrow> run_darshana_server_recv True ip DARSHANA_SERVER_PORT r =
     Inr (r\<lparr>darshana_server_pthread := Some (server_command ip)\<rparr>)"
  by (simp add: run_darshana_server_recv_def build_string_eq server_command_def DARSHANA_RELATIVE_PATH_def DARSHANA_SERVER_PORT_def)

text \<open>
  What the receiver registers for its addresses: with STUN the public address that the server
  of each answers, or the address itself where the answer holds none.
\<close>

definition registered_addresses :: "receiver_env \<Rightarrow> int \<Rightarrow> string list \<Rightarrow> string list \<Rightarrow> bool" where
  "registered_addresses env use_stun us vs \<longleftrightarrow> (if use_stun = 0 then vs = us else length vs = length us \<and>
     (\<forall>i<length us. \<exists>out. stunGetPublicIP (recv_stun env i) = Some (Inr out) \<and>
        vs ! i = (case stun_text out of None \<Rightarrow> us ! i | Some t \<Rightarrow> t)))"

lemma public_addresses:
  assumes "registered_addresses env use_stun us vs" "use_stun \<noteq> 0"
    and "recv_srcs r = map Some (take i vs @ drop i us) @ rest" "i \<le> length us"
  shows "crun_steps (public_address env) [i..<length us] r = Some (Inr (r\<lparr>recv_srcs := map Some vs @ rest\<rparr>))"
  using assms(3,4)
proof (induction "length us - i" arbitrary: i r)
  case 0
  then show ?case using assms(1,2) by (simp add: registered_addresses_def)
next
  case (Suc d)
  then have i: "i < length us" "[i..<length us] = i # [Suc i..<length us]" by (simp_all add: upt_conv_Cons)
  have l: "length vs = length us" using assms(1,2) by (simp add: registered_addresses_def)
  obtain out where out: "stunGetPublicIP (recv_stun env i) = Some (Inr out)"
    "vs ! i = (case stun_text out of None \<Rightarrow> us ! i | Some t \<Rightarrow> t)"
    using assms(1,2) i(1) by (auto simp: registered_addresses_def)
  have at: "recv_srcs r = map Some (take i vs) @ Some (us ! i) # map Some (drop (Suc i) us) @ rest"
    using Suc.prems(1) i(1) by (simp add: Cons_nth_drop_Suc [symmetric])
  have "public_address env i r = Some (Inr (r\<lparr>recv_srcs := (recv_srcs r)[i := Some (vs ! i)]\<rparr>))"
    using at i(1) l out by (simp add: public_address_def array_get_def nth_append)
  moreover have "(recv_srcs r)[i := Some (vs ! i)] = map Some (take (Suc i) vs @ drop (Suc i) us) @ rest"
    using at i(1) l by (simp add: list_update_append take_Suc_conv_app_nth)
  ultimately show ?case
    using Suc.hyps(1) [of "Suc i" "r\<lparr>recv_srcs := (recv_srcs r)[i := Some (vs ! i)]\<rparr>"] Suc.hyps(2) i by simp
qed

text \<open>The receiver up to its accept loop.\<close>

lemma receiver_starts:
  assumes ifs: "list_all inet_ok (recv_interfaces env)" "us = usable_addresses (recv_interfaces env)"
      "us \<noteq> []" "length us < 20" "length (hd us) < 16" "registered_addresses env use_stun us vs"
    and reg: "length (device_registration vs) < DEP_LENGTH" "first_answer (replicate DEP_LENGTH NUL) (recv_answer env) = Inr ok"
    and r: "recv_srcs r = replicate 20 None" "server_thread_ok env"
  shows "start_receiver env use_stun r = Some (Inr (r\<lparr>primary_ip := hd us,
        recv_srcs := map Some vs @ replicate (20 - length us) None, recv_numSrcs := int (length us),
        darshana_server_pthread := Some (server_command (hd us))\<rparr>, device_registration vs @ [NUL]))"
proof -
  let ?u = "map Some us @ replicate (20 - length us) None" and ?s = "map Some vs @ replicate (20 - length us) None"
  have l: "length vs = length us" "vs \<noteq> []" using ifs(3,6) by (auto simp: registered_addresses_def split: if_splits)
  have "?s = map Some vs @ None # replicate (19 - length us) None"
    using ifs(4) by (simp add: Cons_replicate_eq Suc_diff_le flip: replicate_Suc)
  then have "registration (int (length us)) ?s 1 = Inr (device_registration vs)"
    using registration_of_device [OF l(2), of "replicate (19 - length us) None"] l(1) ifs(4) reg(1) by simp
  then have reg': "register_to_manager (int (length us)) ?s 1 (recv_answer env) = Inr (device_registration vs @ [NUL], ok, 1)"
    using reg(2) by (simp add: register_to_manager_def)
  have p: "getPrimary (recv_interfaces env) x = Inr (hd us)" for x
    using getPrimary_exact [OF ifs(1)] ifs(3) unfolding ifs(2) [symmetric] by simp
  have i: "interfaces2_loop (recv_interfaces env) 0 (replicate 20 None) = Inr (?u, length us)"
    using interfaces2_exact [OF ifs(1), of 0 "replicate 20 None"] ifs(4) unfolding ifs(2) [symmetric] by simp
  let ?x = "r\<lparr>primary_ip := hd us, recv_srcs := ?u, recv_numSrcs := int (length us)\<rparr>"
  have st: "use_stun \<noteq> 0 \<Longrightarrow> crun_steps (public_address env) [0..<length us] ?x = Some (Inr (?x\<lparr>recv_srcs := ?s\<rparr>))"
    using public_addresses [OF ifs(6), of ?x 0 "replicate (20 - length us) None"] by simp
  show ?thesis
  proof (cases "use_stun = 0")
    case True
    with ifs(6) have "vs = us" by (simp add: registered_addresses_def)
    with p i reg' r ifs(5) True show ?thesis
      by (simp add: start_receiver_def getLocalInterfaces2_def run_darshana_server_recv_ok)
  next
    case False
    with p i reg' r ifs(5) st show ?thesis
      by (simp add: start_receiver_def getLocalInterfaces2_def run_darshana_server_recv_ok)
  qed
qed

text \<open>
  It starts one thread for everything that accept returns, also for a failure, and its set-up
  returns only if accept returns the descriptor 0.
\<close>

lemma receiver_serves:
  assumes "start_receiver env use_stun r = Some (Inr (r1, sent))"
  shows "((\<forall>n. accepted env n \<noteq> 0) \<longrightarrow> setup_receiver env use_stun r = None) \<and>
    (\<forall>n. accepted env n = 0 \<longrightarrow> (\<forall>k<n. accepted env k \<noteq> 0) \<longrightarrow>
      (\<exists>r'. setup_receiver env use_stun r = Some (Inr (r', sent)) \<and>
        primary_ip r' = primary_ip r1 \<and> recv_srcs r' = recv_srcs r1 \<and>
        darshana_server_pthread r' = darshana_server_pthread r1 \<and>
        data_threads r' = data_threads r1 @ map (accepted env) (filter (data_thread_ok env) [0..<n]) \<and>
        receiving_data_pthread r' = last (receiving_data_pthread r1 #
          map (\<lambda>k. Some (accepted env k)) (filter (data_thread_ok env) [0..<n]))))"
proof (intro conjI impI allI)
  assume "\<forall>n. accepted env n \<noteq> 0"
  then have "accept_loop env 0 r1 = None"
    using accept_loop_never [of env 0 r1] by (cases "accept_loop env 0 r1") auto
  then show "setup_receiver env use_stun r = None"
    by (simp add: setup_receiver_def assms init_socket_communication_with_clients_def)
next
  fix n
  assume n: "accepted env n = 0" "\<forall>k<n. accepted env k \<noteq> 0"
  from accept_loop_ends [OF n, of 0 r1]
  show "\<exists>r'. setup_receiver env use_stun r = Some (Inr (r', sent)) \<and>
        primary_ip r' = primary_ip r1 \<and> recv_srcs r' = recv_srcs r1 \<and>
        darshana_server_pthread r' = darshana_server_pthread r1 \<and>
        data_threads r' = data_threads r1 @ map (accepted env) (filter (data_thread_ok env) [0..<n]) \<and>
        receiving_data_pthread r' = last (receiving_data_pthread r1 #
          map (\<lambda>k. Some (accepted env k)) (filter (data_thread_ok env) [0..<n]))"
    by (auto simp: setup_receiver_def assms init_socket_communication_with_clients_def)
qed

lemma registration_full:
  assumes "length ips = 20"
  shows "registration 20 (map Some ips) 1 \<in> {Inl OutOfBounds, Inl BufferOverflow}"
proof -
  obtain a as where ips: "ips = a # as" using assms by (cases ips) auto
  have d: "dec_int 20 = ''20''" by code_simp
  have t: "append_tuple ''inp '' 20 (map Some ips) 1 = Inl BufferOverflow \<or> (\<exists>b. append_tuple ''inp '' 20 (map Some ips) 1 = Inr b)"
    by (simp add: append_tuple_def ips d strcpy_def strcat_def strcats_eq)
  have f: "append_interfaces (b @ ''inp '') (map Some ips) \<in> {Inl OutOfBounds, Inl BufferOverflow}" for b
    using assms by (intro append_interfaces_full) auto
  have a: "append_addresses ''inp '' b (map Some ips) 1 \<in> {Inl OutOfBounds, Inl BufferOverflow}" for b
    using f [of b] by (auto simp: append_addresses_def strcat_def)
  from t show ?thesis
  proof (elim disjE exE)
    fix b
    assume "append_tuple ''inp '' 20 (map Some ips) 1 = Inr b"
    with a [of b] show ?thesis by (auto simp: registration_def strcpy_def)
  qed (simp add: registration_def strcpy_def)
qed

text \<open>The limits of the receiver: without an address the registration dereferences a null pointer,
  and with twenty or more, which the array of pointers is declared for, it leaves the array.\<close>

theorem receiver_interface_limits:
  assumes "list_all inet_ok (recv_interfaces env)" "us = usable_addresses (recv_interfaces env)"
    and "recv_srcs r = replicate 20 None"
  shows "(us = [] \<longrightarrow> setup_receiver env 0 r = Some (Inl NullDeref)) \<and>
    (20 \<le> length us \<longrightarrow> setup_receiver env 0 r \<in> {Some (Inl OutOfBounds), Some (Inl BufferOverflow)})"
proof -
  have p: "getPrimary (recv_interfaces env) x = Inr (hd (us @ [x]))" for x
    using getPrimary_exact [OF assms(1)] unfolding assms(2) [symmetric] by simp
  have i: "interfaces2_loop (recv_interfaces env) 0 (replicate 20 None) =
      (if length us \<le> 20 then Inr (map Some us @ replicate (20 - length us) None, length us) else Inl OutOfBounds)"
    using interfaces2_exact [OF assms(1), of 0 "replicate 20 None"] unfolding assms(2) [symmetric] by simp
  have 0: "registration 0 (replicate 20 None) 1 = Inl NullDeref"
  proof -
    have "dec_int 0 = ''0''" by code_simp
    then show ?thesis by (simp add: registration_def append_tuple_def strcpy_def strcat_def)
  qed
  show ?thesis
  proof (intro conjI impI)
    assume "us = []"
    then show "setup_receiver env 0 r = Some (Inl NullDeref)"
      using p i 0 assms(3) by (simp add: setup_receiver_def start_receiver_def getLocalInterfaces2_def register_to_manager_def)
  next
    assume "20 \<le> length us"
    then consider "length us = 20" | "20 < length us" by linarith
    then show "setup_receiver env 0 r \<in> {Some (Inl OutOfBounds), Some (Inl BufferOverflow)}"
    proof cases
      case 1
      with p i registration_full [OF 1] assms(3) show ?thesis
        by (auto simp: setup_receiver_def start_receiver_def getLocalInterfaces2_def register_to_manager_def)
    next
      case 2
      with p i assms(3) show ?thesis by (simp add: setup_receiver_def start_receiver_def getLocalInterfaces2_def)
    qed
  qed
qed

definition sample_receiver :: receiver where
  "sample_receiver = \<lparr>recv_srcs = replicate 20 None, recv_numSrcs = 0, primary_ip = [], darshana_server_pthread = None,
     receiving_data_pthread = None, data_threads = []\<rparr>"

definition sample_receiver_env :: receiver_env where
  "sample_receiver_env = \<lparr>recv_interfaces = sample_interfaces, recv_stun = (\<lambda>i. sample_stun), recv_answer = [''OK\<newline>''],
     server_thread_ok = True, data_thread_ok = (\<lambda>t. True), accepted = (\<lambda>t. if t = 1 then - 1 else 0)(0 := 5)\<rparr>"

theorem receiver_interface_limits_witness:
  "setup_receiver (sample_receiver_env\<lparr>recv_interfaces := []\<rparr>) 0 sample_receiver = Some (Inl NullDeref) \<and>
   setup_receiver (sample_receiver_env\<lparr>recv_interfaces := replicate 21 (sample_interfaces ! 1)\<rparr>) 0 sample_receiver
     \<in> {Some (Inl OutOfBounds), Some (Inl BufferOverflow)}"
proof -
  have r: "recv_srcs sample_receiver = replicate 20 None" by (simp add: sample_receiver_def)
  let ?e = "sample_receiver_env\<lparr>recv_interfaces := []\<rparr>"
    and ?f = "sample_receiver_env\<lparr>recv_interfaces := replicate 21 (sample_interfaces ! 1)\<rparr>"
  have e: "list_all inet_ok (recv_interfaces ?e)" "[] = usable_addresses (recv_interfaces ?e)" by simp_all
  have f: "list_all inet_ok (recv_interfaces ?f)" "replicate 21 ''10.0.0.1'' = usable_addresses (recv_interfaces ?f)"
    by (simp_all add: list_all_iff sample_interfaces_def inet_ok_def usable_def)
  have n: "20 \<le> length (replicate 21 ''10.0.0.1'')" by simp
  from receiver_interface_limits [OF e r] have "setup_receiver ?e 0 sample_receiver = Some (Inl NullDeref)" by (elim conjE) simp
  moreover from receiver_interface_limits [OF f r] n
  have "setup_receiver ?f 0 sample_receiver \<in> {Some (Inl OutOfBounds), Some (Inl BufferOverflow)}" by blast
  ultimately show ?thesis ..
qed

end
