(* ===== verification/Receiver_Programs.thy ===== *)
theory Receiver_Programs
  imports Receiving_Handler
begin

text \<open>
  The programs of the receiver: \<^verbatim>\<open>main\<close> of \<^verbatim>\<open>MACHETE/SCMultipath/file_server.c\<close>, of
  \<^verbatim>\<open>hi_server.c\<close> and of \<^verbatim>\<open>hi_server_eval.c\<close>.  They differ in the function that they hand to
  the set-up, which runs it in a thread of its own for every connection; what those threads do
  is in the theories of the file transfer and of the echo.
\<close>

section \<open>Arguments\<close>

text \<open>\<^verbatim>\<open>struct receiver_args_struct_z\<close>.\<close>

record receiver_args =
  listen_port :: int
  proxy_ip :: string
  proxy_port :: int
  use_stun_public_ip :: int

definition receiver_arguments :: "string list \<Rightarrow> receiver_args res" where
  "receiver_arguments argv =
     rbind (argument argv 1) (\<lambda>mode.
     rbind (rbind (argument argv 2) (strcpy 20)) (\<lambda>depspace_proxy_ip.
     rbind (argument argv 3) (\<lambda>a3.
     rbind (rbind (argument argv 4) (strcpy 20)) (\<lambda>receiver_port.
     rbind (argument argv 5) (\<lambda>a5.
     rbind (strcpy 20 depspace_proxy_ip) (\<lambda>ip.
       Inr \<lparr>listen_port = atoi receiver_port, proxy_ip = ip, proxy_port = atoi a3,
         use_stun_public_ip = atoi a5\<rparr>))))))"

section \<open>Programs\<close>

text \<open>The state at the end, and the bytes sent to the manager.\<close>

definition file_server_main :: "receiver_env \<Rightarrow> string list \<Rightarrow> receiver \<Rightarrow> (receiver \<times> char list) res option" where
  "file_server_main env argv r =
     cbind (Some (receiver_arguments argv)) (\<lambda>a.
     cbind (machete_setup_receiver_spec env (use_stun_public_ip a) r) (\<lambda>(r1, sent).
       Some (rbind (machete_teardown_receiver_spec r1) (\<lambda>r2. Inr (r2, sent)))))"

definition hi_server_main :: "receiver_env \<Rightarrow> string list \<Rightarrow> receiver \<Rightarrow> (receiver \<times> char list) res option" where
  "hi_server_main env argv r =
     cbind (Some (receiver_arguments argv)) (\<lambda>a.
     cbind (machete_setup_receiver_spec env (use_stun_public_ip a) r) (\<lambda>(r1, sent).
       Some (rbind (machete_teardown_receiver_spec r1) (\<lambda>r2. Inr (r2, sent)))))"

definition hi_server_eval_main :: "receiver_env \<Rightarrow> string list \<Rightarrow> receiver \<Rightarrow> (receiver \<times> char list) res option" where
  "hi_server_eval_main env argv r =
     cbind (Some (receiver_arguments argv)) (\<lambda>a.
     cbind (machete_setup_receiver_spec env (use_stun_public_ip a) r) (\<lambda>(r1, sent).
       Some (rbind (machete_teardown_receiver_spec r1) (\<lambda>r2. Inr (r2, sent)))))"

section \<open>Properties\<close>

lemmas server_mains = file_server_main_def hi_server_main_def hi_server_eval_main_def

text \<open>C29.
  A server program with one to nineteen addresses, a primary address that fits the command for
  Darshana and an answer of the manager that ends in its array: before it serves, it has sent
  the manager exactly the registration of its addresses (with STUN, of the public addresses that
  the servers answer) and started the Darshana server on its primary address.  Then it serves,
  one thread for everything that accept returns; as long as accept does not return the
  descriptor 0 it never reaches its teardown, and when accept does, the teardown ends the
  program properly only if a thread was created before, for it cancels the last one created.\<close>

theorem server_programs_exact:
  assumes "list_all inet_ok (recv_interfaces env)" "us = usable_addresses (recv_interfaces env)"
      "us \<noteq> []" "length us < 20" "length (hd us) < 16" "registered_addresses env (use_stun_public_ip a) us vs"
    and "length (device_registration vs) < DEP_LENGTH" "first_answer (replicate DEP_LENGTH NUL) (recv_answer env) = Inr ok"
    and "recv_srcs r = replicate 20 None" "server_thread_ok env" "receiving_data_pthread r = None"
    and "receiver_arguments argv = Inr a"
    and "main \<in> {file_server_main, hi_server_main, hi_server_eval_main}"
  shows "(\<exists>r1. start_receiver env (use_stun_public_ip a) r = Some (Inr (r1, device_registration vs @ [NUL])) \<and>
      recv_srcs r1 = map Some vs @ replicate (20 - length us) None \<and>
      darshana_server_pthread r1 = Some (server_command (hd us))) \<and>
    ((\<forall>n. accepted env n \<noteq> 0) \<longrightarrow> main env argv r = None) \<and>
    (\<forall>n. accepted env n = 0 \<longrightarrow> (\<forall>k<n. accepted env k \<noteq> 0) \<longrightarrow>
      (if \<exists>k<n. data_thread_ok env k
       then \<exists>r'. main env argv r = Some (Inr (r', device_registration vs @ [NUL])) \<and>
         recv_srcs r' = map Some vs @ replicate (20 - length us) None \<and>
         darshana_server_pthread r' = Some (server_command (hd us)) \<and>
         data_threads r' = data_threads r @ map (accepted env) (filter (data_thread_ok env) [0..<n])
       else main env argv r = Some (Inl BadPointer)))"
proof (intro conjI allI impI)
  note st = receiver_starts [OF assms(1-10)]
  note sv = receiver_serves [OF st]
  have m: "main env argv r = cbind (setup_receiver env (use_stun_public_ip a) r)
      (\<lambda>(r1, sent). Some (rbind (teardown_receiver r1) (\<lambda>r2. Inr (r2, sent))))"
    using assms(12,13) by (auto simp: server_mains machete_setup_receiver_spec_def machete_teardown_receiver_spec_def)
  show "\<exists>r1. start_receiver env (use_stun_public_ip a) r = Some (Inr (r1, device_registration vs @ [NUL])) \<and>
      recv_srcs r1 = map Some vs @ replicate (20 - length us) None \<and>
      darshana_server_pthread r1 = Some (server_command (hd us))"
    using st by simp
  show "main env argv r = None" if "\<forall>n. accepted env n \<noteq> 0"
    using sv that m by simp
  fix n
  assume n: "accepted env n = 0" "\<forall>k<n. accepted env k \<noteq> 0"
  let ?ks = "filter (data_thread_ok env) [0..<n]"
  obtain r' where r': "setup_receiver env (use_stun_public_ip a) r = Some (Inr (r', device_registration vs @ [NUL]))"
    "recv_srcs r' = map Some vs @ replicate (20 - length us) None"
    "darshana_server_pthread r' = Some (server_command (hd us))"
    "data_threads r' = data_threads r @ map (accepted env) ?ks"
    "receiving_data_pthread r' = last (None # map (\<lambda>k. Some (accepted env k)) ?ks)"
    using sv [THEN conjunct2, rule_format, OF n(1)] n(2) assms(11) by auto
  have "receiving_data_pthread r' \<noteq> None \<longleftrightarrow> ?ks \<noteq> []"
    unfolding r'(5) by (cases ?ks rule: rev_cases) auto
  moreover have "?ks \<noteq> [] \<longleftrightarrow> (\<exists>k<n. data_thread_ok env k)" by (auto simp: filter_empty_conv)
  ultimately show "if \<exists>k<n. data_thread_ok env k
      then \<exists>r'. main env argv r = Some (Inr (r', device_registration vs @ [NUL])) \<and>
         recv_srcs r' = map Some vs @ replicate (20 - length us) None \<and>
         darshana_server_pthread r' = Some (server_command (hd us)) \<and>
         data_threads r' = data_threads r @ map (accepted env) ?ks
      else main env argv r = Some (Inl BadPointer)"
    using r'(1-4) m by (auto simp: teardown_receiver_def close_socket_communication_with_clients_def)
qed

theorem server_programs_exact_witness:
  "\<exists>r'. file_server_main sample_receiver_env [''server'', ''0'', ''127.0.0.1'', ''8888'', ''6000'', ''1''] sample_receiver =
      Some (Inr (r', device_registration [''192.0.2.33'', ''192.0.2.33''] @ [NUL])) \<and> data_threads r' = [5, - 1]"
proof -
  let ?us = "[''10.0.0.1'', ''10.0.1.1'']" and ?vs = "[''192.0.2.33'', ''192.0.2.33'']"
    and ?argv = "[''server'', ''0'', ''127.0.0.1'', ''8888'', ''6000'', ''1'']"
    and ?a = "\<lparr>listen_port = 6000, proxy_ip = ''127.0.0.1'', proxy_port = 8888, use_stun_public_ip = 1\<rparr>"
  have d: "length (device_registration ?vs) < DEP_LENGTH" by code_simp
  have h: "list_all inet_ok (recv_interfaces sample_receiver_env)" "?us = usable_addresses (recv_interfaces sample_receiver_env)"
    "?us \<noteq> []" "length ?us < 20" "length (hd ?us) < 16"
    by (simp_all add: sample_receiver_env_def sample_interfaces_def inet_ok_def usable_def)
  have v: "registered_addresses sample_receiver_env (use_stun_public_ip ?a) ?us ?vs"
    using sample_stun_answer by (auto simp: registered_addresses_def sample_receiver_env_def less_Suc_eq)
  have "atoi ''6000'' = 6000" "atoi ''8888'' = 8888" "atoi ''1'' = 1" by code_simp+
  then have g: "receiver_arguments ?argv = Inr ?a" by (simp add: receiver_arguments_def argument_def strcpy_def)
  have a: "first_answer (replicate DEP_LENGTH NUL) (recv_answer sample_receiver_env) = Inr (Some True)"
    by code_simp
  have b: "recv_srcs sample_receiver = replicate 20 None" "server_thread_ok sample_receiver_env"
    "receiving_data_pthread sample_receiver = None"
    by (simp_all add: sample_receiver_env_def sample_receiver_def)
  have t: "accepted sample_receiver_env 2 = 0" "\<forall>k<2. accepted sample_receiver_env k \<noteq> 0"
    "\<exists>k<2. data_thread_ok sample_receiver_env k"
    by (auto simp: sample_receiver_env_def less_2_cases_iff)
  obtain r' where "file_server_main sample_receiver_env ?argv sample_receiver = Some (Inr (r', device_registration ?vs @ [NUL]))"
    "data_threads r' = data_threads sample_receiver @
      map (accepted sample_receiver_env) (filter (data_thread_ok sample_receiver_env) [0..<2])"
    using server_programs_exact [OF h v d a b g insertI1, THEN conjunct2, THEN conjunct2, rule_format, OF t(1)] t(2,3) by auto
  then show ?thesis by (auto simp: sample_receiver_def sample_receiver_env_def numeral_2_eq_2)
qed

end
