(* ===== verification/Node_Main.thy ===== *)
theory Node_Main
  imports Overlay_Node Virtual_Interfaces Stun Depspace_Client
begin

text \<open>
  \<^verbatim>\<open>main\<close> of \<^verbatim>\<open>MACHETE/SCNodeCode/forwarding_handler.c\<close>: the overlay node finds its address,
  registers it, and starts to serve.
\<close>

section \<open>The node's address\<close>

text \<open>
  \<open>heap\<close> is what the allocated characters hold; the name of the interface is copied into an
  array of five characters.
\<close>

fun getPrimaryIP :: "string \<Rightarrow> ifaddrs list \<Rightarrow> string res" where
  "getPrimaryIP heap [] = Inr heap"
| "getPrimaryIP heap (ifa # ifas) =
     rbind (inet_address ifa) (\<lambda>a. case a of
       None \<Rightarrow> getPrimaryIP heap ifas
     | Some addr \<Rightarrow> rbind (strcpy 5 (ifa_name ifa)) (\<lambda>interface. strcpy 20 addr))"

section \<open>Starting the node\<close>

text \<open>
  What the calls return, the uninitialised memory, and the connections that \<^verbatim>\<open>start_overlay\<close>
  accepts; it has no way to return, so the result is the state in which it waits for the next
  one, with the text of the registration.
\<close>

record main_env =
  main_interfaces :: "ifaddrs list"
  main_stun :: stun_env
  main_answer :: stream
  main_heap :: string
  register_stack :: "char list"
  main_stack :: "char list"
  connections :: "stream list"

definition node_address :: "main_env \<Rightarrow> int \<Rightarrow> string res option" where
  "node_address env use_stun_server0 =
     (if use_stun_server0 \<noteq> 0
      then cbind (node_stunGetPublicIP (main_stun env)) (\<lambda>out.
        Some (Inr (case stun_text out of None \<Rightarrow> main_heap env | Some t \<Rightarrow> t)))
      else Some (rbind (getPrimaryIP (main_heap env) (main_interfaces env)) (strcpy 20)))"

definition node_main :: "main_env \<Rightarrow> string list \<Rightarrow> (char list \<times> node) res option" where
  "node_main env argv =
     cbind (Some (rbind (argument argv 1) (strcpy 20))) (\<lambda>manager_proxy_addr.
     cbind (Some (argument argv 2)) (\<lambda>manager_proxy_port.
     cbind (Some (argument argv 3)) (\<lambda>node_port.
     cbind (Some (argument argv 4)) (\<lambda>use_stun.
     cbind (node_address env (atoi use_stun)) (\<lambda>node_addr.
     cbind (Some (registerDep node_addr (register_stack env) (main_answer env))) (\<lambda>(sent, ok, ret).
     let n = \<lparr>overlay_addr = node_addr, buffer = main_stack env, darshana_client_pthread = None, open_sockets = 0,
                effects = [System ''echo 1 > /proc/sys/net/ipv4/ip_forward'']\<rparr> in
     cbind (Some (run_darshana_server node_addr n)) (\<lambda>n1.
     cbind (Some (start_overlay (connections env) n1)) (\<lambda>n2. Some (Inr (sent, n2))))))))))"

section \<open>Properties\<close>

lemma getPrimaryIP_exact:
  assumes "list_all inet_ok ifap"
  shows "getPrimaryIP heap ifap =
    (case filter usable ifap of [] \<Rightarrow> Inr heap
     | ifa # _ \<Rightarrow> if length (ifa_name ifa) < 5 then Inr (snd (the (ifa_addr ifa))) else Inl BufferOverflow)"
  using assms by (induction ifap) (auto simp: inet_address_ok strcpy_def inet_ok_def usable_def)

definition started_node :: "main_env \<Rightarrow> string \<Rightarrow> node" where
  "started_node env addr = \<lparr>overlay_addr = addr, buffer = main_stack env, darshana_client_pthread = None, open_sockets = 0,
     effects = [System ''echo 1 > /proc/sys/net/ipv4/ip_forward'',
       Run_Thread (''cd '' @ DARSHANA_RELATIVE_PATH @ ''; sh run-server_args.sh '' @ addr @ '' '' @ DARSHANA_SERVER_PORT @
         '' >> darshana-server.out &'')]\<rparr>"

text \<open>
  A node that has found its address registers it and starts, whatever the manager answers, as
  long as the answer is not longer than the registration.
\<close>

lemma node_starts:
  assumes "argv = [prog, proxy, port, node_port, use_stun]" "length proxy < 20"
    and "main_answer env = [] \<or> length (hd (main_answer env)) \<le> 10 + length addr"
    and "node_address env (atoi use_stun) = Some (Inr addr)" "length addr < 20"
  shows "node_main env argv =
    (case start_overlay (connections env) (started_node env addr) of Inl e \<Rightarrow> Some (Inl e)
       | Inr n \<Rightarrow> Some (Inr (''out node,'' @ addr @ ''\<newline>'', n)))"
proof -
  obtain ok where r: "registerDep addr (register_stack env) (main_answer env) = Inr (''out node,'' @ addr @ ''\<newline>'', ok, 1)"
    using registerDep_short_answer [OF assms(5,3)] by blast
  have s: "run_darshana_server addr \<lparr>overlay_addr = addr, buffer = main_stack env, darshana_client_pthread = None,
      open_sockets = 0, effects = [System ''echo 1 > /proc/sys/net/ipv4/ip_forward'']\<rparr> = Inr (started_node env addr)"
    using assms(5) by (simp add: run_darshana_server_def build_string_eq started_node_def emit_def DARSHANA_RELATIVE_PATH_def
        DARSHANA_SERVER_PORT_def)
  show ?thesis using r s assms
    by (cases "start_overlay (connections env) (started_node env addr)")
      (simp_all add: node_main_def argument_def strcpy_def Let_def)
qed

text \<open>With STUN it is the public address that the server answers.\<close>

lemma node_main_stun:
  assumes "argv = [prog, proxy, port, node_port, use_stun]" "length proxy < 20"
    and "main_answer env = [] \<or> length (hd (main_answer env)) \<le> 10 + length addr"
    and "atoi use_stun \<noteq> 0" "stunGetPublicIP (main_stun env) = Some (Inr out)" "stun_text out = Some addr" "length addr < 20"
  shows "node_main env argv =
    (case start_overlay (connections env) (started_node env addr) of Inl e \<Rightarrow> Some (Inl e)
       | Inr n \<Rightarrow> Some (Inr (''out node,'' @ addr @ ''\<newline>'', n)))"
proof (rule node_starts [OF assms(1-3) _ assms(7)])
  show "node_address env (atoi use_stun) = Some (Inr addr)"
    using node_stun_text [OF assms(5)] assms(4,6) by (auto simp: node_address_def)
qed

text \<open>C30.
  Without STUN a node registers the address of its first IPv4 interface other than the
  loopback, enables forwarding, runs the Darshana server and serves its connections, but only
  if the name of that interface has at most four characters: with a name such as wlan0 or
  enp0s3 the array for it overflows before anything is done.  The manager may close without an
  answer, or answer anything that is not longer than the registration itself (ten characters
  and the address), such as its OK line; its answer changes nothing.\<close>

theorem node_main_exact:
  assumes "list_all inet_ok (main_interfaces env)" "filter usable (main_interfaces env) = ifa # rest"
    and "argv = [prog, proxy, port, node_port, use_stun]" "length proxy < 20" "atoi use_stun = 0"
    and "main_answer env = [] \<or> length (hd (main_answer env)) \<le> 10 + length (snd (the (ifa_addr ifa)))"
  shows "node_main env argv =
    (if length (ifa_name ifa) < 5
     then (case start_overlay (connections env) (started_node env (snd (the (ifa_addr ifa)))) of
             Inl e \<Rightarrow> Some (Inl e)
           | Inr n \<Rightarrow> Some (Inr (''out node,'' @ snd (the (ifa_addr ifa)) @ ''\<newline>'', n)))
     else Some (Inl BufferOverflow))"
proof -
  let ?a = "snd (the (ifa_addr ifa))"
  have "ifa \<in> set (filter usable (main_interfaces env))" unfolding assms(2) by simp
  then have "ifa \<in> set (main_interfaces env)" "usable ifa" by simp_all
  then have len: "length ?a < 20" using assms(1) by (auto simp: list_all_iff inet_ok_def usable_def)
  have g: "getPrimaryIP (main_heap env) (main_interfaces env) =
      (if length (ifa_name ifa) < 5 then Inr ?a else Inl BufferOverflow)"
    unfolding getPrimaryIP_exact [OF assms(1)] assms(2) by simp
  show ?thesis
  proof (cases "length (ifa_name ifa) < 5")
    case False
    then show ?thesis using g assms(3-5)
      by (simp add: node_main_def node_address_def argument_def strcpy_def)
  next
    case True
    then have "node_address env (atoi use_stun) = Some (Inr ?a)"
      using g len assms(5) by (simp add: node_address_def strcpy_def)
    from node_starts [OF assms(3,4,6) this len] True show ?thesis by simp
  qed
qed

definition sample_main_env :: main_env where
  "sample_main_env = \<lparr>main_interfaces = sample_interfaces, main_stun = sample_stun, main_answer = [''OK\<newline>''], main_heap = [],
     register_stack = replicate 1024 (CHR ''u''), main_stack = replicate 512 (CHR ''u''), connections = []\<rparr>"

theorem node_main_exact_witness:
  "node_main sample_main_env [''on'', ''127.0.0.1'', ''8888'', ''5000'', ''0''] =
     Some (Inr (''out node,'' @ ''10.0.0.1'' @ ''\<newline>'', started_node sample_main_env ''10.0.0.1'')) \<and>
   node_main (sample_main_env\<lparr>main_interfaces := [\<lparr>ifa_name = ''wlan0'', ifa_addr = Some (2, ''10.0.0.1'')\<rparr>]\<rparr>)
     [''on'', ''127.0.0.1'', ''8888'', ''5000'', ''0''] = Some (Inl BufferOverflow)"
proof -
  have z: "atoi ''0'' = 0" by code_simp
  show ?thesis
    using node_main_exact [of sample_main_env "sample_interfaces ! 1" "[sample_interfaces ! 3]", OF _ _ refl _ z]
      node_main_exact [of "sample_main_env\<lparr>main_interfaces := [\<lparr>ifa_name = ''wlan0'', ifa_addr = Some (2, ''10.0.0.1'')\<rparr>]\<rparr>"
        "\<lparr>ifa_name = ''wlan0'', ifa_addr = Some (2, ''10.0.0.1'')\<rparr>" "[]", OF _ _ refl _ z]
    by (simp add: sample_main_env_def sample_interfaces_def inet_ok_def usable_def start_overlay_def)
qed

end
