(* ===== verification/Parse_Hijack.thy ===== *)
theory Parse_Hijack
  imports Alerts_Receiver
begin

text \<open>
  \<^verbatim>\<open>MACHETE/SCMultipath/dar/testing_wout_socket/parse_hijack.c\<close>: a program that feeds the
  alerts given as its arguments to the modules of the alert receiver, and prints the history,
  all paths and the hijacked ones.
\<close>

section \<open>The program\<close>

text \<open>The three functions that \<^verbatim>\<open>init\<close> calls, and the line that the last one prints.\<close>

definition init_modules :: "alerts_module \<Rightarrow> paths_module \<Rightarrow> (alerts_module \<times> paths_module \<times> string) res option" where
  "init_modules am pm =
     cbind (init_test_path_values (init_monitored_paths_head pm)) (\<lambda>pm'.
       Some (Inr (init_alerts_history_head am, pm', ''-> Inserting test paths...'' @ [CHR 0x0A])))"

text \<open>The loop over the arguments, each with the time at which it is parsed.\<close>

fun parse_arguments :: "(tm \<times> string) list \<Rightarrow> alerts_module \<Rightarrow> paths_module \<Rightarrow> (alerts_module \<times> paths_module) res option" where
  "parse_arguments [] am pm = Some (Inr (am, pm))"
| "parse_arguments ((now, arg) # es) am pm =
     cbind (Some (parse_hijack_alert now arg)) (\<lambda>alert_parsed.
     cbind (save_hijack_alert am alert_parsed) (\<lambda>am'.
     cbind (analyse_hijack_alert pm alert_parsed) (\<lambda>pm'.
       parse_arguments es am' pm')))"

definition parse_hijack_main :: "tm list \<Rightarrow> string list \<Rightarrow> alerts_module \<Rightarrow> paths_module \<Rightarrow> string res option" where
  "parse_hijack_main clock argv am pm =
     cbind (init_modules am pm) (\<lambda>(am1, pm1, out).
     cbind (parse_arguments (zip clock (tl argv)) am1 pm1) (\<lambda>(am2, pm2).
     cbind (show_all_hijack_alerts am2) (\<lambda>alerts_out.
     cbind (show_all_paths pm2) (\<lambda>paths_out.
     cbind (show_hijacked_paths pm2 1) (\<lambda>hijacked_out.
       Some (Inr (out @ ''-> Show hijacking alerts'' @ [CHR 0x0A] @ alerts_out @
         ''-> Show all path status'' @ [CHR 0x0A] @ paths_out @
         ''-----------------------------------------------'' @ [CHR 0x0A] @
         ''Showing paths that are wer not hijacked yet!!!!'' @ [CHR 0x0A] @
         ''-----------------------------------------------'' @ [CHR 0x0A] @ hijacked_out)))))))"

section \<open>Lemmas\<close>

definition argument_alert :: "tm \<times> string \<Rightarrow> hijack_alert" where
  "argument_alert e =
     (let fs = str_fields '','' (snd e) in
      \<lparr>time_info = Some (fst e), alert_type = fs ! 0, source_ip = fs ! 1, destination_ip = fs ! 2, metric_name = fs ! 3\<rparr>)"

definition argument_step :: "tm \<times> string \<Rightarrow> path_status list \<Rightarrow> path_status list" where
  "argument_step e = spec_analyse (fst e) (source_ip (argument_alert e)) (destination_ip (argument_alert e))"

lemma argument_parsed:
  "4 \<le> length (str_fields '','' (snd e)) \<Longrightarrow> parse_hijack_alert (fst e) (snd e) = Inr (argument_alert e)"
  by (auto simp: parse_hijack_alert_fields argument_alert_def Let_def split: list.splits)

lemma arguments_refine:
  assumes "alert_history am as" "path_list pm ps" "\<forall>e\<in>set es. 4 \<le> length (str_fields '','' (snd e))"
  shows "\<exists>am' pm'. parse_arguments es am pm = Some (Inr (am', pm')) \<and>
    alert_history am' (as @ map argument_alert es) \<and> path_list pm' (fold argument_step es ps)"
  using assms
proof (induction es arbitrary: am pm as ps)
  case (Cons e es)
  have p: "parse_hijack_alert (fst e) (snd e) = Inr (argument_alert e)" using Cons.prems(3) argument_parsed by simp
  obtain am1 where am1: "save_hijack_alert am (argument_alert e) = Some (Inr am1)"
    "alert_history am1 (as @ [argument_alert e])"
    using save_hijack_alert_appends [OF Cons.prems(1)] by blast
  have "time_info (argument_alert e) = Some (fst e)" by (simp add: argument_alert_def Let_def)
  from analyse_refines [OF Cons.prems(2) this] obtain pm1 where
    pm1: "analyse_hijack_alert pm (argument_alert e) = Some (Inr pm1)" "path_list pm1 (argument_step e ps)"
    unfolding argument_step_def by blast
  from Cons.IH [OF am1(2) pm1(2)] Cons.prems(3) p am1(1) pm1(1) show ?case by (cases e) auto
qed simp

lemma history_printed:
  assumes "alert_history am (map argument_alert es)"
  shows "show_all_hijack_alerts am = Some (Inr (concat (map (\<lambda>e. projr (show_hijack_alert_simple (argument_alert e))) es)))"
proof -
  obtain axs where axs: "llist (alerts_mem am) (alerts_history_head am) axs" "map snd axs = map argument_alert es"
    using assms by (auto simp: alert_history_def)
  have "time_info a \<noteq> None" if "a \<in> snd ` set axs" for a
  proof -
    have "a \<in> set (map snd axs)" using that by simp
    then show ?thesis unfolding axs(2) by (auto simp: argument_alert_def Let_def)
  qed
  then have "show_all_hijack_alerts am = Some (Inr (concat (map (\<lambda>a. projr (show_hijack_alert_simple a)) (map snd axs))))"
    using show_all_nodes_h_llist [OF axs(1), of "[]"] by (simp add: show_all_hijack_alerts_def comp_def)
  then show ?thesis unfolding axs(2) by (simp add: comp_def)
qed

definition fixed_paths :: "path_status list" where
  "fixed_paths = [new_path_status ''10.23.44.1'' ''101.0.2.1'' ''30.123.2.1'',
     new_path_status ''10.23.44.2'' ''10.0.2.30'' ''30.123.2.2'',
     new_path_status ''10.23.44.3'' ''101.0.2.3'' ''30.123.2.3'']"

lemma test_paths_saved:
  assumes "path_list m []"
  shows "\<exists>m'. init_test_path_values m = Some (Inr m') \<and> path_list m' fixed_paths"
proof -
  obtain m1 where m1: "save_path_status m (new_path_status ''10.23.44.1'' ''101.0.2.1'' ''30.123.2.1'') = Some (Inr m1)"
    "path_list m1 ([] @ [new_path_status ''10.23.44.1'' ''101.0.2.1'' ''30.123.2.1''])"
    using save_path_status_appends [OF assms] by blast
  obtain m2 where m2: "save_path_status m1 (new_path_status ''10.23.44.2'' ''10.0.2.30'' ''30.123.2.2'') = Some (Inr m2)"
    "path_list m2 (([] @ [new_path_status ''10.23.44.1'' ''101.0.2.1'' ''30.123.2.1'']) @
      [new_path_status ''10.23.44.2'' ''10.0.2.30'' ''30.123.2.2''])"
    using save_path_status_appends [OF m1(2)] by blast
  obtain m3 where m3: "save_path_status m2 (new_path_status ''10.23.44.3'' ''101.0.2.3'' ''30.123.2.3'') = Some (Inr m3)"
    "path_list m3 ((([] @ [new_path_status ''10.23.44.1'' ''101.0.2.1'' ''30.123.2.1'']) @
      [new_path_status ''10.23.44.2'' ''10.0.2.30'' ''30.123.2.2'']) @
      [new_path_status ''10.23.44.3'' ''101.0.2.3'' ''30.123.2.3''])"
    using save_path_status_appends [OF m2(2)] by blast
  then show ?thesis using m1(1) m2(1) by (simp add: init_test_path_values_def fixed_paths_def)
qed

section \<open>Properties\<close>

text \<open>For arguments with at least four fields the program prints, after its headings, one line per
  alert in order, then all three paths and then those of them that are marked as hijacked,
  although the last heading announces those that are not.\<close>

theorem parse_hijack_exact:
  assumes "wf_store (alerts_mem am)" "wf_store (paths_mem pm)" "length clock = length args"
    and "\<forall>a\<in>set args. 4 \<le> length (str_fields '','' a)" "ps = fold argument_step (zip clock args) fixed_paths"
  shows "parse_hijack_main clock (prog # args) am pm = Some (Inr (
     ''-> Inserting test paths...'' @ [CHR 0x0A] @ ''-> Show hijacking alerts'' @ [CHR 0x0A] @
     concat (map (\<lambda>e. projr (show_hijack_alert_simple (argument_alert e))) (zip clock args)) @
     ''-> Show all path status'' @ [CHR 0x0A] @ concat (map (\<lambda>p. projr (show_path_status_structured p)) ps) @
     ''-----------------------------------------------'' @ [CHR 0x0A] @
     ''Showing paths that are wer not hijacked yet!!!!'' @ [CHR 0x0A] @
     ''-----------------------------------------------'' @ [CHR 0x0A] @
     concat (map (\<lambda>p. projr (show_path_status_structured p)) (filter (\<lambda>p. was_hijacked p = 1) ps))))"
proof -
  obtain pm1 where pm1: "init_test_path_values (init_monitored_paths_head pm) = Some (Inr pm1)" "path_list pm1 fixed_paths"
    using test_paths_saved [OF path_list_init [OF assms(2)]] by blast
  have "\<forall>e\<in>set (zip clock args). 4 \<le> length (str_fields '','' (snd e))"
    using assms(4) by (auto dest: set_zip_rightD)
  from arguments_refine [OF alert_history_init [OF assms(1)] pm1(2) this] obtain am2 pm2 where
    r: "parse_arguments (zip clock args) (init_alerts_history_head am) pm1 = Some (Inr (am2, pm2))"
    "alert_history am2 (map argument_alert (zip clock args))" "path_list pm2 ps"
    unfolding assms(5) by auto
  note a = history_printed [OF r(2)]
  obtain bxs where bxs: "llist (paths_mem pm2) (monitored_paths_list_head pm2) bxs" "map snd bxs = ps"
    using r(3) by (auto simp: path_list_def)
  have p: "show_all_paths pm2 = Some (Inr (concat (map (\<lambda>p. projr (show_path_status_structured p)) ps)))"
    using show_all_nodes_p_llist [OF bxs(1), of "[]"] unfolding bxs(2) [symmetric] by (simp add: show_all_paths_def comp_def)
  show ?thesis
    using pm1(1) r(1) a p show_hijacked_exact [OF r(3), of 1] by (simp add: parse_hijack_main_def init_modules_def)
qed

theorem parse_hijack_exact_witness:
  "\<exists>out. parse_hijack_main [sample_tm] [''parse_hijack'', ''Hijack,101.0.2.1,10.0.2.45,lat'']
     (alerts_mod empty_dar) (paths_mod empty_dar) = Some (Inr out)"
proof -
  have "\<forall>a\<in>set [''Hijack,101.0.2.1,10.0.2.45,lat'']. 4 \<le> length (str_fields '','' a)" by (simp add: str_fields_def)
  from parse_hijack_exact [OF _ _ _ this refl, of "alerts_mod empty_dar" "paths_mod empty_dar" "[sample_tm]" "''parse_hijack''"]
  show ?thesis by (simp add: empty_dar_def del: append.simps)
qed

end
