(* ===== verification/Standalone_Dar.thy ===== *)
theory Standalone_Dar
  imports Alerts_Receiver
begin

text \<open>
  The alert receiver that Darshana comes with, \<^verbatim>\<open>Darshana/dar/alerts_receiver.c\<close> and
  \<^verbatim>\<open>monitored_paths_handler.c\<close>: a program of its own over three fixed paths, which prints all
  of them after every alert.  Its alerts are those of the sender's receiver; its paths differ
  in that the two times of a new one are not initialised.
\<close>

section \<open>Paths\<close>

text \<open>
  A pointer to a time can be null, point to one, or be whatever the allocated memory held.
\<close>

datatype time_ptr = Null | Wild | Points tm

record surveilled_path =
  sp_previous :: time_ptr
  sp_last :: time_ptr
  sp_source :: string
  sp_relay :: string
  sp_destination :: string
  sp_hijacked :: int

record surveilled_module =
  sp_mem :: "surveilled_path store"
  sp_head :: "addr option"

text \<open>\<open>junk\<close> is what the memory of the two pointers holds.\<close>

definition new_path_status_d :: "time_ptr \<times> time_ptr \<Rightarrow> string \<Rightarrow> string \<Rightarrow> string \<Rightarrow> surveilled_path" where
  "new_path_status_d junk source_ip0 relay_ip0 destination_ip0 =
     \<lparr>sp_previous = fst junk, sp_last = snd junk, sp_source = source_ip0, sp_relay = relay_ip0,
      sp_destination = destination_ip0, sp_hijacked = 0\<rparr>"

section \<open>The linked list\<close>

definition new_node_d :: "surveilled_path store \<Rightarrow> surveilled_path \<Rightarrow> surveilled_path store \<times> addr" where
  "new_node_d st path_status_structure = malloc_node st \<lparr>item = path_status_structure, nxt = None\<rparr>"

definition insert_begin_d ::
    "surveilled_path store \<Rightarrow> addr option \<Rightarrow> surveilled_path \<Rightarrow> surveilled_path store \<times> addr option" where
  "insert_begin_d st head path_status_structure =
     (let (st', x) = new_node_d st path_status_structure in
      (write_node st' x \<lparr>item = path_status_structure, nxt = head\<rparr>, Some x))"

definition insert_end_d ::
    "surveilled_path store \<Rightarrow> addr option \<Rightarrow> surveilled_path \<Rightarrow> (surveilled_path store \<times> addr option) res option" where
  "insert_end_d st head path_status_structure =
     (case head of
        None \<Rightarrow> (let (st', x) = new_node_d st path_status_structure in Some (Inr (st', Some x)))
      | Some h \<Rightarrow>
          cbind (walk_last st h) (\<lambda>x.
            let (st', y) = new_node_d st path_status_structure in
            cbind (Some (load st' x)) (\<lambda>nd.
              Some (Inr (write_node st' x (nd\<lparr>nxt := Some y\<rparr>), head)))))"

interpretation surveilled: c_list new_node_d insert_begin_d insert_end_d
  by (rule c_listI) (simp_all add: new_node_d_def insert_begin_d_def insert_end_d_def)

definition init_monitored_paths_head_d :: "surveilled_module \<Rightarrow> surveilled_module" where
  "init_monitored_paths_head_d m = m\<lparr>sp_head := None\<rparr>"

definition save_path_status_d :: "surveilled_module \<Rightarrow> surveilled_path \<Rightarrow> surveilled_module res option" where
  "save_path_status_d m path_status_struct =
     cbind (insert_end_d (sp_mem m) (sp_head m) path_status_struct) (\<lambda>(st, head).
       Some (Inr (m\<lparr>sp_mem := st, sp_head := head\<rparr>)))"

definition init_test_path_values_d :: "time_ptr \<times> time_ptr \<Rightarrow> surveilled_module \<Rightarrow> (surveilled_module \<times> string) res option" where
  "init_test_path_values_d junk m =
     cbind (save_path_status_d m (new_path_status_d junk ''10.23.44.1'' ''101.0.2.1'' ''30.123.2.1'')) (\<lambda>m1.
     cbind (save_path_status_d m1 (new_path_status_d junk ''10.23.44.2'' ''10.0.2.30'' ''30.123.2.2'')) (\<lambda>m2.
     cbind (save_path_status_d m2 (new_path_status_d junk ''10.23.44.3'' ''101.0.2.3'' ''30.123.2.3'')) (\<lambda>m3.
       Some (Inr (m3, ''-> Inserting test paths...'' @ [CHR 0x0A])))))"

section \<open>Printing\<close>

text \<open>A time through a pointer, or dashes for a null one.\<close>

definition show_time_d :: "time_ptr \<Rightarrow> string res" where
  "show_time_d p =
     (case p of
        Null \<Rightarrow> Inr (''-----------'' @ [CHR 0x0A])
      | Wild \<Rightarrow> Inl BadPointer
      | Points t \<Rightarrow> rbind (get_time_custom_string (Some t)) (\<lambda>s. Inr (s @ [CHR 0x0A])))"

definition show_path_status :: "surveilled_path \<Rightarrow> string res" where
  "show_path_status path =
     rbind (show_time_d (sp_previous path)) (\<lambda>before.
     rbind (show_time_d (sp_last path)) (\<lambda>last.
       Inr (''-----------> Path Status <---------- '' @ [CHR 0x0A] @
            ''Before Last Timestamp: '' @ before @
            ''Last Timestamp: '' @ last @
            ''Path = SourceIP -> RelayIP -> DestinationIP:'' @ [CHR 0x0A] @
            ''= '' @ sp_source path @ '' -> '' @ sp_relay path @ '' -> '' @ sp_destination path @ [CHR 0x0A] @
            ''Was hijacked? '' @ (if sp_hijacked path = 1 then ''YES'' else ''NO'') @ [CHR 0x0A])))"

partial_function (option) show_all_nodes_d ::
    "surveilled_path store \<Rightarrow> addr option \<Rightarrow> string \<Rightarrow> string res option" where
  "show_all_nodes_d st node out =
     (case node of
        None \<Rightarrow> Some (Inr out)
      | Some x \<Rightarrow>
          (case cells st x of
             None \<Rightarrow> Some (Inl BadPointer)
           | Some nd \<Rightarrow>
               (case show_path_status (item nd) of
                  Inl e \<Rightarrow> Some (Inl e)
                | Inr lines \<Rightarrow> show_all_nodes_d st (nxt nd) (out @ lines))))"

definition show_all_paths_d :: "surveilled_module \<Rightarrow> string res option" where
  "show_all_paths_d m = show_all_nodes_d (sp_mem m) (sp_head m) []"

section \<open>Alerts meet paths\<close>

definition lookup_path_by_relay_ip_recursive_d ::
    "surveilled_path store \<Rightarrow> addr option \<Rightarrow> string \<Rightarrow> addr option res option" where
  "lookup_path_by_relay_ip_recursive_d st starting_point relay =
     walk_find st (\<lambda>it. sp_relay it = relay) starting_point"

definition lookup_path_by_relay_ip_d :: "surveilled_module \<Rightarrow> string \<Rightarrow> addr option res option" where
  "lookup_path_by_relay_ip_d m relay = lookup_path_by_relay_ip_recursive_d (sp_mem m) (sp_head m) relay"

definition lookup_path_by_hijack_value_recursive_d ::
    "surveilled_path store \<Rightarrow> addr option \<Rightarrow> int \<Rightarrow> addr option res option" where
  "lookup_path_by_hijack_value_recursive_d st starting_point v =
     walk_find st (\<lambda>it. sp_hijacked it = v) starting_point"

definition lookup_path_by_hijack_value_d :: "surveilled_module \<Rightarrow> int \<Rightarrow> addr option res option" where
  "lookup_path_by_hijack_value_d m v = lookup_path_by_hijack_value_recursive_d (sp_mem m) (sp_head m) v"

text \<open>The loop of \<^verbatim>\<open>show_hijacked_paths\<close>, entered with the node of the last lookup.\<close>

partial_function (option) show_hijacked_loop_d ::
    "surveilled_path store \<Rightarrow> int \<Rightarrow> addr option \<Rightarrow> string \<Rightarrow> string res option" where
  "show_hijacked_loop_d st v path_node out =
     (case path_node of
        None \<Rightarrow> Some (Inr out)
      | Some x \<Rightarrow>
          (case cells st x of
             None \<Rightarrow> Some (Inl BadPointer)
           | Some nd \<Rightarrow>
               (case show_path_status (item nd) of
                  Inl e \<Rightarrow> Some (Inl e)
                | Inr lines \<Rightarrow>
                    cbind (lookup_path_by_hijack_value_recursive_d st (nxt nd) v) (\<lambda>next_node.
                      show_hijacked_loop_d st v next_node (out @ lines)))))"

definition show_hijacked_paths_d :: "surveilled_module \<Rightarrow> int \<Rightarrow> string res option" where
  "show_hijacked_paths_d m v =
     cbind (lookup_path_by_hijack_value_d m v) (\<lambda>path_node. show_hijacked_loop_d (sp_mem m) v path_node [])"

definition update_path_status_d ::
    "surveilled_path store \<Rightarrow> addr \<Rightarrow> hijack_alert \<Rightarrow> surveilled_path store res" where
  "update_path_status_d st path_link alert =
     rbind (load st path_link) (\<lambda>nd.
       let it = (item nd)\<lparr>sp_hijacked := 1\<rparr> in
       if sp_last it = Null then
         rbind (rbind (duplicate_time_structure (time_info alert)) nonnull) (\<lambda>t.
           Inr (write_node st path_link (nd\<lparr>item := it\<lparr>sp_last := Points t\<rparr>\<rparr>)))
       else
         rbind (rbind (duplicate_time_structure (time_info alert)) nonnull) (\<lambda>t.
           Inr (write_node st path_link (nd\<lparr>item := it\<lparr>sp_previous := sp_last it, sp_last := Points t\<rparr>\<rparr>))))"

definition analyse_hijack_alert_d :: "surveilled_module \<Rightarrow> hijack_alert \<Rightarrow> surveilled_module res option" where
  "analyse_hijack_alert_d m alert =
     cbind (lookup_path_by_relay_ip_d m (source_ip alert)) (\<lambda>path_node.
       case path_node of
         Some x \<Rightarrow>
           cbind (Some (update_path_status_d (sp_mem m) x alert)) (\<lambda>st. Some (Inr (m\<lparr>sp_mem := st\<rparr>)))
       | None \<Rightarrow>
           cbind (lookup_path_by_relay_ip_d m (destination_ip alert)) (\<lambda>path_node'.
             case path_node' of
               Some x \<Rightarrow>
                 cbind (Some (update_path_status_d (sp_mem m) x alert)) (\<lambda>st. Some (Inr (m\<lparr>sp_mem := st\<rparr>)))
             | None \<Rightarrow> Some (Inr m)))"

section \<open>The program\<close>

text \<open>The two global lists.\<close>

record standalone =
  history :: alerts_module
  surveilled :: surveilled_module

definition init_standalone :: "time_ptr \<times> time_ptr \<Rightarrow> standalone \<Rightarrow> (standalone \<times> string) res option" where
  "init_standalone junk d =
     cbind (init_test_path_values_d junk (init_monitored_paths_head_d (surveilled d))) (\<lambda>(m, out).
       Some (Inr (d\<lparr>history := init_alerts_history_head (history d), surveilled := m\<rparr>, out)))"

text \<open>The new state, and what \<^verbatim>\<open>show_all_paths\<close> prints.\<close>

definition handle_client_alert_d :: "tm \<Rightarrow> string \<Rightarrow> standalone \<Rightarrow> (standalone \<times> string) res option" where
  "handle_client_alert_d now buffer d =
     cbind (Some (parse_hijack_alert now buffer)) (\<lambda>alert_parsed.
     cbind (save_hijack_alert (history d) alert_parsed) (\<lambda>am.
     cbind (analyse_hijack_alert_d (surveilled d) alert_parsed) (\<lambda>pm.
     cbind (show_all_paths_d pm) (\<lambda>out.
       Some (Inr (d\<lparr>history := am, surveilled := pm\<rparr>, out))))))"

definition handle_darshana_client :: "tm \<Rightarrow> read_result \<Rightarrow> standalone \<Rightarrow> (standalone \<times> string) res option" where
  "handle_darshana_client now r d =
     (case r of
        ReadError \<Rightarrow> Some (Inl (Exit 1))
      | ReadData bytes \<Rightarrow>
          cbind (Some (c_string (read_buffer bytes))) (\<lambda>buffer.
          cbind (Some (duplicate_string (Some buffer))) (\<lambda>alert_string.
          cbind (handle_client_alert_d now alert_string d) (\<lambda>(d', out).
            Some (Inr (d', ''|!ALERT!| -> '' @ buffer @ [CHR 0x0A] @ out))))))"

text \<open>
  The loop of \<^verbatim>\<open>main\<close>, which repeats the text of \<^verbatim>\<open>handle_darshana_client\<close>; it has no end of
  its own, so after the last datagram it waits in \<^verbatim>\<open>read\<close>.
\<close>

fun standalone_loop :: "(tm \<times> read_result) list \<Rightarrow> standalone \<Rightarrow> string \<Rightarrow> (standalone \<times> string) res option" where
  "standalone_loop [] d out = Some (Inr (d, out))"
| "standalone_loop ((now, r) # es) d out =
     cbind (handle_darshana_client now r d) (\<lambda>(d', lines). standalone_loop es d' (out @ lines))"

text \<open>What the calls return, what the memory holds, and what each \<^verbatim>\<open>read\<close> returns.\<close>

record standalone_env =
  malloc_junk :: "time_ptr \<times> time_ptr"
  alert_socket :: int
  alert_bind :: int
  reads :: "(tm \<times> read_result) list"

definition start_lines :: "string \<Rightarrow> string \<Rightarrow> string" where
  "start_lines ip port =
     ''|INFO| Received arguments: ip -> '' @ ip @ '' and port -> '' @ port @ '' '' @ [CHR 0x0A] @
     ''|INFO| Creating UDP socket ... '' @ [CHR 0x0A] @
     ''|INFO| Binding socket to [IP => '' @ ip @ '', Port => '' @ dec_int (atoi port) @ ''] '' @ [CHR 0x0A] @
     ''|INFO| Ready to receive alerts ... '' @ [CHR 0x0A]"

definition standalone_main :: "standalone_env \<Rightarrow> string list \<Rightarrow> standalone \<Rightarrow> (standalone \<times> string) res option" where
  "standalone_main env argv d =
     cbind (init_standalone (malloc_junk env) d) (\<lambda>(d1, out).
     cbind (Some (guard (3 \<le> length argv) (Exit 1))) (\<lambda>_.
     cbind (Some (rbind (argument argv 1) (strcpy 20))) (\<lambda>my_ip.
     cbind (Some (argument argv 2)) (\<lambda>port.
     cbind (Some (guard (0 \<le> alert_socket env) (Exit 1))) (\<lambda>_.
     cbind (Some (guard (0 \<le> alert_bind env) (Exit 1))) (\<lambda>_.
       standalone_loop (reads env) d1 (out @ start_lines my_ip port)))))))"

section \<open>The paths as a list\<close>

definition surveilled_list :: "surveilled_module \<Rightarrow> surveilled_path list \<Rightarrow> bool" where
  "surveilled_list m qs \<longleftrightarrow>
     wf_store (sp_mem m) \<and> (\<exists>axs. llist (sp_mem m) (sp_head m) axs \<and> map snd axs = qs)"

definition mark_surveilled :: "tm \<Rightarrow> surveilled_path \<Rightarrow> surveilled_path" where
  "mark_surveilled t q =
     (if sp_last q = Null then q\<lparr>sp_hijacked := 1, sp_last := Points t\<rparr>
      else q\<lparr>sp_hijacked := 1, sp_previous := sp_last q, sp_last := Points t\<rparr>)"

definition surveil_alert :: "tm \<Rightarrow> hijack_alert \<Rightarrow> surveilled_path list \<Rightarrow> surveilled_path list" where
  "surveil_alert t alert qs =
     (if source_ip alert \<in> sp_relay ` set qs then update_first (\<lambda>q. sp_relay q = source_ip alert) (mark_surveilled t) qs
      else update_first (\<lambda>q. sp_relay q = destination_ip alert) (mark_surveilled t) qs)"

definition surveil :: "tm \<times> char list \<Rightarrow> surveilled_path list \<Rightarrow> surveilled_path list" where
  "surveil e = surveil_alert (fst e) (alert_of e)"

lemma save_path_status_d_appends:
  assumes "surveilled_list m qs"
  shows "\<exists>m'. save_path_status_d m q = Some (Inr m') \<and> surveilled_list m' (qs @ [q])"
proof -
  from assms obtain axs where wf: "wf_store (sp_mem m)"
    and l: "llist (sp_mem m) (sp_head m) axs" and qs: "map snd axs = qs" by (auto simp: surveilled_list_def)
  from surveilled.insert_end_appends [OF wf l, of q] obtain st p b where
    i: "insert_end_d (sp_mem m) (sp_head m) q = Some (Inr (st, p))"
    and "wf_store st" "llist st p (axs @ [(b, q)])" by blast
  then have "surveilled_list (m\<lparr>sp_mem := st, sp_head := p\<rparr>) (qs @ [q])"
    using qs by (auto simp: surveilled_list_def intro!: exI [of _ "axs @ [(b, q)]"])
  with i show ?thesis by (simp add: save_path_status_d_def)
qed

definition test_paths :: "time_ptr \<times> time_ptr \<Rightarrow> surveilled_path list" where
  "test_paths junk = [new_path_status_d junk ''10.23.44.1'' ''101.0.2.1'' ''30.123.2.1'',
     new_path_status_d junk ''10.23.44.2'' ''10.0.2.30'' ''30.123.2.2'',
     new_path_status_d junk ''10.23.44.3'' ''101.0.2.3'' ''30.123.2.3'']"

lemma standalone_starts:
  assumes "wf_store (alerts_mem (history d))" "wf_store (sp_mem (surveilled d))"
  shows "\<exists>d1. init_standalone junk d = Some (Inr (d1, ''-> Inserting test paths...'' @ [CHR 0x0A])) \<and>
    alert_history (history d1) [] \<and> surveilled_list (surveilled d1) (test_paths junk)"
proof -
  have 0: "surveilled_list (init_monitored_paths_head_d (surveilled d)) []"
    using assms(2) by (simp add: surveilled_list_def init_monitored_paths_head_d_def)
  let ?n = "new_path_status_d junk"
  obtain m1 where m1: "save_path_status_d (init_monitored_paths_head_d (surveilled d)) (?n ''10.23.44.1'' ''101.0.2.1'' ''30.123.2.1'') =
      Some (Inr m1)" "surveilled_list m1 [?n ''10.23.44.1'' ''101.0.2.1'' ''30.123.2.1'']"
    using save_path_status_d_appends [OF 0] by fastforce
  obtain m2 where m2: "save_path_status_d m1 (?n ''10.23.44.2'' ''10.0.2.30'' ''30.123.2.2'') = Some (Inr m2)"
    "surveilled_list m2 [?n ''10.23.44.1'' ''101.0.2.1'' ''30.123.2.1'', ?n ''10.23.44.2'' ''10.0.2.30'' ''30.123.2.2'']"
    using save_path_status_d_appends [OF m1(2)] by fastforce
  obtain m3 where m3: "save_path_status_d m2 (?n ''10.23.44.3'' ''101.0.2.3'' ''30.123.2.3'') = Some (Inr m3)"
    "surveilled_list m3 (test_paths junk)"
    using save_path_status_d_appends [OF m2(2)] unfolding test_paths_def by fastforce
  then show ?thesis using m1(1) m2(1) alert_history_init [OF assms(1)]
    by (simp add: init_standalone_def init_test_path_values_d_def)
qed

lemma update_path_status_d_found:
  assumes "surveilled_list m qs" "time_info alert = Some t"
    and f: "walk_find (sp_mem m) P (sp_head m) = Some (Inr (Some x))"
  shows "\<exists>st. update_path_status_d (sp_mem m) x alert = Inr st \<and>
    surveilled_list (m\<lparr>sp_mem := st\<rparr>) (update_first P (mark_surveilled t) qs)"
proof -
  from assms(1) obtain axs where wf: "wf_store (sp_mem m)"
    and l: "llist (sp_mem m) (sp_head m) axs" and qs: "map snd axs = qs" by (auto simp: surveilled_list_def)
  obtain nd bxs where nd: "cells (sp_mem m) x = Some nd"
    "wf_store (write_node (sp_mem m) x (nd\<lparr>item := mark_surveilled t (item nd)\<rparr>))"
    "llist (write_node (sp_mem m) x (nd\<lparr>item := mark_surveilled t (item nd)\<rparr>)) (sp_head m) bxs"
    "map snd bxs = update_first P (mark_surveilled t) qs"
    using llist_update_found [OF wf l f] unfolding qs by metis
  then have "update_path_status_d (sp_mem m) x alert =
      Inr (write_node (sp_mem m) x (nd\<lparr>item := mark_surveilled t (item nd)\<rparr>))"
    using assms(2) by (simp add: update_path_status_d_def load_def mark_surveilled_def Let_def)
  with nd show ?thesis by (auto simp: surveilled_list_def)
qed

lemma lookup_surveilled:
  assumes "surveilled_list m qs"
  shows "\<exists>r. lookup_path_by_relay_ip_d m ip = Some (Inr r) \<and> (r \<noteq> None \<longleftrightarrow> ip \<in> sp_relay ` set qs)"
proof -
  from assms obtain axs where l: "llist (sp_mem m) (sp_head m) axs" and qs: "map snd axs = qs"
    by (auto simp: surveilled_list_def)
  have "find (\<lambda>ax. sp_relay (snd ax) = ip) axs \<noteq> None \<longleftrightarrow> ip \<in> sp_relay ` set qs"
    using qs by (force simp: find_None_iff image_iff)
  with walk_find_llist [OF l] show ?thesis
    by (simp add: lookup_path_by_relay_ip_d_def lookup_path_by_relay_ip_recursive_d_def)
qed

lemma analyse_surveils:
  assumes m: "surveilled_list m qs" and t: "time_info alert = Some t"
  shows "\<exists>m'. analyse_hijack_alert_d m alert = Some (Inr m') \<and> surveilled_list m' (surveil_alert t alert qs)"
proof -
  note lk = lookup_path_by_relay_ip_d_def lookup_path_by_relay_ip_recursive_d_def
  obtain r where r: "lookup_path_by_relay_ip_d m (source_ip alert) = Some (Inr r)"
      "r \<noteq> None \<longleftrightarrow> source_ip alert \<in> sp_relay ` set qs"
    using lookup_surveilled [OF m] by blast
  obtain r' where r': "lookup_path_by_relay_ip_d m (destination_ip alert) = Some (Inr r')"
      "r' \<noteq> None \<longleftrightarrow> destination_ip alert \<in> sp_relay ` set qs"
    using lookup_surveilled [OF m] by blast
  consider (src) x where "r = Some x" | (dst) x where "r = None" "r' = Some x" | (none) "r = None" "r' = None"
    by (cases r; cases r') auto
  then show ?thesis
  proof cases
    case src
    with r update_path_status_d_found [OF m t, of _ x] show ?thesis
      by (fastforce simp: analyse_hijack_alert_d_def surveil_alert_def lk)
  next
    case dst
    with r r' update_path_status_d_found [OF m t, of _ x] show ?thesis
      by (fastforce simp: analyse_hijack_alert_d_def surveil_alert_def lk)
  next
    case none
    then have "surveil_alert t alert qs = qs"
      using r(2) r'(2) unfolding surveil_alert_def by (simp, intro update_first_none) force
    with none r(1) r'(1) m show ?thesis by (simp add: analyse_hijack_alert_d_def)
  qed
qed

section \<open>Reading the times\<close>

definition has_wild :: "surveilled_path \<Rightarrow> bool" where
  "has_wild q \<longleftrightarrow> sp_previous q = Wild \<or> sp_last q = Wild"

lemma show_path_status_tame: "\<not> has_wild q \<Longrightarrow> \<exists>out. show_path_status q = Inr out"
  by (cases "sp_previous q"; cases "sp_last q")
    (simp_all add: has_wild_def show_path_status_def show_time_d_def get_time_custom_string_def)

lemma show_path_status_wild: "has_wild q \<Longrightarrow> show_path_status q = Inl BadPointer"
  by (cases "sp_previous q"; cases "sp_last q")
    (simp_all add: has_wild_def show_path_status_def show_time_d_def get_time_custom_string_def)

definition listing :: "surveilled_path list \<Rightarrow> string" where
  "listing qs = concat (map (\<lambda>q. projr (show_path_status q)) qs)"

lemma show_all_paths_tame:
  assumes "surveilled_list m qs" "\<forall>q\<in>set qs. \<not> has_wild q"
  shows "show_all_paths_d m = Some (Inr (listing qs))"
proof -
  have "show_all_nodes_d st p out = Some (Inr (out @ listing (map snd axs)))"
    if "llist st p axs" "\<forall>q\<in>set (map snd axs). \<not> has_wild q" for st p axs out
    using that
  proof (induction axs arbitrary: p out)
    case Nil
    then show ?case by (simp add: show_all_nodes_d.simps listing_def)
  next
    case (Cons ax axs)
    then obtain lines where "show_path_status (snd ax) = Inr lines" using show_path_status_tame by fastforce
    with Cons show ?case by (subst show_all_nodes_d.simps) (auto simp: listing_def)
  qed
  with assms show ?thesis by (fastforce simp: surveilled_list_def show_all_paths_d_def)
qed

lemma show_all_paths_wild:
  assumes "surveilled_list m (q # qs)" "has_wild q"
  shows "show_all_paths_d m = Some (Inl BadPointer)"
proof -
  obtain axs where "llist (sp_mem m) (sp_head m) axs" "map snd axs = q # qs"
    using assms(1) unfolding surveilled_list_def by (elim conjE exE) (rule that)
  then obtain x r where "sp_head m = Some x" "cells (sp_mem m) x = Some \<lparr>item = q, nxt = r\<rparr>"
    by (auto simp: map_eq_Cons_conv)
  then show ?thesis using show_path_status_wild [OF assms(2)]
    unfolding show_all_paths_d_def by (subst show_all_nodes_d.simps) simp
qed

lemma tame_mark [simp]: "\<not> has_wild q \<Longrightarrow> \<not> has_wild (mark_surveilled t q)"
  by (simp add: has_wild_def mark_surveilled_def)

lemma tame_update_first: "\<forall>q\<in>set qs. \<not> has_wild q \<Longrightarrow> \<forall>q\<in>set (update_first P (mark_surveilled t) qs). \<not> has_wild q"
  by (induction qs) auto

lemma tame_surveil_alert: "\<forall>q\<in>set qs. \<not> has_wild q \<Longrightarrow> \<forall>q\<in>set (surveil_alert t a qs). \<not> has_wild q"
  by (simp add: surveil_alert_def tame_update_first)

lemma tame_surveil: "\<forall>q\<in>set qs. \<not> has_wild q \<Longrightarrow> \<forall>q\<in>set (surveil e qs). \<not> has_wild q"
  by (simp add: surveil_def tame_surveil_alert)

section \<open>The sender's receiver as the specification\<close>

definition time_of :: "time_ptr \<Rightarrow> tm option" where
  "time_of p = (case p of Points t \<Rightarrow> Some t | _ \<Rightarrow> None)"

definition abs_path :: "surveilled_path \<Rightarrow> path_status" where
  "abs_path q = \<lparr>previous_time_info = time_of (sp_previous q), last_time_info = time_of (sp_last q),
     path_source_ip = sp_source q, relay_ip = sp_relay q, path_destination_ip = sp_destination q,
     was_hijacked = sp_hijacked q\<rparr>"

lemma abs_mark: "\<not> has_wild q \<Longrightarrow> abs_path (mark_surveilled t q) = mark_hijacked t (abs_path q)"
  by (cases "sp_last q") (simp_all add: has_wild_def abs_path_def mark_surveilled_def mark_hijacked_def time_of_def)

lemma abs_update_first:
  "\<forall>q\<in>set qs. \<not> has_wild q \<Longrightarrow> map abs_path (update_first (\<lambda>q. sp_relay q = ip) (mark_surveilled t) qs) =
     update_first (\<lambda>p. relay_ip p = ip) (mark_hijacked t) (map abs_path qs)"
  by (induction qs) (auto simp: abs_mark, simp_all add: abs_path_def)

lemma abs_surveil_alert:
  "\<forall>q\<in>set qs. \<not> has_wild q \<Longrightarrow> map abs_path (surveil_alert t a qs) = spec_analyse t (source_ip a) (destination_ip a) (map abs_path qs)"
proof -
  have "relay_ip ` set (map abs_path qs) = sp_relay ` set qs" by (auto simp: abs_path_def image_iff)
  then show "\<forall>q\<in>set qs. \<not> has_wild q \<Longrightarrow> ?thesis"
    by (simp add: surveil_alert_def spec_analyse_def abs_update_first)
qed

lemma abs_surveil: "\<forall>q\<in>set qs. \<not> has_wild q \<Longrightarrow> map abs_path (surveil e qs) = spec_step e (map abs_path qs)"
  by (simp add: surveil_def spec_step_def abs_surveil_alert)

section \<open>The loop\<close>

lemma client_handled:
  assumes "alert_history (history d) as" "surveilled_list (surveilled d) qs" "well_formed bytes"
  shows "\<exists>d' m. handle_darshana_client now (ReadData bytes) d =
      cbind (show_all_paths_d m) (\<lambda>out. Some (Inr (d', ''|!ALERT!| -> '' @ datagram_text bytes @ [CHR 0x0A] @ out))) \<and>
    alert_history (history d') (as @ [alert_of (now, bytes)]) \<and> surveilled d' = m \<and>
    surveilled_list m (surveil (now, bytes) qs)"
proof -
  obtain am where am: "save_hijack_alert (history d) (alert_of (now, bytes)) = Some (Inr am)"
    "alert_history am (as @ [alert_of (now, bytes)])"
    using save_hijack_alert_appends [OF assms(1)] by blast
  obtain m where m: "analyse_hijack_alert_d (surveilled d) (alert_of (now, bytes)) = Some (Inr m)"
    "surveilled_list m (surveil (now, bytes) qs)"
    using analyse_surveils [OF assms(2), of "alert_of (now, bytes)" now] by (auto simp: surveil_def alert_of_def Let_def)
  have "handle_darshana_client now (ReadData bytes) d =
      cbind (show_all_paths_d m) (\<lambda>out. Some (Inr (d\<lparr>history := am, surveilled := m\<rparr>,
        ''|!ALERT!| -> '' @ datagram_text bytes @ [CHR 0x0A] @ out)))"
    using am(1) m(1) parse_well_formed [OF assms(3)]
    by (cases "show_all_paths_d m"; cases "the (show_all_paths_d m)")
      (simp_all add: handle_darshana_client_def datagram_buffer duplicate_string_def handle_client_alert_d_def)
  with am(2) m(2) show ?thesis
    by (intro exI [of _ "d\<lparr>history := am, surveilled := m\<rparr>"] exI [of _ m]) simp
qed

text \<open>What the program prints for a sequence of alerts.\<close>

fun alert_lines :: "(tm \<times> char list) list \<Rightarrow> surveilled_path list \<Rightarrow> string" where
  "alert_lines [] qs = []"
| "alert_lines (e # es) qs =
     ''|!ALERT!| -> '' @ datagram_text (snd e) @ [CHR 0x0A] @ listing (surveil e qs) @ alert_lines es (surveil e qs)"

lemma standalone_loop_refines:
  assumes "alert_history (history d) as" "surveilled_list (surveilled d) qs" "\<forall>q\<in>set qs. \<not> has_wild q"
    and "\<forall>e\<in>set es. well_formed (snd e)"
  shows "\<exists>d'. standalone_loop (datagrams es @ rest) d out = standalone_loop rest d' (out @ alert_lines es qs) \<and>
    alert_history (history d') (as @ map alert_of es) \<and> surveilled_list (surveilled d') (fold surveil es qs) \<and>
    map abs_path (fold surveil es qs) = fold spec_step es (map abs_path qs)"
  using assms
proof (induction es arbitrary: d as qs out)
  case Nil
  then show ?case by auto
next
  case (Cons e es)
  obtain now bytes where e: "e = (now, bytes)" by (cases e)
  have wf: "well_formed bytes" using Cons.prems(4) e by simp
  have tame: "\<forall>q\<in>set (surveil e qs). \<not> has_wild q" by (rule tame_surveil [OF Cons.prems(3)])
  obtain d1 where d1: "handle_darshana_client now (ReadData bytes) d =
      cbind (show_all_paths_d (surveilled d1)) (\<lambda>out. Some (Inr (d1, ''|!ALERT!| -> '' @ datagram_text bytes @ [CHR 0x0A] @ out)))"
    "alert_history (history d1) (as @ [alert_of e])" "surveilled_list (surveilled d1) (surveil e qs)"
    using client_handled [OF Cons.prems(1,2) wf, of now] unfolding e by blast
  from Cons.IH [OF d1(2,3) tame, of "out @ ''|!ALERT!| -> '' @ datagram_text bytes @ [CHR 0x0A] @ listing (surveil e qs)"]
  show ?case using Cons.prems(3,4) d1(1) e show_all_paths_tame [OF d1(3) tame] abs_surveil [OF Cons.prems(3), of e] by simp
qed

section \<open>Properties\<close>

lemma standalone_main_runs:
  assumes "argv = [prog, ip, port]" "length ip < 20" "0 \<le> alert_socket env" "0 \<le> alert_bind env"
    and "wf_store (alerts_mem (history d))" "wf_store (sp_mem (surveilled d))"
  shows "\<exists>d1. standalone_main env argv d =
      standalone_loop (reads env) d1 (''-> Inserting test paths...'' @ [CHR 0x0A] @ start_lines ip port) \<and>
    alert_history (history d1) [] \<and> surveilled_list (surveilled d1) (test_paths (malloc_junk env))"
  using standalone_starts [OF assms(5,6), of "malloc_junk env"] assms(1-4)
  by (auto simp: standalone_main_def argument_def strcpy_def)

text \<open>C17.
  If the memory of the paths happens to be zero, the standalone receiver marks its three paths
  as the receiver of the sender marks the same three, for all well-formed alerts: the two keep
  the same alerts and the same records.  It prints every alert with a listing of all paths as
  they are then.\<close>

theorem standalone_agrees:
  assumes "argv = [prog, ip, port]" "length ip < 20" "0 \<le> alert_socket env" "0 \<le> alert_bind env"
    and "wf_store (alerts_mem (history d))" "wf_store (sp_mem (surveilled d))"
    and "malloc_junk env = (Null, Null)" "reads env = datagrams es" "\<forall>e\<in>set es. well_formed (snd e)"
    and "dar_rel u [] (map abs_path (test_paths (Null, Null)))"
  shows "\<exists>d' qs u' n k. standalone_main env argv d = Some (Inr (d', ''-> Inserting test paths...'' @ [CHR 0x0A] @
        start_lines ip port @ alert_lines es (test_paths (Null, Null)))) \<and>
      alert_history (history d') (map alert_of es) \<and> surveilled_list (surveilled d') qs \<and>
      handle_darshana_client_loop (datagrams es) u 0 0 = Some (Inr (u', n, k, InRead)) \<and>
      dar_rel u' (map alert_of es) (map abs_path qs)"
proof -
  obtain d1 where d1: "standalone_main env argv d =
      standalone_loop (reads env) d1 (''-> Inserting test paths...'' @ [CHR 0x0A] @ start_lines ip port)"
    "alert_history (history d1) []" "surveilled_list (surveilled d1) (test_paths (Null, Null))"
    using standalone_main_runs [OF assms(1-6)] assms(7) by auto
  have "\<forall>q\<in>set (test_paths (Null, Null)). \<not> has_wild q"
    by (simp add: test_paths_def new_path_status_d_def has_wild_def)
  from standalone_loop_refines [OF d1(2,3) this assms(9), of "[]"
      "''-> Inserting test paths...'' @ [CHR 0x0A] @ start_lines ip port"] obtain d' where
    d': "standalone_main env argv d = Some (Inr (d', (''-> Inserting test paths...'' @ [CHR 0x0A] @ start_lines ip port) @
        alert_lines es (test_paths (Null, Null))))"
    "alert_history (history d') (map alert_of es)" "surveilled_list (surveilled d') (fold surveil es (test_paths (Null, Null)))"
    "map abs_path (fold surveil es (test_paths (Null, Null))) = fold spec_step es (map abs_path (test_paths (Null, Null)))"
    unfolding d1(1) assms(8) by (auto simp only: append_Nil append_Nil2 standalone_loop.simps)
  from loop_refines [OF assms(10,9), of "[]" 0 0] obtain u' where
    "handle_darshana_client_loop (datagrams es) u 0 0 =
      Some (Inr (u', int (length es), raises (max_dar_alerts u) 0 (length es), InRead))"
    "dar_rel u' (map alert_of es) (fold spec_step es (map abs_path (test_paths (Null, Null))))"
    by auto
  with d' show ?thesis by (metis append.assoc)
qed

lemma abs_new: "abs_path (new_path_status_d (Null, Null) s r d) = new_path_status s r d"
  by (simp add: abs_path_def new_path_status_d_def new_path_status_def time_of_def)

definition empty_standalone :: standalone where
  "empty_standalone = \<lparr>history = \<lparr>alerts_mem = empty_store, alerts_history_head = None\<rparr>,
     surveilled = \<lparr>sp_mem = empty_store, sp_head = None\<rparr>\<rparr>"

definition sample_standalone_env :: standalone_env where
  "sample_standalone_env = \<lparr>malloc_junk = (Null, Null), alert_socket = 3, alert_bind = 0,
     reads = [(sample_tm, ReadData sample_alert)]\<rparr>"

theorem standalone_agrees_witness:
  "\<exists>u d' qs u' n k. standalone_main sample_standalone_env [''dar'', ''10.0.0.1'', ''10101''] empty_standalone =
      Some (Inr (d', ''-> Inserting test paths...'' @ [CHR 0x0A] @ start_lines ''10.0.0.1'' ''10101'' @
        alert_lines [(sample_tm, sample_alert)] (test_paths (Null, Null)))) \<and>
    handle_darshana_client_loop (datagrams [(sample_tm, sample_alert)]) u 0 0 = Some (Inr (u', n, k, InRead)) \<and>
    dar_rel u' (map alert_of [(sample_tm, sample_alert)]) (map abs_path qs)"
proof -
  note add = add_monitored_path_appends
  obtain a where a: "dar_rel a [] [new_path_status ''10.23.44.1'' ''101.0.2.1'' ''30.123.2.1'']"
    using add [OF empty_dar_rel, of "''10.23.44.1''" "''101.0.2.1''" "''30.123.2.1''"] by auto
  obtain b where b: "dar_rel b [] [new_path_status ''10.23.44.1'' ''101.0.2.1'' ''30.123.2.1'',
      new_path_status ''10.23.44.2'' ''10.0.2.30'' ''30.123.2.2'']"
    using add [OF a, of "''10.23.44.2''" "''10.0.2.30''" "''30.123.2.2''"] by auto
  obtain u where u: "dar_rel u [] (map abs_path (test_paths (Null, Null)))"
    using add [OF b, of "''10.23.44.3''" "''101.0.2.3''" "''30.123.2.3''"] by (auto simp: test_paths_def abs_new)
  have e: "0 \<le> alert_socket sample_standalone_env" "0 \<le> alert_bind sample_standalone_env"
    "wf_store (alerts_mem (history empty_standalone))" "wf_store (sp_mem (surveilled empty_standalone))"
    "malloc_junk sample_standalone_env = (Null, Null)" "reads sample_standalone_env = datagrams [(sample_tm, sample_alert)]"
    "\<forall>e\<in>set [(sample_tm, sample_alert)]. well_formed (snd e)"
    by (simp_all add: sample_standalone_env_def empty_standalone_def sample_well_formed)
  have "length ''10.0.0.1'' < 20" by simp
  from standalone_agrees [OF refl this e u, of "''dar''" "''10101''"] show ?thesis by blast
qed

text \<open>If the memory of the two times is not zero, the first well-formed alert ends the standalone
  receiver, whatever it says: the listing follows a pointer that was never set.\<close>

theorem uninitialised_times_crash:
  assumes "argv = [prog, ip, port]" "length ip < 20" "0 \<le> alert_socket env" "0 \<le> alert_bind env"
    and "wf_store (alerts_mem (history d))" "wf_store (sp_mem (surveilled d))"
    and "malloc_junk env \<in> {(Wild, Null), (Null, Wild), (Wild, Wild)}"
    and "reads env = (now, ReadData bytes) # rest" "well_formed bytes"
  shows "standalone_main env argv d = Some (Inl BadPointer)"
proof -
  let ?j = "malloc_junk env"
  obtain d1 where d1: "standalone_main env argv d =
      standalone_loop (reads env) d1 (''-> Inserting test paths...'' @ [CHR 0x0A] @ start_lines ip port)"
    "alert_history (history d1) []" "surveilled_list (surveilled d1) (test_paths ?j)"
    using standalone_main_runs [OF assms(1-6)] by auto
  let ?q = "new_path_status_d ?j ''10.23.44.1'' ''101.0.2.1'' ''30.123.2.1''"
  have "has_wild ?q" "has_wild (mark_surveilled now ?q)"
    using assms(7) by (auto simp: has_wild_def mark_surveilled_def new_path_status_d_def)
  moreover obtain q qs where q: "surveil (now, bytes) (test_paths ?j) = q # qs" "q = ?q \<or> q = mark_surveilled now ?q"
    by (cases "source_ip (alert_of (now, bytes)) \<in> sp_relay ` set (test_paths ?j)";
        cases "source_ip (alert_of (now, bytes)) = ''101.0.2.1''"; cases "destination_ip (alert_of (now, bytes)) = ''101.0.2.1''")
      (simp_all add: surveil_def surveil_alert_def test_paths_def new_path_status_d_def)
  ultimately have w: "has_wild q" by auto
  from client_handled [OF d1(2,3) assms(9), of now] obtain d' m where
    "handle_darshana_client now (ReadData bytes) d1 = cbind (show_all_paths_d m) (\<lambda>out.
      Some (Inr (d', ''|!ALERT!| -> '' @ datagram_text bytes @ [CHR 0x0A] @ out)))"
    "surveilled_list m (q # qs)" unfolding q(1) by blast
  then show ?thesis using d1(1) assms(8) show_all_paths_wild [OF _ w] by simp
qed

theorem uninitialised_times_crash_witness:
  "standalone_main (sample_standalone_env\<lparr>malloc_junk := (Null, Wild)\<rparr>) [''dar'', ''10.0.0.1'', ''10101''] empty_standalone =
     Some (Inl BadPointer)"
  by (rule uninitialised_times_crash [OF refl, where now = sample_tm and bytes = sample_alert and rest = "[]"])
    (simp_all add: sample_standalone_env_def empty_standalone_def sample_well_formed)

end
