(* ===== verification/Parse_Hijack_Darshana.thy ===== *)
theory Parse_Hijack_Darshana
  imports Parse_Hijack Standalone_Dar
begin

text \<open>
  \<^verbatim>\<open>Darshana/dar/testing_wout_socket/parse_hijack.c\<close>: the program of \<open>Parse_Hijack\<close> over the
  modules of the standalone receiver.  It has one heading only, and lists the paths that are
  not hijacked.
\<close>

section \<open>The program\<close>

text \<open>\<open>memory\<close> is what the two times of a new path hold.\<close>

definition init_modules_d ::
    "time_ptr \<times> time_ptr \<Rightarrow> alerts_module \<Rightarrow> surveilled_module \<Rightarrow> (alerts_module \<times> surveilled_module \<times> string) res option" where
  "init_modules_d memory am m =
     cbind (init_test_path_values_d memory (init_monitored_paths_head_d m)) (\<lambda>(m', out).
       Some (Inr (init_alerts_history_head am, m', out)))"

fun parse_arguments_d ::
    "(tm \<times> string) list \<Rightarrow> alerts_module \<Rightarrow> surveilled_module \<Rightarrow> (alerts_module \<times> surveilled_module) res option" where
  "parse_arguments_d [] am m = Some (Inr (am, m))"
| "parse_arguments_d ((now, arg) # es) am m =
     cbind (Some (parse_hijack_alert now arg)) (\<lambda>alert_parsed.
     cbind (save_hijack_alert am alert_parsed) (\<lambda>am'.
     cbind (analyse_hijack_alert_d m alert_parsed) (\<lambda>m'.
       parse_arguments_d es am' m')))"

definition parse_hijack_main_d ::
    "time_ptr \<times> time_ptr \<Rightarrow> tm list \<Rightarrow> string list \<Rightarrow> alerts_module \<Rightarrow> surveilled_module \<Rightarrow> string res option" where
  "parse_hijack_main_d memory clock argv am m =
     cbind (init_modules_d memory am m) (\<lambda>(am1, m1, out).
     cbind (parse_arguments_d (zip clock (tl argv)) am1 m1) (\<lambda>(am2, m2).
     cbind (show_all_hijack_alerts am2) (\<lambda>alerts_out.
     cbind (show_all_paths_d m2) (\<lambda>paths_out.
     cbind (show_hijacked_paths_d m2 0) (\<lambda>unhijacked_out.
       Some (Inr (out @ alerts_out @ paths_out @
         ''-----------------------------------------------'' @ [CHR 0x0A] @
         ''Showing paths that are wer not hijacked yet!!!!'' @ [CHR 0x0A] @
         ''-----------------------------------------------'' @ [CHR 0x0A] @ unhijacked_out)))))))"

section \<open>Lemmas\<close>

definition surveil_argument :: "tm \<times> string \<Rightarrow> surveilled_path list \<Rightarrow> surveilled_path list" where
  "surveil_argument e = surveil_alert (fst e) (argument_alert e)"

lemma argument_time: "time_info (argument_alert e) = Some (fst e)"
  by (simp add: argument_alert_def Let_def)

lemma arguments_surveil:
  assumes "alert_history am as" "surveilled_list m qs" "\<forall>e\<in>set es. 4 \<le> length (str_fields '','' (snd e))"
  shows "\<exists>am' m'. parse_arguments_d es am m = Some (Inr (am', m')) \<and>
    alert_history am' (as @ map argument_alert es) \<and> surveilled_list m' (fold surveil_argument es qs)"
  using assms
proof (induction es arbitrary: am m as qs)
  case (Cons e es)
  have p: "parse_hijack_alert (fst e) (snd e) = Inr (argument_alert e)" using Cons.prems(3) argument_parsed by simp
  obtain am1 where am1: "save_hijack_alert am (argument_alert e) = Some (Inr am1)"
    "alert_history am1 (as @ [argument_alert e])"
    using save_hijack_alert_appends [OF Cons.prems(1)] by blast
  obtain m1 where m1: "analyse_hijack_alert_d m (argument_alert e) = Some (Inr m1)"
    "surveilled_list m1 (surveil_argument e qs)"
    using analyse_surveils [OF Cons.prems(2) argument_time [of e]] unfolding surveil_argument_def by blast
  from Cons.IH [OF am1(2) m1(2)] Cons.prems(3) p am1(1) m1(1) show ?case by (cases e) auto
qed simp

lemma fold_tame: "\<forall>q\<in>set qs. \<not> has_wild q \<Longrightarrow> \<forall>q\<in>set (fold surveil_argument es qs). \<not> has_wild q"
proof (induction es arbitrary: qs)
  case (Cons e es)
  from Cons.IH [OF tame_surveil_alert [OF Cons.prems]] show ?case by (simp add: surveil_argument_def)
qed simp

lemma fold_abs:
  "\<forall>q\<in>set qs. \<not> has_wild q \<Longrightarrow> map abs_path (fold surveil_argument es qs) = fold argument_step es (map abs_path qs)"
  by (induction es arbitrary: qs)
    (simp_all add: surveil_argument_def argument_step_def tame_surveil_alert abs_surveil_alert)

lemma show_hijacked_tame:
  assumes "surveilled_list m qs" "\<forall>q\<in>set qs. \<not> has_wild q"
  shows "show_hijacked_paths_d m v = Some (Inr (listing (filter (\<lambda>q. sp_hijacked q = v) qs)))"
proof -
  have "cbind (lookup_path_by_hijack_value_recursive_d st p v) (\<lambda>n. show_hijacked_loop_d st v n out) =
      Some (Inr (out @ listing (filter (\<lambda>q. sp_hijacked q = v) (map snd axs))))"
    if "llist st p axs" "\<forall>q\<in>set (map snd axs). \<not> has_wild q" for st p axs out
    using that
  proof (induction axs arbitrary: p out)
    case Nil
    then show ?case
      by (simp add: lookup_path_by_hijack_value_recursive_d_def walk_find.simps show_hijacked_loop_d.simps listing_def)
  next
    case (Cons ax axs)
    obtain x q where ax: "ax = (x, q)" by (cases ax)
    with Cons.prems(1) obtain r where r: "p = Some x" "cells st x = Some \<lparr>item = q, nxt = r\<rparr>" "llist st r axs" by auto
    obtain lines where "show_path_status q = Inr lines" using Cons.prems(2) show_path_status_tame ax by fastforce
    with Cons.IH [OF r(3)] Cons.prems(2) r ax show ?case
      by (cases "sp_hijacked q = v")
        (simp_all add: lookup_path_by_hijack_value_recursive_d_def listing_def walk_find.simps [of st _ "Some x"]
          show_hijacked_loop_d.simps [of st v "Some x"])
  qed
  with assms show ?thesis
    by (fastforce simp: surveilled_list_def show_hijacked_paths_d_def lookup_path_by_hijack_value_d_def)
qed

lemma test_paths_added:
  assumes "wf_store (alerts_mem am)" "wf_store (sp_mem m)"
  shows "\<exists>am' m'. init_modules_d memory am m = Some (Inr (am', m', ''-> Inserting test paths...'' @ [CHR 0x0A])) \<and>
    alert_history am' [] \<and> surveilled_list m' (test_paths memory)"
proof -
  let ?d = "\<lparr>history = am, surveilled = m\<rparr>"
  obtain d1 where d1: "init_standalone memory ?d = Some (Inr (d1, ''-> Inserting test paths...'' @ [CHR 0x0A]))"
    "alert_history (history d1) []" "surveilled_list (surveilled d1) (test_paths memory)"
    using standalone_starts [of ?d memory] assms by auto
  then have "init_test_path_values_d memory (init_monitored_paths_head_d m) =
      Some (Inr (surveilled d1, ''-> Inserting test paths...'' @ [CHR 0x0A]))"
    by (auto simp: init_standalone_def cbind_eq_Inr)
  with d1(3) alert_history_init [OF assms(1)] show ?thesis by (simp add: init_modules_d_def)
qed

section \<open>What the program prints\<close>

text \<open>With zeroed memory, for arguments with at least four fields: one line per alert in order,
  then all paths and those that are not marked as hijacked, as the heading says; and the paths
  are those of the program of the sender.\<close>

lemma parse_hijack_darshana_exact:
  assumes "wf_store (alerts_mem am)" "wf_store (sp_mem m)" "length clock = length args"
    and "\<forall>a\<in>set args. 4 \<le> length (str_fields '','' a)"
  shows "\<exists>qs. map abs_path qs = fold argument_step (zip clock args) fixed_paths \<and>
    parse_hijack_main_d (Null, Null) clock (prog # args) am m = Some (Inr (
     ''-> Inserting test paths...'' @ [CHR 0x0A] @
     concat (map (\<lambda>e. projr (show_hijack_alert_simple (argument_alert e))) (zip clock args)) @ listing qs @
     ''-----------------------------------------------'' @ [CHR 0x0A] @
     ''Showing paths that are wer not hijacked yet!!!!'' @ [CHR 0x0A] @
     ''-----------------------------------------------'' @ [CHR 0x0A] @
     listing (filter (\<lambda>q. sp_hijacked q = 0) qs)))"
proof -
  let ?ps = "test_paths (Null, Null)" and ?es = "zip clock args"
  obtain am1 m1 where i: "init_modules_d (Null, Null) am m = Some (Inr (am1, m1, ''-> Inserting test paths...'' @ [CHR 0x0A]))"
    "alert_history am1 []" "surveilled_list m1 ?ps"
    using test_paths_added [OF assms(1,2)] by blast
  have "\<forall>e\<in>set ?es. 4 \<le> length (str_fields '','' (snd e))"
    using assms(4) by (auto dest: set_zip_rightD)
  from arguments_surveil [OF i(2,3) this] obtain am2 m2 where
    r: "parse_arguments_d ?es am1 m1 = Some (Inr (am2, m2))" "alert_history am2 (map argument_alert ?es)"
      "surveilled_list m2 (fold surveil_argument ?es ?ps)" by auto
  have tame: "\<forall>q\<in>set ?ps. \<not> has_wild q" by (simp add: test_paths_def new_path_status_d_def has_wild_def)
  note t = fold_tame [OF tame, of ?es]
  have "map abs_path ?ps = fixed_paths" by (simp add: test_paths_def fixed_paths_def abs_new)
  with fold_abs [OF tame, of ?es] have "map abs_path (fold surveil_argument ?es ?ps) = fold argument_step ?es fixed_paths" by simp
  moreover have "parse_hijack_main_d (Null, Null) clock (prog # args) am m = Some (Inr (
      ''-> Inserting test paths...'' @ [CHR 0x0A] @
      concat (map (\<lambda>e. projr (show_hijack_alert_simple (argument_alert e))) ?es) @ listing (fold surveil_argument ?es ?ps) @
      ''-----------------------------------------------'' @ [CHR 0x0A] @
      ''Showing paths that are wer not hijacked yet!!!!'' @ [CHR 0x0A] @
      ''-----------------------------------------------'' @ [CHR 0x0A] @
      listing (filter (\<lambda>q. sp_hijacked q = 0) (fold surveil_argument ?es ?ps))))"
    using i(1) r(1) history_printed [OF r(2)] show_all_paths_tame [OF r(3) t] show_hijacked_tame [OF r(3) t, of 0]
    by (simp add: parse_hijack_main_d_def)
  ultimately show ?thesis by blast
qed

text \<open>With other memory it reads a time through a pointer that points nowhere, also without arguments.\<close>

lemma parse_hijack_darshana_wild:
  assumes "wf_store (alerts_mem am)" "wf_store (sp_mem m)" "fst memory = Wild \<or> snd memory = Wild"
  shows "parse_hijack_main_d memory [] [prog] am m = Some (Inl BadPointer)"
proof -
  obtain am1 m1 where i: "init_modules_d memory am m = Some (Inr (am1, m1, ''-> Inserting test paths...'' @ [CHR 0x0A]))"
    "alert_history am1 []" "surveilled_list m1 (test_paths memory)"
    using test_paths_added [OF assms(1,2)] by blast
  obtain q qs where q: "test_paths memory = q # qs" "has_wild q"
    using assms(3) by (auto simp: test_paths_def has_wild_def new_path_status_d_def)
  have "alert_history am1 (map argument_alert [])" using i(2) by simp
  from history_printed [OF this] show_all_paths_wild [OF i(3) [unfolded q(1)] q(2)] i(1) show ?thesis
    by (simp add: parse_hijack_main_d_def)
qed

end
