(* ===== verification/Spec2Isabelle.thy ===== *)
theory Spec2Isabelle
  imports Shared_Node Session_Termination Second_Teardown Log_Utils Sender_Programs Receiver_Programs Node_Main Parse_Hijack_Darshana
begin

text \<open>
  \<^bold>\<open>PREMIUM in Isabelle/HOL.\<close>  PREMIUM sends the data of an application over several paths at
  once and watches these paths for route hijacking.  A sender and a receiver run MACHETE
  (\<^verbatim>\<open>MACHETE/SCMultipath\<close>), the relays in between run its overlay node
  (\<^verbatim>\<open>MACHETE/SCNodeCode\<close>), and a hijacking monitor, Darshana, sends alerts to the sender's
  alert receiver, the DAR (\<^verbatim>\<open>MACHETE/SCMultipath/dar\<close>, and as a program of its own in
  \<^verbatim>\<open>Darshana/dar\<close>).  This development models the C code of these parts and proves what it does.

  \<^bold>\<open>How the parts interact.\<close>  The sender asks the multipath manager, through the adapter of a
  tuple space, for the overlay nodes and for the addresses of the receiver; pings the nodes;
  pairs each of its own addresses with each of the receiver's as a flow and deals the flows to
  the nodes in turn; for every flow it sets NAT rules of its own, sends the node two textual
  rules (one for forwarding, one to monitor the path with Darshana) and remembers the path; then
  it starts the DAR in a thread, registers a handler for the signal of that thread, and
  connects.  The teardown sends the same rules with the type for deletion and removes its own.

  \<^bold>\<open>Theories and code.\<close>
  \<^item> \<open>C_Prelude\<close>: faults as values (null pointers, writes past a buffer, uses after a free,
    \<^verbatim>\<open>exit\<close>), results \<open>fault + 'a\<close>, results of code that may not return (\<open>None\<close> of
    \<open>'a res option\<close>), arrays with their extents, loops over lists of steps with one lemma each for
    totality, invariants and traces.
  \<^item> \<open>C_Strings\<close>: strings with their terminators, \<^verbatim>\<open>strcpy\<close>, \<^verbatim>\<open>strcat\<close>, \<^verbatim>\<open>sprintf\<close>, \<^verbatim>\<open>strtok\<close>,
    \<^verbatim>\<open>atoi\<close>.  \<open>Sockets\<close>: a connection as the pieces in which bytes arrive.  \<open>Wire_Integers\<close>:
    integers as the bytes of their objects.
  \<^item> \<open>Linked_Lists\<close>: the heap of list nodes, the loops over it, and the locale \<open>c_list\<close> of what
    both list modules promise.  \<open>Hijack_Alerts\<close>, \<open>Monitored_Paths\<close>, \<open>Alerts_Receiver\<close>:
    \<^verbatim>\<open>hijack_alert_handler.c\<close>, \<^verbatim>\<open>monitored_paths_handler.c\<close>, \<^verbatim>\<open>alerts_receiver.c\<close> and
    \<^verbatim>\<open>utils.c\<close> of \<^verbatim>\<open>dar\<close>; their state is a heap and a head pointer each.  \<open>Parse_Hijack\<close>: the
    program of \<^verbatim>\<open>dar/testing_wout_socket\<close> over them.  \<open>Standalone_Dar\<close>: \<^verbatim>\<open>Darshana/dar\<close>, whose
    paths have uninitialised times; its alert history and \<^verbatim>\<open>utils.c\<close> are copies of those of \<^verbatim>\<open>dar\<close>.
    \<open>Parse_Hijack_Darshana\<close>: the parser program over these.
  \<^item> \<open>Nat_Rules\<close>: \<^verbatim>\<open>on_rules_utils.c\<close> and \<^verbatim>\<open>utils/rules_utils.c\<close>, with the locale
    \<open>rule_pair\<close> of functions that install and remove rules.  \<open>Rule_Specs\<close>: the textual rules of
    \<^verbatim>\<open>overlay_manager.c\<close> and \<^verbatim>\<open>path_monitoring.c\<close>, with the locale \<open>rule_codec\<close>.
  \<^item> \<open>Overlay_Node\<close>, \<open>Node_Main\<close>: \<^verbatim>\<open>forwarding_handler.c\<close>, the registration of the node and its
    copy of the STUN client;
    \<open>Node_Properties\<close>: sender and node, message by message.
  \<^item> \<open>Connectivity\<close>, \<open>Stun\<close>, \<open>Depspace_Client\<close>, \<open>Virtual_Interfaces\<close>, \<open>Log_Utils\<close>:
    \<^verbatim>\<open>connectivity_utils.c\<close>, \<^verbatim>\<open>stun_public_ip.c\<close>, \<^verbatim>\<open>register_dep.c\<close>, \<^verbatim>\<open>virtual_int_utils.c\<close> and
    \<^verbatim>\<open>log_utils.c\<close>.
  \<^item> \<open>Path_Monitoring\<close>, \<open>Sending_Handler\<close>, \<open>Sender_Session\<close>: \<^verbatim>\<open>path_monitoring.c\<close>,
    \<^verbatim>\<open>sending_handler.c\<close>, \<^verbatim>\<open>connection_manager.c\<close> and \<^verbatim>\<open>machete_sender.c\<close>.  The globals of these
    files are the record \<open>sender\<close>; its fields \<open>commands\<close> and \<open>exchanges\<close> are the commands passed
    to \<^verbatim>\<open>system\<close> and the messages exchanged with nodes so far.
  \<^item> \<open>Sender_Properties\<close>, \<open>Session_Properties\<close>, \<open>Sender_Shape\<close>: the set-up of flows, whole
    sessions, and what its arrays have room for.  \<open>Session_Alerts\<close>: the reactions to an
    alert.  \<open>Teardown_Calls\<close>: the teardown as the list of its calls.  \<open>Session_Threads\<close>: the main
    thread and the thread of the alert receiver as one step relation over these calls and over
    the iterations of the receive loop, with the locale \<open>step_invariant\<close>; \<open>Session_Runs\<close>: what
    every execution keeps and which executions there are; \<open>Session_With_Alerts\<close>: the set-up
    followed by any such execution; \<open>Session_Termination\<close>: how long executions are, and where
    they wait for ever; \<open>Second_Teardown\<close>: what can follow the use of a freed clock.
    \<open>Rule_Ledgers\<close>, \<open>Node_Requests\<close>, \<open>Network_Session\<close>, \<open>Shared_Node\<close>: what a node makes of the
    connections of senders: of one session, and of any number of sessions that interleave.
  \<^item> \<open>Sender_Programs\<close>, \<open>File_Transfer\<close>, \<open>Echo\<close>: the clients \<^verbatim>\<open>file_client.c\<close>,
    \<^verbatim>\<open>hi_client.c\<close> and \<^verbatim>\<open>hi_client_eval.c\<close>, and what they and the servers exchange.
    \<open>Receiving_Handler\<close>, \<open>Receiver_Programs\<close>: \<^verbatim>\<open>receiving_handler.c\<close>, \<^verbatim>\<open>machete_receiver.c\<close>
    and the servers \<^verbatim>\<open>file_server.c\<close>, \<^verbatim>\<open>hi_server.c\<close> and \<^verbatim>\<open>hi_server_eval.c\<close>.

  \<^bold>\<open>What the lemmas show.\<close>
  \<^item> Sessions: a whole session without STUN leaves every chain of the NAT tables of the sender and
    of every node with the rules it had, each as often, and exactly as it was if it held none of the
    session's rules before (\<open>restores\<close> of \<open>Nat_Rules\<close>; \<open>network_restored\<close>, \<open>session_exact\<close>,
    \<open>node_restores_nat\<close>, \<open>experiments_exact\<close>); removing a rule that is there twice takes the first
    copy, so the order of equal rules can change.  Sessions of several senders, with their alerts,
    that share a node in any order do the same (\<open>shared_node\<close>), but of the Darshana
    clients that a node starts only the last is ever cancelled (\<open>node_cancels_last_client\<close>); every flow gets
    its rules, messages and path (\<open>setup_flows_exact\<close>); the messages mean to the node what the
    sender builds them from (\<open>rules_reach_node\<close>); the sender's arrays are exactly large enough for
    twenty nodes and addresses, and are overrun by more (\<open>sender_array_limits\<close>).  With STUN the
    rules of a session stay (\<open>stun_leaves_rules\<close>).
  \<^item> Threads: what every interleaving with the alert thread comes to, up to the first undefined
    behaviour (\<open>session_outcomes\<close>, \<open>session_endings\<close>, \<open>alert_during_teardown\<close>), and what can happen
    after it (\<open>reused_clock_removes_twice\<close>); what the NAT table holds at every moment
    (\<open>session_with_alerts\<close>); how many steps an execution has, and that it only waits for a node that
    stays silent, and then for ever (\<open>session_terminates\<close>); what the reactions to an alert are
    (\<open>reaction_table\<close>).
  \<^item> Alerts: the receive loop on the heap refines a specification on two lists
    (\<open>dar_loop_refines\<close>), which detection and the invariant of the records rest on; the two
    receivers agree (\<open>standalone_agrees\<close>); formatted alerts parse back (\<open>alert_roundtrip\<close>).
  \<^item> Transport: files and greetings from end to end (\<open>file_delivered\<close>, \<open>hello_conversation\<close>),
    the answers of the manager and of a STUN server (\<open>overlay_nodes_exact\<close>,
    \<open>receiver_info_exact\<close>, \<open>stun_decodes\<close>), the checksum against RFC 1071
    (\<open>checksum_reference\<close>).
  \<^item> Faults: where the code leaves an array, follows a null, freed or uninitialised pointer,
    does not return, or leaves rules behind, as exact statements with the inputs that do it.

  \<^bold>\<open>Loops and bounds.\<close>  Loops that need not end (walks over a heap that may be cyclic, the
  probing of nodes, the creation of sources, the accept loop, the loop over STUN attributes) are
  \<^verbatim>\<open>partial_function (option)\<close>; no fuel is used, and that they end, or never do, is proved.
  Loops over received bytes are functions whose measure is the number of bytes and pieces left.
  A connection is what its peer sends before it closes it, except where a node may keep it open in
  silence: the answer of a node that the sender waits for (\<open>silent\<close> in \<open>Sending_Handler\<close>) is the
  value \<open>Blocked\<close>, and a thread that waits for it has no step.  Words are used where the code computes on bits (checksum, STUN); \<open>int\<close> stands for C's
  counters, whose overflow after 2^31 rounds is not modelled, while sizes that are read from the
  network are cut to their width (\<open>to_int\<close>).

  \<^bold>\<open>Parameters.\<close>  What the operating system, the network and other programs return is an
  argument: results of system calls, pieces of a connection, addresses of interfaces, times,
  whether a ping is answered, and what uninitialised memory holds.  The meaning of \<^verbatim>\<open>iptables\<close>
  commands is the hypothesis \<open>iptables_semantics\<close>: \<^verbatim>\<open>-A\<close> appends the rule that the text denotes,
  \<^verbatim>\<open>-D\<close> deletes the first equal one; the witnesses instantiate it.

  \<^bold>\<open>Undefined behaviour.\<close>  A write past an array, a null, freed or uninitialised pointer is a
  fault, at which a function or an execution of the model stops.  The program need not stop there: a
  statement that excludes a fault is about the program, one that ends in a fault says with which
  inputs the code is undefined and nothing of what follows.  The array of a node is not initialised
  before its first connection; \<open>node_never_overruns\<close> is about a node from its start, the other
  statements about nodes are about one between two connections (\<open>node_ok\<close>).

  \<^bold>\<open>Simplifications.\<close>  Output under \<^verbatim>\<open>DEBUG\<close> and to \<^verbatim>\<open>printf\<close> is left out where it is not what
  a function is for.  Calls whose results the code does not test (\<^verbatim>\<open>socket\<close>, \<^verbatim>\<open>listen\<close>,
  \<^verbatim>\<open>setsockopt\<close>, \<^verbatim>\<open>free\<close>) have no effect in the model beyond the sockets that are counted; what
  the sender logs is not in its state, only whether its log is open.  In \<open>Session_Threads\<close>
  each call of the teardown is atomic (the NAT rules of one flow, one exchange with a node, one
  access to the clock) and so is the handling of one datagram; the number of a closed descriptor
  is not given out again.  The executions
  cover one session from its configured flows on, the first of a process or a later one; the run
  of several sessions as a whole (\<open>experiments_exact\<close>) is without alerts.  The creation of a thread
  at a node is taken to succeed.

  \<^bold>\<open>Not modelled.\<close>  Darshana itself and the adapter (\<^verbatim>\<open>Darshana/darshana\<close>, \<^verbatim>\<open>MACHETE/MPMAdapter\<close>:
  Java), of which only the format of alerts and the lines of the adapter's answers appear; the
  scripts of \<^verbatim>\<open>evaluation\<close> and \<^verbatim>\<open>install\<close>; headers that only hold debug switches and host
  names; code that is commented out, such as the program at the end of the sender's
  \<^verbatim>\<open>alerts_receiver.c\<close>.
\<close>

end
